(* ===== verification/Prelude.thy ===== *)
theory Prelude
  imports Main "HOL-Library.Word"
begin

text \<open>Shared vocabulary of the development: the types that name the program's
  machine data, the hint collections the component proofs use, and the generic facts on
  byte lists, slices, options and sums that several components rest on.

  A byte is an 8 bit word, a buffer is a list of bytes, a Rust \<open>Result<T, E>\<close>
  is the sum \<open>E + T\<close> (\<open>Inl\<close> the error). A function that writes into a
  caller's buffer returns the buffer as well, also on the error path.\<close>

type_synonym byte = "8 word"
type_synonym u16 = "16 word"
type_synonym u32 = "32 word"
type_synonym u64 = "64 word"
type_synonym i8 = "8 word"
type_synonym i16 = "16 word"
type_synonym i64 = "64 word"
type_synonym bytes = "byte list"

named_theorems codec_simps \<open>round trips and lengths of the byte codecs\<close>
named_theorems slice_simps \<open>reading and writing ranges of a buffer\<close>

section \<open>Results\<close>

fun bind_result :: "'e + 'a \<Rightarrow> ('a \<Rightarrow> 'e + 'b) \<Rightarrow> 'e + 'b" where
  "bind_result (Inl e) f = Inl e"
| "bind_result (Inr x) f = f x"

fun map_err :: "('e \<Rightarrow> 'f) \<Rightarrow> 'e + 'a \<Rightarrow> 'f + 'a" where
  "map_err h (Inl e) = Inl (h e)"
| "map_err h (Inr x) = Inr x"

fun map_ok :: "('a \<Rightarrow> 'b) \<Rightarrow> 'e + 'a \<Rightarrow> 'e + 'b" where
  "map_ok h (Inl e) = Inl e"
| "map_ok h (Inr x) = Inr (h x)"

fun ok_or :: "'e \<Rightarrow> 'a option \<Rightarrow> 'e + 'a" where
  "ok_or e None = Inl e"
| "ok_or e (Some x) = Inr x"

fun is_ok :: "'e + 'a \<Rightarrow> bool" where
  "is_ok (Inl _) = False"
| "is_ok (Inr _) = True"

lemma bind_result_Inr_iff [simp]:
  "bind_result r f = Inr y \<longleftrightarrow> (\<exists>x. r = Inr x \<and> f x = Inr y)"
  by (cases r) auto

lemma map_err_Inr_iff [simp]: "map_err h r = Inr y \<longleftrightarrow> r = Inr y"
  by (cases r) auto

lemma map_ok_Inr_iff [simp]: "map_ok h r = Inr y \<longleftrightarrow> (\<exists>x. r = Inr x \<and> y = h x)"
  by (cases r) auto

lemma map_err_Inl_iff [simp]: "map_err h r = Inl y \<longleftrightarrow> (\<exists>x. r = Inl x \<and> y = h x)"
  by (cases r) auto

lemma map_ok_Inl_iff [simp]: "map_ok h r = Inl y \<longleftrightarrow> r = Inl y"
  by (cases r) auto

lemma ok_or_Inr_iff [simp]: "ok_or e o' = Inr y \<longleftrightarrow> o' = Some y"
  by (cases o') auto

lemma ok_or_Inl_iff [simp]: "ok_or e o' = Inl e' \<longleftrightarrow> o' = None \<and> e' = e"
  by (cases o') auto

lemma is_ok_iff: "is_ok r \<longleftrightarrow> (\<exists>x. r = Inr x)"
  by (cases r) auto

section \<open>Slices\<close>

text \<open>\<open>bytes.get(a..b)\<close>: \<open>None\<close> out of range, as the code's checked slicing.\<close>

definition get_range :: "'a list \<Rightarrow> nat \<Rightarrow> nat \<Rightarrow> 'a list option" where
  "get_range xs a b = (if a \<le> b \<and> b \<le> length xs then Some (take (b - a) (drop a xs)) else None)"

text \<open>\<open>out[..n].copy_from_slice(src)\<close> at an offset, on a buffer known to be long enough.\<close>

definition put_at :: "nat \<Rightarrow> 'a list \<Rightarrow> 'a list \<Rightarrow> 'a list" where
  "put_at i src buf = take i buf @ src @ drop (i + length src) buf"

text \<open>\<open>split_first_chunk::<N>\<close> and \<open>split_at_checked\<close>.\<close>

definition split_chunk :: "nat \<Rightarrow> 'a list \<Rightarrow> ('a list \<times> 'a list) option" where
  "split_chunk n xs = (if n \<le> length xs then Some (take n xs, drop n xs) else None)"

lemma get_range_Some_iff:
  "get_range xs a b = Some ys \<longleftrightarrow> a \<le> b \<and> b \<le> length xs \<and> ys = take (b - a) (drop a xs)"
  by (auto simp: get_range_def)

lemma get_range_length [slice_simps]: "get_range xs a b = Some ys \<Longrightarrow> length ys = b - a"
  by (auto simp: get_range_def split: if_splits)

lemma get_range_append [slice_simps]:
  "length xs = n \<Longrightarrow> get_range (xs @ ys) 0 n = Some xs"
  by (auto simp: get_range_def)

lemma put_at_length [slice_simps]:
  "i + length src \<le> length buf \<Longrightarrow> length (put_at i src buf) = length buf"
  by (simp add: put_at_def)

lemma take_put_at_0 [slice_simps]: "take (length src) (put_at 0 src buf) = src"
  by (simp add: put_at_def)

lemma take_put_at [slice_simps]:
  "i + length src \<le> length buf \<Longrightarrow> take (i + length src) (put_at i src buf) = take i buf @ src"
  by (simp add: put_at_def)

lemma drop_put_at [slice_simps]:
  "i + length src \<le> length buf \<Longrightarrow> drop (i + length src) (put_at i src buf) = drop (i + length src) buf"
  by (simp add: put_at_def)

lemma split_chunk_append [slice_simps]:
  "length xs = n \<Longrightarrow> split_chunk n (xs @ ys) = Some (xs, ys)"
  by (simp add: split_chunk_def)

lemma split_chunk_None [slice_simps]: "split_chunk n xs = None \<longleftrightarrow> length xs < n"
  by (auto simp: split_chunk_def)

lemma split_chunk_Some:
  "split_chunk n xs = Some (ys, zs) \<longleftrightarrow> n \<le> length xs \<and> ys = take n xs \<and> zs = drop n xs"
  by (auto simp: split_chunk_def)

section \<open>Little-endian integers\<close>

fun to_le :: "nat \<Rightarrow> nat \<Rightarrow> bytes" where
  "to_le 0 n = []"
| "to_le (Suc k) n = of_nat n # to_le k (n div 256)"

fun from_le :: "bytes \<Rightarrow> nat" where
  "from_le [] = 0"
| "from_le (b # bs) = unat b + 256 * from_le bs"

lemma to_le_length [simp]: "length (to_le k n) = k"
  by (induction k arbitrary: n) auto

lemma from_to_le [codec_simps]: "from_le (to_le k n) = n mod 256 ^ k"
proof (induction k arbitrary: n)
  case (Suc k)
  have "unat (of_nat n :: byte) = n mod 256"
    by (simp add: unat_of_nat)
  then show ?case
    using Suc mod_mult2_eq [of n 256 "256 ^ k"] by simp
qed simp

lemma from_le_less: "from_le bs < 256 ^ length bs"
proof (induction bs)
  case (Cons b bs)
  have "unat b < 256"
    using unsigned_less [of b] by simp
  moreover have "256 * (from_le bs + 1) \<le> 256 * 256 ^ length bs"
    using Cons by simp
  ultimately show ?case by simp
qed simp

lemma of_nat_byte_add_256 [simp]: "(of_nat (m + 256 * n) :: byte) = of_nat m"
proof -
  have "(of_nat (256 * n) :: byte) = 256 * of_nat n"
    by simp
  also have "(256 :: byte) = 0"
    by (simp add: word_eq_iff_unsigned)
  finally show ?thesis by simp
qed

lemma to_from_le [codec_simps]: "length bs = k \<Longrightarrow> to_le k (from_le bs) = bs"
proof (induction bs arbitrary: k)
  case (Cons b bs)
  have "unat b < 256"
    using unsigned_less [of b] by simp
  then have "(unat b + 256 * from_le bs) div 256 = from_le bs"
    by simp
  with Cons show ?case
    by (auto simp del: of_nat_add)
qed simp

lemma to_le_inject: "to_le k m = to_le k n \<longleftrightarrow> m mod 256 ^ k = n mod 256 ^ k"
proof
  assume "to_le k m = to_le k n"
  then show "m mod 256 ^ k = n mod 256 ^ k" by (metis from_to_le)
next
  assume "m mod 256 ^ k = n mod 256 ^ k"
  then show "to_le k m = to_le k n"
    by (metis from_to_le to_from_le to_le_length)
qed

lemma length_4: "length xs = 4 \<Longrightarrow> \<exists>a b c d. xs = [a, b, c, d]"
  by (auto simp: length_Suc_conv numeral_eq_Suc)

text \<open>\<open>to_le_bytes\<close> and \<open>from_le_bytes\<close> of the fixed-width integers. A signed integer is
  kept as its word; \<open>sint\<close> reads it.\<close>

definition u16_to_le :: "u16 \<Rightarrow> bytes" where "u16_to_le w = to_le 2 (unat w)"
definition u16_from_le :: "bytes \<Rightarrow> u16" where "u16_from_le bs = of_nat (from_le bs)"
definition u32_to_le :: "u32 \<Rightarrow> bytes" where "u32_to_le w = to_le 4 (unat w)"
definition u32_from_le :: "bytes \<Rightarrow> u32" where "u32_from_le bs = of_nat (from_le bs)"

lemma u16_to_le_length [simp]: "length (u16_to_le w) = 2"
  by (simp add: u16_to_le_def)

lemma u32_to_le_length [simp]: "length (u32_to_le w) = 4"
  by (simp add: u32_to_le_def)

lemma u16_from_to_le [codec_simps, simp]: "u16_from_le (u16_to_le w) = w"
proof -
  have "unat w < 65536" using unsigned_less [of w] by simp
  then show ?thesis by (simp add: u16_to_le_def u16_from_le_def from_to_le)
qed

lemma u32_from_to_le [codec_simps, simp]: "u32_from_le (u32_to_le w) = w"
proof -
  have "unat w < 4294967296" using unsigned_less [of w] by simp
  then show ?thesis by (simp add: u32_to_le_def u32_from_le_def from_to_le)
qed

lemma u16_to_from_le [codec_simps]: "length bs = 2 \<Longrightarrow> u16_to_le (u16_from_le bs) = bs"
  using from_le_less [of bs] by (simp add: u16_to_le_def u16_from_le_def unat_of_nat to_from_le)

lemma u32_to_from_le [codec_simps]: "length bs = 4 \<Longrightarrow> u32_to_le (u32_from_le bs) = bs"
  using from_le_less [of bs] by (simp add: u32_to_le_def u32_from_le_def unat_of_nat to_from_le)

lemma u16_to_le_inject [simp]: "u16_to_le v = u16_to_le w \<longleftrightarrow> v = w"
  by (metis u16_from_to_le)

lemma u32_to_le_inject [simp]: "u32_to_le v = u32_to_le w \<longleftrightarrow> v = w"
  by (metis u32_from_to_le)

lemma u16_from_le_unat: "length bs = 2 \<Longrightarrow> unat (u16_from_le bs) = from_le bs"
  using from_le_less [of bs] by (simp add: u16_from_le_def unat_of_nat)

section \<open>Decimal text\<close>

fun digit_char :: "nat \<Rightarrow> char" where
  "digit_char d = char_of (48 + d)"

fun show_nat :: "nat \<Rightarrow> string" where
  "show_nat n = (if n < 10 then [digit_char n] else show_nat (n div 10) @ [digit_char (n mod 10)])"

declare show_nat.simps [simp del]

definition show_int :: "int \<Rightarrow> string" where
  "show_int i = (if i < 0 then CHR ''-'' # show_nat (nat (- i)) else show_nat (nat i))"

text \<open>\<open>{:02}\<close>.\<close>

definition show_02 :: "nat \<Rightarrow> string" where
  "show_02 n = (if n < 10 then CHR ''0'' # show_nat n else show_nat n)"

text \<open>Reading the digits back, most significant first.\<close>

definition read_digits :: "string \<Rightarrow> nat" where
  "read_digits s = foldl (\<lambda>a c. 10 * a + (of_char c - 48)) 0 s"

lemma read_digits_snoc [simp]: "read_digits (s @ [c]) = 10 * read_digits s + (of_char c - 48)"
  by (simp add: read_digits_def)

lemma of_digit_char [simp]: "d < 10 \<Longrightarrow> of_char (digit_char d) = 48 + d"
  by simp

lemma digit_char_simps: "d < 10 \<Longrightarrow> digit_char d = digit_char e \<Longrightarrow> e < 10 \<Longrightarrow> d = e"
  by (metis add_left_cancel of_digit_char)

lemma read_show_nat [simp]: "read_digits (show_nat n) = n"
proof (induction n rule: show_nat.induct)
  case (1 n)
  show ?case
  proof (cases "n < 10")
    case True
    then show ?thesis
      by (subst show_nat.simps) (simp add: read_digits_def)
  next
    case False
    then show ?thesis
      using 1 by (subst show_nat.simps) (simp del: digit_char.simps)
  qed
qed

lemma show_nat_inject [simp]: "show_nat m = show_nat n \<longleftrightarrow> m = n"
  by (metis read_show_nat)

lemma show_nat_not_Nil [simp]: "show_nat n \<noteq> []"
  by (subst show_nat.simps) simp

lemma set_show_nat: "set (show_nat n) \<subseteq> digit_char ` {..<10}"
proof (induction n rule: show_nat.induct)
  case (1 n)
  then show ?case
    by (subst show_nat.simps) (auto simp del: digit_char.simps)
qed

lemma digit_char_not_special [simp]:
  "d < 10 \<Longrightarrow> digit_char d \<noteq> c \<longleftrightarrow> of_char c \<noteq> 48 + d"
  by (metis of_char_eq_iff of_digit_char)

section \<open>Text forms\<close>

text \<open>A type with \<open>Display\<close> and \<open>FromStr\<close>: what is shown is parsed back, and only values that can be
  shown are parsed. \<open>ok\<close> tells the values of the Rust type from those of its model.\<close>

locale text_form =
  fixes ok :: "'a \<Rightarrow> bool"
    and shown :: "'a \<Rightarrow> string"
    and parsed :: "string \<Rightarrow> 'e + 'a"
  assumes parse_shown: "ok v \<Longrightarrow> parsed (shown v) = Inr v"
    and parsed_ok: "parsed s = Inr v \<Longrightarrow> ok v"
begin

lemma shown_inject: "ok v \<Longrightarrow> ok w \<Longrightarrow> shown v = shown w \<longleftrightarrow> v = w"
  by (metis parse_shown sum.inject(2))

lemma parse_iff: "parsed (shown v) = Inr v \<longleftrightarrow> ok v"
  using parse_shown parsed_ok by blast

lemma parsed_canonical: "parsed s = Inr v \<Longrightarrow> parsed (shown v) = Inr v"
  using parse_shown parsed_ok by blast

end

section \<open>Chunks\<close>

text \<open>\<open>slice::slice_chunks(n)\<close>.\<close>

function slice_chunks :: "nat \<Rightarrow> 'a list \<Rightarrow> 'a list list" where
  "slice_chunks n xs = (if xs = [] \<or> n = 0 then [] else take n xs # slice_chunks n (drop n xs))"
  by pat_completeness auto
termination by (relation "measure (length \<circ> snd)") auto

declare slice_chunks.simps [simp del]

lemma slice_chunks_concat [simp]: "0 < n \<Longrightarrow> concat (slice_chunks n xs) = xs"
proof (induction n xs rule: slice_chunks.induct)
  case (1 n xs)
  then show ?case by (subst slice_chunks.simps) auto
qed

lemma slice_chunks_length: "c \<in> set (slice_chunks n xs) \<Longrightarrow> 0 < length c \<and> length c \<le> n"
proof (induction n xs rule: slice_chunks.induct)
  case (1 n xs)
  then show ?case
    by (subst (asm) (2) slice_chunks.simps) (auto split: if_splits)
qed

lemma slice_chunks_last:
  "0 < n \<Longrightarrow> xs \<noteq> [] \<Longrightarrow> length (last (slice_chunks n xs)) = (if length xs mod n = 0 then n else length xs mod n)"
proof (induction n xs rule: slice_chunks.induct)
  case (1 n xs)
  show ?case
  proof (cases "length xs \<le> n")
    case True
    then have "drop n xs = []" "take n xs = xs" by simp_all
    then show ?thesis
      using 1 True by (subst slice_chunks.simps, subst slice_chunks.simps) (cases "length xs = n", auto)
  next
    case False
    then have ne: "drop n xs \<noteq> []" by simp
    then have "slice_chunks n (drop n xs) \<noteq> []" using 1(2) by (subst slice_chunks.simps) simp
    then have "last (slice_chunks n xs) = last (slice_chunks n (drop n xs))"
      using 1(2,3) by (subst slice_chunks.simps) simp
    moreover have "length (drop n xs) mod n = length xs mod n"
      using False by (simp add: le_mod_geq)
    ultimately show ?thesis using 1 ne by simp
  qed
qed

end
