(* ===== verification/Effects.thy ===== *)
theory Effects
  imports Prelude
begin

text \<open>Code that threads a mutable state and leaves early with \<open>?\<close>: a computation takes the
  state and returns a result and the state it left behind, on the error path too. The operators
  below are the code's own forms - statement after statement, \<open>map_err\<close>, a plain value - and
  \<open>holds P m Q E\<close> is the contract of a computation: from a state with \<open>P\<close> it ends in \<open>Q\<close>
  when it returns and in \<open>E\<close> when it fails. One rule per operator makes a component's proofs a
  walk along its code.\<close>

type_synonym ('s, 'e, 'a) comp = "'s \<Rightarrow> ('e + 'a) \<times> 's"

definition return_ok :: "'a \<Rightarrow> ('s, 'e, 'a) comp" where "return_ok x s = (Inr x, s)"
definition throw :: "'e \<Rightarrow> ('s, 'e, 'a) comp" where "throw e s = (Inl e, s)"
definition lift_result :: "'e + 'a \<Rightarrow> ('s, 'e, 'a) comp" where "lift_result r s = (r, s)"

definition and_then :: "('s, 'e, 'a) comp \<Rightarrow> ('a \<Rightarrow> ('s, 'e, 'b) comp) \<Rightarrow> ('s, 'e, 'b) comp" where
  "and_then m f s = (case m s of (Inl e, s') \<Rightarrow> (Inl e, s') | (Inr x, s') \<Rightarrow> f x s')"

definition with_err :: "('e \<Rightarrow> 'f) \<Rightarrow> ('s, 'e, 'a) comp \<Rightarrow> ('s, 'f, 'a) comp" where
  "with_err h m s = (case m s of (r, s') \<Rightarrow> (map_err h r, s'))"

text \<open>What follows an error only.\<close>

definition or_else :: "('s, 'e, 'a) comp \<Rightarrow> ('e \<Rightarrow> ('s, 'f, 'a) comp) \<Rightarrow> ('s, 'f, 'a) comp" where
  "or_else m h s = (case m s of (Inl e, s') \<Rightarrow> h e s' | (Inr x, s') \<Rightarrow> (Inr x, s'))"

text \<open>A computation on one part of a larger state.\<close>

definition on_part :: "('t \<Rightarrow> 's) \<Rightarrow> ('s \<Rightarrow> 't \<Rightarrow> 't) \<Rightarrow> ('s, 'e, 'a) comp \<Rightarrow> ('t, 'e, 'a) comp" where
  "on_part get put m t = (case m (get t) of (r, s') \<Rightarrow> (r, put s' t))"

definition holds ::
  "('s \<Rightarrow> bool) \<Rightarrow> ('s, 'e, 'a) comp \<Rightarrow> ('a \<Rightarrow> 's \<Rightarrow> bool) \<Rightarrow> ('e \<Rightarrow> 's \<Rightarrow> bool) \<Rightarrow> bool" where
  "holds P m Q E \<longleftrightarrow>
     (\<forall>s. P s \<longrightarrow> (case m s of (Inr x, s') \<Rightarrow> Q x s' | (Inl e, s') \<Rightarrow> E e s'))"

section \<open>Rules\<close>

lemma holdsI:
  assumes "\<And>s x s'. P s \<Longrightarrow> m s = (Inr x, s') \<Longrightarrow> Q x s'" "\<And>s e s'. P s \<Longrightarrow> m s = (Inl e, s') \<Longrightarrow> E e s'"
  shows "holds P m Q E"
  unfolding holds_def using assms by (auto split: prod.split sum.split)

lemma holds_Inr: "holds P m Q E \<Longrightarrow> P s \<Longrightarrow> m s = (Inr x, s') \<Longrightarrow> Q x s'"
  by (auto simp: holds_def)

lemma holds_Inl: "holds P m Q E \<Longrightarrow> P s \<Longrightarrow> m s = (Inl e, s') \<Longrightarrow> E e s'"
  by (auto simp: holds_def)

lemma holds_conseq:
  assumes "holds P' m Q' E'" "\<And>s. P s \<Longrightarrow> P' s" "\<And>x s. Q' x s \<Longrightarrow> Q x s" "\<And>e s. E' e s \<Longrightarrow> E e s"
  shows "holds P m Q E"
  using assms by (fastforce simp: holds_def split: prod.split sum.split)

lemma holds_pure: "(b \<Longrightarrow> holds P m Q E) \<Longrightarrow> holds (\<lambda>s. P s \<and> b) m Q E"
  by (auto simp: holds_def)

lemma holds_ex:
  assumes "\<And>t. holds (P t) m Q E"
  shows "holds (\<lambda>s. \<exists>t. P t s) m Q E"
  by (rule holdsI) (use holds_Inr [OF assms] holds_Inl [OF assms] in blast)+

lemma holds_return: "(\<And>s. P s \<Longrightarrow> Q x s) \<Longrightarrow> holds P (return_ok x) Q E"
  by (simp add: holds_def return_ok_def)

lemma holds_throw: "(\<And>s. P s \<Longrightarrow> E e s) \<Longrightarrow> holds P (throw e) Q E"
  by (simp add: holds_def throw_def)

lemma holds_lift:
  "(\<And>s x. P s \<Longrightarrow> r = Inr x \<Longrightarrow> Q x s) \<Longrightarrow> (\<And>s e. P s \<Longrightarrow> r = Inl e \<Longrightarrow> E e s) \<Longrightarrow> holds P (lift_result r) Q E"
  by (auto simp: holds_def lift_result_def split: sum.split)

lemma holds_and_then:
  assumes "holds P m R E" "\<And>x. holds (R x) (f x) Q E"
  shows "holds P (and_then m f) Q E"
proof (rule holdsI)
  fix s y s' assume P: "P s" and r: "and_then m f s = (Inr y, s')"
  obtain x s1 where "m s = (Inr x, s1)" "f x s1 = (Inr y, s')"
    using r by (auto simp: and_then_def split: prod.splits sum.splits)
  then show "Q y s'" using holds_Inr [OF assms(2)] holds_Inr [OF assms(1) P] by blast
next
  fix s e s' assume P: "P s" and r: "and_then m f s = (Inl e, s')"
  then consider "m s = (Inl e, s')" | x s1 where "m s = (Inr x, s1)" "f x s1 = (Inl e, s')"
    by (auto simp: and_then_def split: prod.splits sum.splits)
  then show "E e s'"
    using holds_Inl [OF assms(1) P] holds_Inl [OF assms(2)] holds_Inr [OF assms(1) P] by cases blast+
qed

lemma holds_or_else:
  assumes "holds P m Q R" "\<And>e. holds (R e) (h e) Q E"
  shows "holds P (or_else m h) Q E"
proof (rule holdsI)
  fix s y s' assume P: "P s" and r: "or_else m h s = (Inr y, s')"
  then consider "m s = (Inr y, s')" | e s1 where "m s = (Inl e, s1)" "h e s1 = (Inr y, s')"
    by (auto simp: or_else_def split: prod.splits sum.splits)
  then show "Q y s'"
    using holds_Inr [OF assms(1) P] holds_Inr [OF assms(2)] holds_Inl [OF assms(1) P] by cases blast+
next
  fix s e s' assume P: "P s" and r: "or_else m h s = (Inl e, s')"
  obtain e1 s1 where "m s = (Inl e1, s1)" "h e1 s1 = (Inl e, s')"
    using r by (auto simp: or_else_def split: prod.splits sum.splits)
  then show "E e s'" using holds_Inl [OF assms(2)] holds_Inl [OF assms(1) P] by blast
qed

lemma holds_with_err: "holds P m Q (\<lambda>e. E (h e)) \<Longrightarrow> holds P (with_err h m) Q E"
  by (fastforce simp: holds_def with_err_def split: prod.splits sum.splits)

lemma holds_if:
  "(b \<Longrightarrow> holds P m Q E) \<Longrightarrow> (\<not> b \<Longrightarrow> holds P m' Q E) \<Longrightarrow> holds P (if b then m else m') Q E"
  by simp

lemma holds_on_part:
  assumes "\<And>t. holds (\<lambda>s. P t \<and> s = get t) m (\<lambda>x s'. Q x (put s' t)) (\<lambda>e s'. E e (put s' t))"
  shows "holds P (on_part get put m) Q E"
proof (rule holdsI)
  fix t x t' assume "P t" "on_part get put m t = (Inr x, t')"
  then show "Q x t'"
    using holds_Inr [OF assms [of t], of "get t"] by (auto simp: on_part_def split: prod.splits)
next
  fix t e t' assume "P t" "on_part get put m t = (Inl e, t')"
  then show "E e t'"
    using holds_Inl [OF assms [of t], of "get t"] by (auto simp: on_part_def split: prod.splits)
qed

text \<open>A part of a larger state, as a struct's field is of the struct. An operation on the part keeps
  every fact about the rest, and a sequence on the part is the sequence of its steps on the whole.\<close>

locale part =
  fixes get :: "'t \<Rightarrow> 's" and put :: "'s \<Rightarrow> 't \<Rightarrow> 't"
  assumes get_put: "get (put s t) = s"
    and put_put: "put s' (put s t) = put s' t"
    and put_get: "put (get t) t = t"
begin

lemma lift:
  assumes "holds P m Q E" "\<And>s t. F (put s t) = F t"
  shows "holds (\<lambda>t. P (get t) \<and> F t) (on_part get put m) (\<lambda>x t. Q x (get t) \<and> F t) (\<lambda>e t. E e (get t) \<and> F t)"
proof (rule holds_on_part)
  fix t
  show "holds (\<lambda>s. (P (get t) \<and> F t) \<and> s = get t) m (\<lambda>x s'. Q x (get (put s' t)) \<and> F (put s' t))
     (\<lambda>e s'. E e (get (put s' t)) \<and> F (put s' t))"
    using assms(1) by (fastforce simp: holds_def get_put assms(2) split: prod.splits sum.splits)
qed

lemma frame:
  assumes "\<And>s t. F (put s t) = F t"
  shows "holds F (on_part get put m) (\<lambda>_. F) (\<lambda>_. F)"
  by (auto simp: holds_def on_part_def assms split: prod.splits sum.splits)

lemma on_part_and_then:
  "on_part get put (and_then m f) = and_then (on_part get put m) (\<lambda>x. on_part get put (f x))"
  by (rule ext) (auto simp: on_part_def and_then_def get_put put_put split: prod.splits sum.splits)

lemma on_part_return: "on_part get put (return_ok x) = return_ok x"
  by (rule ext) (simp add: on_part_def return_ok_def put_get)

end

lemma and_then_Inr_iff:
  "and_then m f s = (Inr y, s') \<longleftrightarrow> (\<exists>x s1. m s = (Inr x, s1) \<and> f x s1 = (Inr y, s'))"
  by (auto simp: and_then_def split: prod.splits sum.splits)

lemma and_then_run [simp]:
  "m s = (Inr x, s1) \<Longrightarrow> and_then m f s = f x s1"
  "m s = (Inl e, s1) \<Longrightarrow> and_then m f s = (Inl e, s1)"
  by (simp_all add: and_then_def)

lemma with_err_run [simp]:
  "m s = (r, s1) \<Longrightarrow> with_err h m s = (map_err h r, s1)"
  by (simp add: with_err_def)

lemma with_err_Inr_iff: "with_err h m s = (Inr x, s') \<longleftrightarrow> m s = (Inr x, s')"
  by (auto simp: with_err_def split: prod.splits)

end
