(* ===== verification/Wire.thy ===== *)
theory Wire
  imports Prelude "HOL-Library.Signed_Division"
begin

text \<open>\<open>src/common/src/wire.rs\<close>: the unit newtypes with a fixed-size little-endian
  representation, the \<open>Wire\<close> trait as a locale with the four types as its interpretations,
  and the arithmetic behind their \<open>Display\<close> implementations.\<close>

datatype buffer_too_small = BufferTooSmall
datatype truncated = Truncated

datatype millivolts = Millivolts u16
datatype centi_celsius = CentiCelsius i16
datatype centi_percent = CentiPercent u16
datatype dbm = Dbm i8

section \<open>The codec the macro writes for each type\<close>

text \<open>The two method bodies of \<open>wire_units!\<close>, over the size of the representation and its
  \<open>from_le_bytes\<close>/\<open>to_le_bytes\<close>.\<close>

definition wire_decode :: "nat \<Rightarrow> (bytes \<Rightarrow> 'a) \<Rightarrow> bytes \<Rightarrow> truncated + 'a" where
  "wire_decode size_of from_le_bytes bs =
     (case split_chunk size_of bs of
        None \<Rightarrow> Inl Truncated
      | Some (chunk, _) \<Rightarrow> Inr (from_le_bytes chunk))"

definition wire_encode :: "nat \<Rightarrow> bytes \<Rightarrow> bytes \<Rightarrow> (buffer_too_small + nat) \<times> bytes" where
  "wire_encode size_of le_bytes out =
     (if size_of \<le> length out then (Inr size_of, put_at 0 le_bytes out) else (Inl BufferTooSmall, out))"

definition i8_to_le :: "i8 \<Rightarrow> bytes" where "i8_to_le w = to_le 1 (unat w)"
definition i8_from_le :: "bytes \<Rightarrow> i8" where "i8_from_le bs = of_nat (from_le bs)"

definition millivolts_decode :: "bytes \<Rightarrow> truncated + millivolts" where
  "millivolts_decode = wire_decode 2 (\<lambda>bs. Millivolts (u16_from_le bs))"

fun millivolts_encode :: "millivolts \<Rightarrow> bytes \<Rightarrow> (buffer_too_small + nat) \<times> bytes" where
  "millivolts_encode (Millivolts v) out = wire_encode 2 (u16_to_le v) out"

definition centi_celsius_decode :: "bytes \<Rightarrow> truncated + centi_celsius" where
  "centi_celsius_decode = wire_decode 2 (\<lambda>bs. CentiCelsius (u16_from_le bs))"

fun centi_celsius_encode :: "centi_celsius \<Rightarrow> bytes \<Rightarrow> (buffer_too_small + nat) \<times> bytes" where
  "centi_celsius_encode (CentiCelsius v) out = wire_encode 2 (u16_to_le v) out"

definition centi_percent_decode :: "bytes \<Rightarrow> truncated + centi_percent" where
  "centi_percent_decode = wire_decode 2 (\<lambda>bs. CentiPercent (u16_from_le bs))"

fun centi_percent_encode :: "centi_percent \<Rightarrow> bytes \<Rightarrow> (buffer_too_small + nat) \<times> bytes" where
  "centi_percent_encode (CentiPercent v) out = wire_encode 2 (u16_to_le v) out"

definition dbm_decode :: "bytes \<Rightarrow> truncated + dbm" where
  "dbm_decode = wire_decode 1 (\<lambda>bs. Dbm (i8_from_le bs))"

fun dbm_encode :: "dbm \<Rightarrow> bytes \<Rightarrow> (buffer_too_small + nat) \<times> bytes" where
  "dbm_encode (Dbm v) out = wire_encode 1 (i8_to_le v) out"

lemma i8_to_le_length [simp]: "length (i8_to_le w) = 1"
  by (simp add: i8_to_le_def)

lemma i8_from_to_le [codec_simps, simp]: "i8_from_le (i8_to_le w) = w"
proof -
  have "unat w < 256" using unsigned_less [of w] by simp
  then show ?thesis by (simp add: i8_to_le_def i8_from_le_def)
qed

lemma i8_to_from_le [codec_simps]: "length bs = 1 \<Longrightarrow> i8_to_le (i8_from_le bs) = bs"
  using from_le_less [of bs] by (simp add: i8_to_le_def i8_from_le_def unat_of_nat to_from_le del: to_le.simps)

section \<open>The trait \<open>Wire\<close>\<close>

text \<open>What a client of the trait relies on: \<open>img\<close> names the bytes an encoding writes.\<close>

locale wire =
  fixes size_of :: nat
    and decode :: "bytes \<Rightarrow> truncated + 'a"
    and encode :: "'a \<Rightarrow> bytes \<Rightarrow> (buffer_too_small + nat) \<times> bytes"
    and img :: "'a \<Rightarrow> bytes"
  assumes img_length: "length (img v) = size_of"
    and encode_fits: "size_of \<le> length out \<Longrightarrow> encode v out = (Inr size_of, put_at 0 (img v) out)"
    and encode_short: "length out < size_of \<Longrightarrow> encode v out = (Inl BufferTooSmall, out)"
    and decode_img: "decode (img v @ rest) = Inr v"
    and decode_short: "length bs < size_of \<Longrightarrow> decode bs = Inl Truncated"
    and img_decode: "size_of \<le> length bs \<Longrightarrow> \<exists>v. decode bs = Inr v \<and> img v = take size_of bs"
begin

lemma encode_length [simp]: "length (snd (encode v out)) = length out"
  by (cases "size_of \<le> length out")
     (simp_all add: encode_fits encode_short img_length put_at_def)

lemma encode_Inr_iff: "fst (encode v out) = Inr n \<longleftrightarrow> size_of \<le> length out \<and> n = size_of"
  by (cases "size_of \<le> length out") (auto simp: encode_fits encode_short)

lemma decode_encode: "size_of \<le> length out \<Longrightarrow> decode (snd (encode v out)) = Inr v"
  by (simp add: encode_fits put_at_def decode_img)

lemma encode_keeps_tail: "drop size_of (snd (encode v out)) = drop size_of out"
  by (cases "size_of \<le> length out") (simp_all add: encode_fits encode_short img_length put_at_def)

lemma decode_Inr_iff: "decode bs = Inr v \<longleftrightarrow> size_of \<le> length bs \<and> take size_of bs = img v"
proof
  assume *: "decode bs = Inr v"
  then have le: "size_of \<le> length bs"
    by (metis Inl_Inr_False decode_short leI)
  with img_decode [OF le] * show "size_of \<le> length bs \<and> take size_of bs = img v"
    by auto
next
  assume "size_of \<le> length bs \<and> take size_of bs = img v"
  then show "decode bs = Inr v"
    by (metis append_take_drop_id decode_img)
qed

lemma decode_trailing: "decode bs = Inr v \<Longrightarrow> decode (bs @ rest) = Inr v"
  by (simp add: decode_Inr_iff)

lemma img_inject: "img v = img w \<longleftrightarrow> v = w"
  by (metis append_Nil2 decode_img old.sum.inject(2))

lemma decode_error_iff: "decode bs = Inl e \<longleftrightarrow> length bs < size_of"
  by (metis decode_short img_decode not_le old.sum.distinct(1) sum.exhaust truncated.exhaust)

end

text \<open>The weaker contract of \<open>frame::Encode\<close> and of every variable-length encoder of the
  program: at most \<open>max_len\<close> bytes, written to the front, exactly the count returned; the
  buffer keeps its length, and on an error its content is unspecified.\<close>

locale encoder =
  fixes max_len :: nat
    and encode :: "'a \<Rightarrow> bytes \<Rightarrow> (buffer_too_small + nat) \<times> bytes"
    and img :: "'a \<Rightarrow> bytes"
    and ok :: "'a \<Rightarrow> bool"
  assumes img_max: "ok v \<Longrightarrow> length (img v) \<le> max_len"
    and encode_fits: "ok v \<Longrightarrow> length (img v) \<le> length out
          \<Longrightarrow> encode v out = (Inr (length (img v)), put_at 0 (img v) out)"
    and encode_short: "ok v \<Longrightarrow> length out < length (img v) \<Longrightarrow> fst (encode v out) = Inl BufferTooSmall"
    and encode_len: "ok v \<Longrightarrow> length (snd (encode v out)) = length out"
begin

lemma encode_Inr_iff:
  "ok v \<Longrightarrow> fst (encode v out) = Inr n \<longleftrightarrow> n = length (img v) \<and> n \<le> length out"
  by (cases "length (img v) \<le> length out") (auto simp: encode_fits encode_short)

lemma encode_max: "ok v \<Longrightarrow> max_len \<le> length out \<Longrightarrow> fst (encode v out) = Inr (length (img v))"
  using img_max [of v] by (simp add: encode_Inr_iff)

lemma encode_prefix:
  "ok v \<Longrightarrow> fst (encode v out) = Inr n \<Longrightarrow> take n (snd (encode v out)) = img v"
  by (auto simp: encode_Inr_iff encode_fits put_at_def)

end

sublocale wire \<subseteq> enc: encoder size_of encode img "\<lambda>_. True"
  by unfold_locales (simp_all add: img_length encode_fits encode_short)

fun millivolts_image :: "millivolts \<Rightarrow> bytes" where "millivolts_image (Millivolts v) = u16_to_le v"
fun centi_celsius_image :: "centi_celsius \<Rightarrow> bytes" where "centi_celsius_image (CentiCelsius v) = u16_to_le v"
fun centi_percent_image :: "centi_percent \<Rightarrow> bytes" where "centi_percent_image (CentiPercent v) = u16_to_le v"
fun dbm_image :: "dbm \<Rightarrow> bytes" where "dbm_image (Dbm v) = i8_to_le v"

lemma wire_of_codec:
  assumes "\<And>v. length (img v) = n" "\<And>v out. enc v out = wire_encode n (img v) out"
    and "\<And>v. from (img v) = v" "\<And>bs. length bs = n \<Longrightarrow> img (from bs) = bs"
  shows "wire n (wire_decode n from) enc img"
  using assms by unfold_locales (auto simp: wire_encode_def wire_decode_def split_chunk_def)

lemma encode_eq_image:
  "millivolts_encode mv out = wire_encode 2 (millivolts_image mv) out"
  "centi_celsius_encode cc out = wire_encode 2 (centi_celsius_image cc) out"
  "centi_percent_encode cp out = wire_encode 2 (centi_percent_image cp) out"
  "dbm_encode db out = wire_encode 1 (dbm_image db) out"
  by (cases mv, simp) (cases cc, simp, cases cp, simp, cases db, simp)

lemma image_lengths [simp]:
  "length (millivolts_image mv) = 2" "length (centi_celsius_image cc) = 2"
  "length (centi_percent_image cp) = 2" "length (dbm_image db) = 1"
  by (cases mv, simp) (cases cc, simp, cases cp, simp, cases db, simp)

interpretation millivolts: wire 2 millivolts_decode millivolts_encode millivolts_image
  unfolding millivolts_decode_def
proof (rule wire_of_codec)
  show "Millivolts (u16_from_le (millivolts_image v)) = v" for v
    by (cases v) simp
qed (simp_all add: encode_eq_image u16_to_from_le)

interpretation centi_celsius: wire 2 centi_celsius_decode centi_celsius_encode centi_celsius_image
  unfolding centi_celsius_decode_def
proof (rule wire_of_codec)
  show "CentiCelsius (u16_from_le (centi_celsius_image v)) = v" for v
    by (cases v) simp
qed (simp_all add: encode_eq_image u16_to_from_le)

interpretation centi_percent: wire 2 centi_percent_decode centi_percent_encode centi_percent_image
  unfolding centi_percent_decode_def
proof (rule wire_of_codec)
  show "CentiPercent (u16_from_le (centi_percent_image v)) = v" for v
    by (cases v) simp
qed (simp_all add: encode_eq_image u16_to_from_le)

interpretation dbm: wire 1 dbm_decode dbm_encode dbm_image
  unfolding dbm_decode_def
proof (rule wire_of_codec)
  show "Dbm (i8_from_le (dbm_image v)) = v" for v
    by (cases v) simp
qed (simp_all add: encode_eq_image i8_to_from_le)

section \<open>Display\<close>

datatype formatted_number =
    Decimal2 (fmt_whole: nat) (fmt_fraction: nat) (fmt_sign: string)
  | IntNumber int

definition format_number :: "int \<Rightarrow> nat \<Rightarrow> formatted_number" where
  "format_number value scale =
     (if scale \<le> 1 then IntNumber value
      else Decimal2 (nat \<bar>value sdiv int scale\<bar>) (nat \<bar>value smod int scale\<bar>)
             (if value < 0 then ''-'' else []))"

definition fmt_unit :: "int \<Rightarrow> nat \<Rightarrow> string \<Rightarrow> string" where
  "fmt_unit value scale unit =
     (case format_number value scale of
        IntNumber v \<Rightarrow> show_int v @ unit
      | Decimal2 w f s \<Rightarrow> s @ show_nat w @ ''.'' @ show_02 f @ unit)"

text \<open>The degree sign is two UTF-8 bytes.\<close>

fun millivolts_display :: "millivolts \<Rightarrow> string" where
  "millivolts_display (Millivolts v) = fmt_unit (uint v) 1 ''mV''"
fun centi_celsius_display :: "centi_celsius \<Rightarrow> string" where
  "centi_celsius_display (CentiCelsius v) = fmt_unit (sint v) 100 [CHR 0xC2, CHR 0xB0, CHR ''C'']"
fun centi_percent_display :: "centi_percent \<Rightarrow> string" where
  "centi_percent_display (CentiPercent v) = fmt_unit (uint v) 100 ''%''"
fun dbm_display :: "dbm \<Rightarrow> string" where
  "dbm_display (Dbm v) = fmt_unit (sint v) 1 ''dBm''"

lemma format_number_parts:
  assumes "1 < scale"
  shows "fmt_whole (format_number v scale) = nat \<bar>v\<bar> div scale"
    and "fmt_fraction (format_number v scale) = nat \<bar>v\<bar> mod scale"
    and "fmt_sign (format_number v scale) = (if v < 0 then ''-'' else [])"
proof -
  show "fmt_whole (format_number v scale) = nat \<bar>v\<bar> div scale"
    using assms
    by (simp add: format_number_def signed_divide_int_def abs_mult nat_div_distrib abs_of_nonneg
        pos_imp_zdiv_nonneg_iff)
  show "fmt_fraction (format_number v scale) = nat \<bar>v\<bar> mod scale"
    using assms by (simp add: format_number_def signed_modulo_int_def abs_mult nat_mod_distrib)
  show "fmt_sign (format_number v scale) = (if v < 0 then ''-'' else [])"
    using assms by (simp add: format_number_def)
qed

text \<open>The rendering of a two-decimal value determines it: the sign is read before the division,
  and the fraction always has two digits.\<close>

lemma format_number_value:
  "1 < scale \<Longrightarrow> v = (if fmt_sign (format_number v scale) = ''-'' then -1 else 1)
      * int (fmt_whole (format_number v scale) * scale + fmt_fraction (format_number v scale))"
  by (simp add: format_number_parts)

end
