(* ===== verification/Measurement.thy ===== *)
theory Measurement
  imports Wire
begin

text \<open>\<open>src/common/src/measurement.rs\<close>: the id table, and the tagged encoding of one
  measurement (\<open>[id, value little-endian]\<close>).\<close>

datatype measurement_id = BatteryId | TemperatureId | HumidityId

datatype measurement =
    Battery millivolts
  | Temperature centi_celsius
  | Humidity centi_percent

datatype measurement_id_unknown = MeasurementIdUnknownError byte

datatype measurement_decode_error =
    DecodeTruncated truncated
  | UnknownId measurement_id_unknown

definition measurement_id_try_from :: "byte \<Rightarrow> measurement_id_unknown + measurement_id" where
  "measurement_id_try_from value =
     (if value = 0x01 then Inr BatteryId
      else if value = 0x02 then Inr TemperatureId
      else if value = 0x03 then Inr HumidityId
      else Inl (MeasurementIdUnknownError value))"

definition VARIANT_COUNT :: nat where
  "VARIANT_COUNT = length [0x01, 0x02, 0x03 :: nat]"

definition ID_LEN :: nat where "ID_LEN = 1"

definition MEASUREMENT_MAX_ENCODED_LEN :: nat where
  "MEASUREMENT_MAX_ENCODED_LEN = fold (\<lambda>size m. if 1 + size > m then 1 + size else m) [2, 2, 2] 0"

definition measurement_decode :: "bytes \<Rightarrow> measurement_decode_error + (measurement \<times> nat)" where
  "measurement_decode bs =
     (case bs of
        [] \<Rightarrow> Inl (DecodeTruncated Truncated)
      | mid # rest \<Rightarrow>
          (case measurement_id_try_from mid of
             Inl e \<Rightarrow> Inl (UnknownId e)
           | Inr BatteryId \<Rightarrow>
               map_ok (\<lambda>v. (Battery v, 2 + ID_LEN)) (map_err DecodeTruncated (millivolts_decode rest))
           | Inr TemperatureId \<Rightarrow>
               map_ok (\<lambda>v. (Temperature v, 2 + ID_LEN)) (map_err DecodeTruncated (centi_celsius_decode rest))
           | Inr HumidityId \<Rightarrow>
               map_ok (\<lambda>v. (Humidity v, 2 + ID_LEN)) (map_err DecodeTruncated (centi_percent_decode rest))))"

text \<open>\<open>*id_byte = $id; Ok(ID_LEN + value.encode(payload)?)\<close>: the id stays written when the
  value does not fit.\<close>

fun after_id :: "byte \<Rightarrow> (buffer_too_small + nat) \<times> bytes \<Rightarrow> (buffer_too_small + nat) \<times> bytes" where
  "after_id mid (r, payload) = (map_ok (\<lambda>n. ID_LEN + n) r, mid # payload)"

fun measurement_encode :: "measurement \<Rightarrow> bytes \<Rightarrow> (buffer_too_small + nat) \<times> bytes" where
  "measurement_encode m [] = (Inl BufferTooSmall, [])"
| "measurement_encode (Battery v) (_ # payload) = after_id 0x01 (millivolts_encode v payload)"
| "measurement_encode (Temperature v) (_ # payload) = after_id 0x02 (centi_celsius_encode v payload)"
| "measurement_encode (Humidity v) (_ # payload) = after_id 0x03 (centi_percent_encode v payload)"

fun measurement_display :: "measurement \<Rightarrow> string" where
  "measurement_display (Battery v) = ''Battery '' @ millivolts_display v"
| "measurement_display (Temperature v) = ''Temperature '' @ centi_celsius_display v"
| "measurement_display (Humidity v) = ''Humidity '' @ centi_percent_display v"

text \<open>The constructors the macro derives (\<open>Measurement::battery(4100)\<close>).\<close>

definition battery :: "u16 \<Rightarrow> measurement" where "battery v = Battery (Millivolts v)"
definition temperature :: "i16 \<Rightarrow> measurement" where "temperature v = Temperature (CentiCelsius v)"
definition humidity :: "u16 \<Rightarrow> measurement" where "humidity v = Humidity (CentiPercent v)"

section \<open>Properties of the codec\<close>

fun measurement_image :: "measurement \<Rightarrow> bytes" where
  "measurement_image (Battery v) = 0x01 # millivolts_image v"
| "measurement_image (Temperature v) = 0x02 # centi_celsius_image v"
| "measurement_image (Humidity v) = 0x03 # centi_percent_image v"

lemma MEASUREMENT_MAX_ENCODED_LEN_eq [simp]: "MEASUREMENT_MAX_ENCODED_LEN = 3"
  by (simp add: MEASUREMENT_MAX_ENCODED_LEN_def)

lemma measurement_image_length [simp]: "length (measurement_image m) = 3"
  by (cases m) simp_all

lemma after_id_simps:
  "fst (after_id i p) = map_ok (\<lambda>n. ID_LEN + n) (fst p)" "snd (after_id i p) = i # snd p"
  by (cases p, simp)+

lemma measurement_encode_fits:
  assumes "3 \<le> length out"
  shows "measurement_encode m out = (Inr 3, put_at 0 (measurement_image m) out)"
proof -
  obtain b payload where out: "out = b # payload" "2 \<le> length payload"
    using assms by (cases out) auto
  then show ?thesis
    by (cases m)
       (simp_all add: millivolts.encode_fits centi_celsius.encode_fits centi_percent.encode_fits
          ID_LEN_def put_at_def numeral_3_eq_3)
qed

lemma measurement_encode_short:
  assumes "length out < 3"
  shows "fst (measurement_encode m out) = Inl BufferTooSmall"
proof (cases out)
  case (Cons b payload)
  then have "length payload < 2"
    using assms by simp
  then show ?thesis
    using Cons by (cases m)
      (simp_all add: millivolts.encode_short centi_celsius.encode_short centi_percent.encode_short)
qed (simp)

lemma measurement_encode_length: "length (snd (measurement_encode m out)) = length out"
  by (cases out; cases m) (simp_all add: after_id_simps)

interpretation measurement: encoder MEASUREMENT_MAX_ENCODED_LEN measurement_encode measurement_image "\<lambda>_. True"
  by unfold_locales (simp_all add: measurement_encode_fits measurement_encode_short measurement_encode_length)

lemma measurement_decode_image [codec_simps]:
  "measurement_decode (measurement_image m @ rest) = Inr (m, 3)"
  by (cases m)
     (simp_all add: measurement_decode_def measurement_id_try_from_def ID_LEN_def
        millivolts.decode_img centi_celsius.decode_img centi_percent.decode_img)

lemma measurement_decode_Inr:
  assumes "measurement_decode bs = Inr (m, n)"
  shows "n = 3 \<and> 3 \<le> length bs \<and> take 3 bs = measurement_image m"
  using assms
  by (auto simp: measurement_decode_def measurement_id_try_from_def ID_LEN_def numeral_3_eq_3 numeral_2_eq_2
        millivolts.decode_Inr_iff centi_celsius.decode_Inr_iff centi_percent.decode_Inr_iff
      split: list.splits if_splits measurement_id.splits sum.splits)

lemma measurement_decode_Inr_iff:
  "measurement_decode bs = Inr (m, n) \<longleftrightarrow> n = 3 \<and> 3 \<le> length bs \<and> take 3 bs = measurement_image m"
  by (metis append_take_drop_id measurement_decode_Inr measurement_decode_image)

lemma measurement_image_inject [simp]: "measurement_image m = measurement_image k \<longleftrightarrow> m = k"
  by (metis append_Nil2 measurement_decode_image old.prod.inject old.sum.inject(2))

lemma measurement_decode_Inl_iff:
  "measurement_decode bs = Inl e \<longleftrightarrow>
     (bs = [] \<and> e = DecodeTruncated Truncated)
   \<or> (\<exists>mid rest. bs = mid # rest \<and> mid \<notin> {1, 2, 3} \<and> e = UnknownId (MeasurementIdUnknownError mid))
   \<or> (\<exists>mid rest. bs = mid # rest \<and> mid \<in> {1, 2, 3} \<and> length rest < 2 \<and> e = DecodeTruncated Truncated)"
  by (cases bs)
     (auto simp: measurement_decode_def measurement_id_try_from_def
        millivolts.decode_short centi_celsius.decode_short centi_percent.decode_short
        millivolts.decode_error_iff centi_celsius.decode_error_iff centi_percent.decode_error_iff
      intro: truncated.exhaust)

end
