(* ===== verification/Frame.thy ===== *)
theory Frame
  imports Wire
begin

text \<open>\<open>src/common/src/frame.rs\<close> and \<open>src/gateway/src/decoder.rs\<close>: the framing of opaque
  payloads on a byte stream, and the gateway's stream decoder.

  The CRC-16 of the \<open>crc\<close> crate is the parameter \<open>crc\<close>: any function from bytes to
  16 bits; no law of it is assumed.\<close>

section \<open>Constants\<close>

definition CRC_LEN :: nat where "CRC_LEN = 2"
definition MAGIC_BYTES :: bytes where "MAGIC_BYTES = [0x48, 0x53]"
definition MAX_PAYLOAD_LEN :: nat where "MAX_PAYLOAD_LEN = 1024"
definition PAYLOAD_LEN_SIZE :: nat where "PAYLOAD_LEN_SIZE = 2"
definition OVERHEAD :: nat where "OVERHEAD = CRC_LEN + length MAGIC_BYTES + PAYLOAD_LEN_SIZE"
definition MAX_LEN :: nat where "MAX_LEN = OVERHEAD + MAX_PAYLOAD_LEN"

lemmas frame_consts = CRC_LEN_def MAGIC_BYTES_def MAX_PAYLOAD_LEN_def PAYLOAD_LEN_SIZE_def
  OVERHEAD_def MAX_LEN_def

section \<open>Writing a frame\<close>

text \<open>The four pieces of \<open>out\<close> are split off in the code's order and the first ones stay
  written when a later one does not fit. \<open>payload\<close> is \<open>Encode::encode\<close> of the payload.\<close>

definition frame_encode ::
  "(bytes \<Rightarrow> u16) \<Rightarrow> ('p \<Rightarrow> bytes \<Rightarrow> (buffer_too_small + nat) \<times> bytes) \<Rightarrow> bytes \<Rightarrow> 'p
     \<Rightarrow> (buffer_too_small + nat) \<times> bytes" where
  "frame_encode crc payload_encode out payload =
     (case split_chunk (length MAGIC_BYTES) out of
        None \<Rightarrow> (Inl BufferTooSmall, out)
      | Some (_, len_payload_crc) \<Rightarrow>
         (case split_chunk PAYLOAD_LEN_SIZE len_payload_crc of
            None \<Rightarrow> (Inl BufferTooSmall, MAGIC_BYTES @ len_payload_crc)
          | Some (payload_len, payload_crc) \<Rightarrow>
             (case payload_encode payload payload_crc of
                (Inl e, payload_crc') \<Rightarrow> (Inl e, MAGIC_BYTES @ payload_len @ payload_crc')
              | (Inr payload_size, payload_crc') \<Rightarrow>
                  (let len_payload_crc' = u16_to_le (of_nat payload_size) @ payload_crc';
                       checksummed = take (PAYLOAD_LEN_SIZE + payload_size) len_payload_crc';
                       checksum = crc checksummed
                   in case split_chunk CRC_LEN (drop (payload_size + PAYLOAD_LEN_SIZE) len_payload_crc') of
                        None \<Rightarrow> (Inl BufferTooSmall, MAGIC_BYTES @ len_payload_crc')
                      | Some (_, tail) \<Rightarrow>
                          (Inr (OVERHEAD + payload_size),
                           MAGIC_BYTES @ checksummed @ u16_to_le checksum @ tail)))))"

section \<open>Reading a frame\<close>

datatype frame_error = BadMagic | PayloadTooLarge | BadCrc

datatype frame_outcome =
    Incomplete
  | FrameOk bytes nat
  | Corrupt frame_error nat

text \<open>\<open>memchr\<close>: the index of the first occurrence.\<close>

fun memchr :: "byte \<Rightarrow> bytes \<Rightarrow> nat option" where
  "memchr b [] = None"
| "memchr b (x # xs) = (if x = b then Some 0 else map_option Suc (memchr b xs))"

definition seek_next_magic :: "bytes \<Rightarrow> nat" where
  "seek_next_magic bs =
     (case memchr (hd MAGIC_BYTES) (drop 1 bs) of
        Some d \<Rightarrow> d + 1
      | None \<Rightarrow> length bs)"

text \<open>The loop over \<open>MAGIC_BYTES\<close>: an early return, or the bytes behind the marker.\<close>

fun match_magic :: "bytes \<Rightarrow> bytes \<Rightarrow> bytes \<Rightarrow> frame_outcome + bytes" where
  "match_magic bs [] rest = Inr rest"
| "match_magic bs (m # ms) [] = Inl Incomplete"
| "match_magic bs (m # ms) (b # rest) =
     (if m \<noteq> b then Inl (Corrupt BadMagic (seek_next_magic bs)) else match_magic bs ms rest)"

definition frame_parse :: "(bytes \<Rightarrow> u16) \<Rightarrow> bytes \<Rightarrow> frame_outcome" where
  "frame_parse crc bs =
     (case match_magic bs MAGIC_BYTES bs of
        Inl early \<Rightarrow> early
      | Inr len_payload_crc \<Rightarrow>
         (case split_chunk PAYLOAD_LEN_SIZE len_payload_crc of
            None \<Rightarrow> Incomplete
          | Some (len_bytes, payload_crc) \<Rightarrow>
             (let payload_len = unat (u16_from_le len_bytes) in
              if payload_len > MAX_PAYLOAD_LEN then Corrupt PayloadTooLarge (seek_next_magic bs)
              else if length payload_crc < payload_len then Incomplete
              else case split_chunk CRC_LEN (drop payload_len payload_crc) of
                     None \<Rightarrow> Incomplete
                   | Some (crc_bytes, _) \<Rightarrow>
                      (let checksummed = take (PAYLOAD_LEN_SIZE + payload_len) len_payload_crc in
                       if u16_from_le crc_bytes \<noteq> crc checksummed
                       then Corrupt BadCrc (seek_next_magic bs)
                       else FrameOk (take payload_len payload_crc) (OVERHEAD + payload_len)))))"

section \<open>The gateway's decoder\<close>

lemma memchr_Some:
  "memchr b xs = Some d \<Longrightarrow> d < length xs \<and> xs ! d = b \<and> (\<forall>k<d. xs ! k \<noteq> b)"
proof (induction xs arbitrary: d)
  case (Cons x xs)
  then show ?case
    by (cases d) (auto split: if_splits simp: nth_Cons' less_Suc_eq_0_disj)
qed simp

lemma memchr_None: "memchr b xs = None \<longleftrightarrow> b \<notin> set xs"
  by (induction xs) auto

lemma seek_next_magic_bounds:
  "bs \<noteq> [] \<Longrightarrow> 1 \<le> seek_next_magic bs \<and> seek_next_magic bs \<le> length bs"
  by (cases bs) (auto simp: seek_next_magic_def split: option.split dest!: memchr_Some)

lemma seek_next_magic_skips:
  assumes "0 < k" "k < seek_next_magic bs"
  shows "bs ! k \<noteq> 0x48"
proof (cases bs)
  case (Cons b xs)
  then show ?thesis
    using assms
    by (cases k; cases "memchr 0x48 xs")
       (auto simp: seek_next_magic_def MAGIC_BYTES_def memchr_None dest!: memchr_Some nth_mem)
qed (use assms in \<open>simp add: seek_next_magic_def\<close>)

lemma match_magic_cases:
  "match_magic bs MAGIC_BYTES xs =
     (case xs of
        [] \<Rightarrow> Inl Incomplete
      | a # ys \<Rightarrow> if a \<noteq> 0x48 then Inl (Corrupt BadMagic (seek_next_magic bs))
        else (case ys of [] \<Rightarrow> Inl Incomplete
              | b # zs \<Rightarrow> if b \<noteq> 0x53 then Inl (Corrupt BadMagic (seek_next_magic bs)) else Inr zs))"
  by (auto simp: MAGIC_BYTES_def split: list.split)

lemma frame_parse_Nil [simp]: "frame_parse crc [] = Incomplete"
  by (simp add: frame_parse_def match_magic_cases)

lemma frame_parse_Corrupt:
  "frame_parse crc bs = Corrupt e d \<Longrightarrow> bs \<noteq> [] \<and> d = seek_next_magic bs"
  by (auto simp: frame_parse_def match_magic_cases Let_def
      split: list.splits if_splits sum.splits option.splits)

lemma frame_parse_Corrupt_bounds:
  "frame_parse crc bs = Corrupt e d \<Longrightarrow> 1 \<le> d \<and> d \<le> length bs"
  using frame_parse_Corrupt seek_next_magic_bounds by blast

lemma frame_parse_Ok:
  assumes "frame_parse crc bs = FrameOk p n"
  shows "\<exists>rest. bs = MAGIC_BYTES @ u16_to_le (of_nat (length p)) @ p
                   @ u16_to_le (crc (u16_to_le (of_nat (length p)) @ p)) @ rest
           \<and> length p \<le> MAX_PAYLOAD_LEN \<and> n = OVERHEAD + length p"
proof -
  obtain rest1 where bs: "bs = 0x48 # 0x53 # rest1"
    using assms by (auto simp: frame_parse_def match_magic_cases split: list.splits if_splits)
  then have P: "frame_parse crc (0x48 # 0x53 # rest1) = FrameOk p n"
    using assms by simp
  define l where "l = take 2 rest1"
  define len where "len = unat (u16_from_le l)"
  define body where "body = drop 2 rest1"
  have facts: "2 \<le> length rest1" "len \<le> 1024" "len \<le> length body" "2 \<le> length body - len"
    "p = take len body" "n = 6 + len" "u16_from_le (take 2 (drop len body)) = crc (take (2 + len) rest1)"
    using P
    by (auto simp: frame_parse_def match_magic_cases Let_def split_chunk_def frame_consts
        l_def len_def body_def split: if_splits)
  have lp: "length p = len" using facts by simp
  have ll: "length l = 2" using facts by (simp add: l_def)
  have lb: "u16_to_le (of_nat len) = l"
    using ll by (simp add: len_def u16_to_from_le)
  have r1: "rest1 = l @ body" by (simp add: l_def body_def)
  have ck: "take (2 + len) rest1 = l @ p"
    using ll facts(5) by (simp add: r1)
  have crcb: "u16_to_le (crc (l @ p)) = take 2 (drop len body)"
    using facts by (metis ck u16_to_from_le length_take length_drop min_absorb2)
  have "body = p @ take 2 (drop len body) @ drop 2 (drop len body)"
    by (metis append_take_drop_id facts(5))
  then have "bs = MAGIC_BYTES @ l @ p @ u16_to_le (crc (l @ p)) @ drop 2 (drop len body)"
    unfolding bs r1 crcb by (simp add: MAGIC_BYTES_def)
  then show ?thesis
    using lb lp facts by (auto simp: frame_consts)
qed

lemma frame_parse_Ok_bounds:
  "frame_parse crc bs = FrameOk p n \<Longrightarrow> 0 < n \<and> n \<le> length bs"
  using frame_parse_Ok [of crc bs p n] by (auto simp: frame_consts)

text \<open>The bytes of one frame.\<close>

definition frame_bytes :: "(bytes \<Rightarrow> u16) \<Rightarrow> bytes \<Rightarrow> bytes" where
  "frame_bytes crc p = MAGIC_BYTES @ u16_to_le (of_nat (length p)) @ p
     @ u16_to_le (crc (u16_to_le (of_nat (length p)) @ p))"

lemma frame_bytes_length [simp]: "length (frame_bytes crc p) = OVERHEAD + length p"
  by (simp add: frame_bytes_def frame_consts)

lemma frame_parse_frame_bytes [codec_simps]:
  assumes "length p \<le> MAX_PAYLOAD_LEN"
  shows "frame_parse crc (frame_bytes crc p @ rest) = FrameOk p (OVERHEAD + length p)"
proof -
  have "unat (of_nat (length p) :: u16) = length p"
    using assms by (simp add: unat_of_nat frame_consts)
  then show ?thesis
    using assms
    by (simp add: frame_bytes_def frame_parse_def match_magic_cases Let_def split_chunk_def
        MAGIC_BYTES_def CRC_LEN_def PAYLOAD_LEN_SIZE_def)
qed

lemma frame_parse_Ok_iff:
  "frame_parse crc bs = FrameOk p n \<longleftrightarrow>
     length p \<le> MAX_PAYLOAD_LEN \<and> n = OVERHEAD + length p \<and> (\<exists>rest. bs = frame_bytes crc p @ rest)"
  using frame_parse_Ok [of crc bs p n] frame_parse_frame_bytes [of p crc]
  by (auto simp: frame_bytes_def)

text \<open>The loop of \<open>FrameDecoder::decode\<close>: the frame found, and the buffer left. Every
  corrupt verdict discards at least one byte, which is why it ends.\<close>

function frame_decoder_decode :: "(bytes \<Rightarrow> u16) \<Rightarrow> bytes \<Rightarrow> bytes option \<times> bytes" where
  "frame_decoder_decode crc src =
     (case frame_parse crc src of
        FrameOk p n \<Rightarrow> (Some p, drop n src)
      | Incomplete \<Rightarrow> (None, src)
      | Corrupt e d \<Rightarrow> frame_decoder_decode crc (drop d src))"
  by pat_completeness auto
termination
proof (relation "measure (length \<circ> snd)")
  show "((crc, drop d src), crc, src) \<in> measure (length \<circ> snd)"
    if "frame_parse crc src = Corrupt e d" for crc src e d
    using frame_parse_Corrupt_bounds [OF that] by auto
qed simp

declare frame_decoder_decode.simps [simp del]

text \<open>\<open>tokio_util\<close>'s framed reader calls \<open>decode\<close> until it returns \<open>None\<close>, then waits for
  more bytes: the frames a buffer yields, and what stays buffered.\<close>

lemma frame_decoder_decode_Some:
  "frame_decoder_decode crc src = (Some p, rest) \<Longrightarrow> length rest < length src"
proof (induction crc src rule: frame_decoder_decode.induct)
  case (1 crc src)
  then show ?case
    by (subst (asm) (2) frame_decoder_decode.simps)
       (auto split: frame_outcome.splits dest: frame_parse_Ok_bounds frame_parse_Corrupt_bounds)
qed

function decode_all :: "(bytes \<Rightarrow> u16) \<Rightarrow> bytes \<Rightarrow> bytes list \<times> bytes" where
  "decode_all crc src =
     (case frame_decoder_decode crc src of
        (None, rest) \<Rightarrow> ([], rest)
      | (Some p, rest) \<Rightarrow> (let (ps, rest') = decode_all crc rest in (p # ps, rest')))"
  by pat_completeness auto
termination
  by (relation "measure (length \<circ> snd)") (auto dest!: frame_decoder_decode_Some [OF sym])

declare decode_all.simps [simp del]

section \<open>What \<open>encode\<close> writes\<close>

lemma split_out:
  assumes "4 \<le> length out"
  obtains m l body where "out = m @ l @ body" "length m = 2" "length l = 2"
proof
  show "out = take 2 out @ take 2 (drop 2 out) @ drop 4 out"
    by (metis append_take_drop_id drop_drop numeral_Bit0)
qed (use assms in simp_all)

lemma frame_encode_split:
  "length m = 2 \<Longrightarrow> length l = 2 \<Longrightarrow> frame_encode crc enc (m @ l @ body) v =
     (case enc v body of
        (Inl e, body') \<Rightarrow> (Inl e, MAGIC_BYTES @ l @ body')
      | (Inr n, body') \<Rightarrow>
         (let l' = u16_to_le (of_nat n) in
          case split_chunk 2 (drop n body') of
            None \<Rightarrow> (Inl BufferTooSmall, MAGIC_BYTES @ l' @ body')
          | Some (_, tail) \<Rightarrow>
              (Inr (OVERHEAD + n), MAGIC_BYTES @ (l' @ take n body') @ u16_to_le (crc (l' @ take n body')) @ tail)))"
  by (simp add: frame_encode_def split_chunk_append MAGIC_BYTES_def PAYLOAD_LEN_SIZE_def CRC_LEN_def
      Let_def add.commute cong: option.case_cong sum.case_cong prod.case_cong)

context encoder
begin

lemma frame_encode_fits:
  assumes "ok v" "max_len \<le> MAX_PAYLOAD_LEN" "OVERHEAD + length (img v) \<le> length out"
  shows "frame_encode crc encode out v
     = (Inr (OVERHEAD + length (img v)), put_at 0 (frame_bytes crc (img v)) out)"
proof -
  have "4 \<le> length out"
    using assms by (simp add: frame_consts)
  then obtain m l body where out: "out = m @ l @ body" "length m = 2" "length l = 2"
    by (rule split_out)
  then have "length (img v) + 2 \<le> length body"
    using assms by (simp add: frame_consts)
  then show ?thesis
    using assms out
    by (simp add: frame_encode_split encode_fits put_at_def frame_bytes_def frame_consts split_chunk_def Let_def le_diff_conv2)
qed

lemma frame_encode_short:
  assumes "ok v" "length out < OVERHEAD + length (img v)"
  shows "fst (frame_encode crc encode out v) = Inl BufferTooSmall"
proof (cases "4 \<le> length out")
  case True
  then obtain m l body where out: "out = m @ l @ body" "length m = 2" "length l = 2"
    by (rule split_out)
  show ?thesis
  proof (cases "length (img v) \<le> length body")
    case True
    then show ?thesis
      using assms out
      by (simp add: frame_encode_split encode_fits put_at_def frame_consts split_chunk_def Let_def le_diff_conv2)
  next
    case False
    then have "fst (encode v body) = Inl BufferTooSmall"
      using assms by (intro encode_short) auto
    then show ?thesis
      using assms out by (cases "encode v body") (auto simp: frame_encode_split split: sum.split)
  qed
next
  case False
  then show ?thesis
    by (auto simp: frame_encode_def split_chunk_def frame_consts)
qed

lemma frame_parse_encode:
  assumes "ok v" "max_len \<le> MAX_PAYLOAD_LEN" "fst (frame_encode crc encode out v) = Inr n"
  shows "frame_parse crc (take n (snd (frame_encode crc encode out v)) @ rest) = FrameOk (img v) n
    \<and> n = OVERHEAD + length (img v)"
proof -
  have le: "OVERHEAD + length (img v) \<le> length out"
    using frame_encode_short [of v out crc] assms by fastforce
  have len: "length (img v) \<le> MAX_PAYLOAD_LEN"
    using assms img_max [of v] by simp
  have "n = OVERHEAD + length (img v)"
    using assms by (simp add: frame_encode_fits le)
  then show ?thesis
    using assms(1,2) le len
    by (simp add: frame_encode_fits put_at_def frame_parse_frame_bytes)
qed

end

section \<open>The stream decoder\<close>

lemma frame_parse_extend_Ok:
  "frame_parse crc bs = FrameOk p n \<Longrightarrow> frame_parse crc (bs @ more) = FrameOk p n"
  by (auto simp: frame_parse_Ok_iff)

lemma frame_parse_split:
  "length l = 2 \<Longrightarrow> frame_parse crc (0x48 # 0x53 # l @ body) =
     (let bs = 0x48 # 0x53 # l @ body; len = unat (u16_from_le l) in
      if 1024 < len then Corrupt PayloadTooLarge (seek_next_magic bs)
      else if length body < len + 2 then Incomplete
      else if u16_from_le (take 2 (drop len body)) \<noteq> crc (l @ take len body)
           then Corrupt BadCrc (seek_next_magic bs)
      else FrameOk (take len body) (6 + len))"
  by (auto simp: frame_parse_def match_magic_cases split_chunk_def frame_consts Let_def)

lemma frame_parse_short:
  "length l < 2 \<Longrightarrow> frame_parse crc (0x48 # 0x53 # l) = Incomplete"
  by (simp add: frame_parse_def match_magic_cases split_chunk_def frame_consts)

lemma frame_parse_one [simp]: "frame_parse crc [0x48] = Incomplete"
  by (simp add: frame_parse_def match_magic_cases)

lemma frame_parse_bad_magic:
  "b \<noteq> 0x48 \<Longrightarrow> frame_parse crc (b # bs) = Corrupt BadMagic (seek_next_magic (b # bs))"
  "c \<noteq> 0x53 \<Longrightarrow> frame_parse crc (0x48 # c # bs) = Corrupt BadMagic (seek_next_magic (0x48 # c # bs))"
  by (simp_all add: frame_parse_def match_magic_cases)

text \<open>The six shapes a buffer can have at its front.\<close>

lemma front_cases:
  fixes bs :: bytes
  obtains "bs = []" | b xs where "bs = b # xs" "b \<noteq> 0x48" | "bs = [0x48]"
  | c xs where "bs = 0x48 # c # xs" "c \<noteq> 0x53"
  | l where "bs = 0x48 # 0x53 # l" "length l < 2"
  | l body where "bs = 0x48 # 0x53 # l @ body" "length l = 2"
proof (cases bs)
  case (Cons a xs)
  show ?thesis
  proof (cases xs)
    case Nil
    then show ?thesis using Cons that(2,3) by (cases "a = 0x48") auto
  next
    case (Cons b ys)
    have "ys = take 2 ys @ drop 2 ys" by simp
    moreover have "length ys < 2 \<or> length (take 2 ys) = 2" by auto
    ultimately show ?thesis
      using \<open>bs = a # xs\<close> Cons that(2,4,5,6) by (cases "a = 0x48"; cases "b = 0x53") metis+
  qed
qed (use that(1) in simp)

lemma frame_parse_extend_Corrupt:
  assumes "frame_parse crc bs = Corrupt e d"
  shows "\<exists>d'. frame_parse crc (bs @ more) = Corrupt e d'"
proof (cases bs rule: front_cases)
  case (6 l body)
  then show ?thesis
    using assms frame_parse_split [of l crc "body @ more"]
    by (auto simp: frame_parse_split Let_def split: if_splits)
qed (use assms in \<open>auto simp: frame_parse_bad_magic frame_parse_short\<close>)

lemma frame_parse_Incomplete_length:
  assumes "frame_parse crc bs = Incomplete"
  shows "length bs < MAX_LEN"
proof (cases bs rule: front_cases)
  case (6 l body)
  then show ?thesis
    using assms by (auto simp: frame_parse_split Let_def frame_consts split: if_splits)
qed (use assms in \<open>auto simp: frame_parse_bad_magic frame_consts\<close>)

lemma frame_parse_bad_head:
  "b \<noteq> 0x48 \<Longrightarrow> \<exists>d. frame_parse crc (b # bs) = Corrupt BadMagic d"
  by (simp add: frame_parse_def match_magic_cases)

lemma frame_parse_not_skipped:
  assumes "frame_parse crc bs = Corrupt e d" "0 < k" "k < d"
  shows "\<exists>d'. frame_parse crc (drop k bs @ more) = Corrupt BadMagic d'"
proof -
  have "d = seek_next_magic bs" "d \<le> length bs"
    using assms frame_parse_Corrupt frame_parse_Corrupt_bounds by blast+
  then have "drop k bs @ more = bs ! k # drop (Suc k) bs @ more" "bs ! k \<noteq> 0x48"
    using assms seek_next_magic_skips by (auto simp: Cons_nth_drop_Suc)
  then show ?thesis
    by (metis frame_parse_bad_head)
qed

lemma drop_memchr: "memchr b xs = Some d \<Longrightarrow> drop d xs = dropWhile (\<lambda>x. x \<noteq> b) xs"
  by (induction xs arbitrary: d) (auto split: if_splits)

lemma drop_seek_next_magic:
  "drop (seek_next_magic (b # xs)) (b # xs) = dropWhile (\<lambda>x. x \<noteq> 0x48) xs"
proof (cases "memchr 0x48 xs")
  case None
  then have "dropWhile (\<lambda>x. x \<noteq> 0x48) xs = []"
    by (auto simp: memchr_None)
  with None show ?thesis by (simp add: seek_next_magic_def MAGIC_BYTES_def del: dropWhile_eq_Nil_conv)
qed (simp add: seek_next_magic_def MAGIC_BYTES_def drop_memchr)

lemma decode_Corrupt:
  assumes "frame_parse crc bs = Corrupt e d"
  shows "frame_decoder_decode crc bs = frame_decoder_decode crc (dropWhile (\<lambda>x. x \<noteq> 0x48) (tl bs))"
proof -
  obtain b xs where "bs = b # xs" "d = seek_next_magic (b # xs)"
    using frame_parse_Corrupt [OF assms] by (cases bs) auto
  then show ?thesis
    using assms by (subst frame_decoder_decode.simps) (simp add: drop_seek_next_magic)
qed

lemma decode_dropWhile:
  "frame_decoder_decode crc (dropWhile (\<lambda>x. x \<noteq> 0x48) bs) = frame_decoder_decode crc bs"
proof (cases bs)
  case (Cons b xs)
  then show ?thesis
    using frame_parse_bad_head [of b crc xs] decode_Corrupt [of crc bs] by (cases "b = 0x48") auto
qed simp

text \<open>Skipping to the next magic byte is the same as advancing byte by byte.\<close>

lemma decode_Corrupt_tl:
  "frame_parse crc bs = Corrupt e d \<Longrightarrow> frame_decoder_decode crc bs = frame_decoder_decode crc (tl bs)"
  by (simp add: decode_Corrupt decode_dropWhile)

lemma decode_Ok:
  "frame_parse crc bs = FrameOk p n \<Longrightarrow> frame_decoder_decode crc bs = (Some p, drop n bs)"
  by (subst frame_decoder_decode.simps) simp

lemma decode_Incomplete:
  "frame_parse crc bs = Incomplete \<Longrightarrow> frame_decoder_decode crc bs = (None, bs)"
  by (subst frame_decoder_decode.simps) simp

lemma decode_all_Incomplete:
  "frame_parse crc bs = Incomplete \<Longrightarrow> decode_all crc bs = ([], bs)"
  by (subst decode_all.simps) (simp add: decode_Incomplete)

lemma decode_all_Ok:
  "frame_parse crc bs = FrameOk p n
     \<Longrightarrow> decode_all crc bs = (p # fst (decode_all crc (drop n bs)), snd (decode_all crc (drop n bs)))"
  by (subst decode_all.simps) (simp add: decode_Ok split: prod.split)

lemma decode_all_Corrupt:
  "frame_parse crc bs = Corrupt e d \<Longrightarrow> decode_all crc bs = decode_all crc (tl bs)"
  by (subst (1 2) decode_all.simps) (simp add: decode_Corrupt_tl)

lemmas decode_all_step = decode_all_Incomplete decode_all_Ok decode_all_Corrupt

lemma decode_all_append:
  "decode_all crc (xs @ ys) =
     (fst (decode_all crc xs) @ fst (decode_all crc (snd (decode_all crc xs) @ ys)),
      snd (decode_all crc (snd (decode_all crc xs) @ ys)))"
proof (induction xs rule: length_induct)
  case (1 xs)
  show ?case
  proof (cases "frame_parse crc xs")
    case Incomplete
    then show ?thesis by (simp add: decode_all_Incomplete)
  next
    case (FrameOk p n)
    then have "length (drop n xs) < length xs" "drop n (xs @ ys) = drop n xs @ ys"
      using frame_parse_Ok_bounds [of crc xs p n] by auto
    with 1 show ?thesis
      by (simp add: decode_all_Ok [OF FrameOk] decode_all_Ok [OF frame_parse_extend_Ok [OF FrameOk]])
  next
    case (Corrupt e d)
    obtain d' where C: "frame_parse crc (xs @ ys) = Corrupt e d'"
      using frame_parse_extend_Corrupt [OF Corrupt] by blast
    have "xs \<noteq> []" using frame_parse_Corrupt [OF Corrupt] by simp
    then have "length (tl xs) < length xs" "tl (xs @ ys) = tl xs @ ys" by auto
    with 1 show ?thesis
      by (simp add: decode_all_Corrupt [OF Corrupt] decode_all_Corrupt [OF C])
  qed
qed

lemma decode_all_frames:
  "\<forall>p\<in>set ps. length p \<le> MAX_PAYLOAD_LEN
     \<Longrightarrow> decode_all crc (concat (map (frame_bytes crc) ps) @ tail)
         = (ps @ fst (decode_all crc tail), snd (decode_all crc tail))"
proof (induction ps)
  case (Cons p ps)
  then show ?case
    by (simp add: decode_all_Ok [OF frame_parse_frame_bytes])
qed simp

lemma decode_resync:
  assumes "\<forall>k<length g. \<exists>e d. frame_parse crc (drop k (g @ s)) = Corrupt e d"
  shows "frame_decoder_decode crc (g @ s) = frame_decoder_decode crc s"
  using assms
proof (induction g)
  case (Cons b g)
  have "\<forall>k<length g. \<exists>e d. frame_parse crc (drop k (g @ s)) = Corrupt e d"
    using Cons.prems by (auto dest: spec [of _ "Suc _"])
  moreover obtain e d where "frame_parse crc ((b # g) @ s) = Corrupt e d"
    using Cons.prems by fastforce
  ultimately show ?case
    using Cons.IH by (simp add: decode_Corrupt_tl)
qed simp

text \<open>The reader's buffer and the frames it has delivered, chunk by chunk.\<close>

fun feed :: "(bytes \<Rightarrow> u16) \<Rightarrow> bytes list \<times> bytes \<Rightarrow> bytes list \<Rightarrow> bytes list \<times> bytes" where
  "feed crc (frames, buf) [] = (frames, buf)"
| "feed crc (frames, buf) (chunk # chunks) =
     (let (ps, buf') = decode_all crc (buf @ chunk) in feed crc (frames @ ps, buf') chunks)"

lemma feed_concat:
  "decode_all crc buf = ([], buf) \<Longrightarrow>
     feed crc (frames, buf) chunks
      = (frames @ fst (decode_all crc (buf @ concat chunks)), snd (decode_all crc (buf @ concat chunks)))"
proof (induction chunks arbitrary: frames buf)
  case (Cons c cs)
  have idle: "decode_all crc (snd (decode_all crc xs)) = ([], snd (decode_all crc xs))" for xs
    using decode_all_append [of crc xs "[]"] by (simp add: prod_eq_iff)
  then show ?case
    using Cons.IH [of "snd (decode_all crc (buf @ c))"] decode_all_append [of crc "buf @ c" "concat cs"]
    by (simp add: case_prod_beta Let_def)
qed simp

lemma decode_all_rest_bounded: "length (snd (decode_all crc bs)) < MAX_LEN"
proof (induction bs rule: length_induct)
  case (1 bs)
  show ?case
  proof (cases "frame_parse crc bs")
    case Incomplete
    then show ?thesis
      by (simp add: decode_all_Incomplete frame_parse_Incomplete_length)
  next
    case (FrameOk p n)
    then have "length (drop n bs) < length bs"
      using frame_parse_Ok_bounds [of crc bs p n] by auto
    with 1 show ?thesis by (simp add: decode_all_Ok [OF FrameOk])
  next
    case (Corrupt e d)
    then show ?thesis
      using 1 frame_parse_Corrupt [of crc bs e d] by (simp add: decode_all_Corrupt)
  qed
qed

section \<open>Properties\<close>

text \<open>C26: \<open>Frame::parse\<close> accepts exactly the byte strings that begin with a frame: the magic, the
  little-endian length of a payload of at most 1024 bytes, the payload and the checksum of length
  and payload. The payload and the number of bytes it reports are those of that frame.\<close>

theorem parse_accepts_exactly_frames:
  "frame_parse crc bs = FrameOk p n \<longleftrightarrow>
     length p \<le> MAX_PAYLOAD_LEN \<and> n = OVERHEAD + length p
   \<and> (\<exists>rest. bs = MAGIC_BYTES @ u16_to_le (of_nat (length p)) @ p
                @ u16_to_le (crc (u16_to_le (of_nat (length p)) @ p)) @ rest)"
  by (simp add: frame_parse_Ok_iff frame_bytes_def)

text \<open>On a corrupt buffer \<open>Frame::parse\<close> discards at least one byte and no more than there
  are, and no position it skips over could start a frame, whatever bytes follow.\<close>

theorem corrupt_discards_no_frame:
  assumes "frame_parse crc bs = Corrupt e d"
  shows "1 \<le> d \<and> d \<le> length bs
    \<and> (\<forall>k\<in>{1..<d}. \<forall>more p n. frame_parse crc (drop k bs @ more) \<noteq> FrameOk p n)"
proof (intro conjI ballI allI)
  show "1 \<le> d" "d \<le> length bs"
    using frame_parse_Corrupt_bounds [OF assms] by simp_all
  show "frame_parse crc (drop k bs @ more) \<noteq> FrameOk p n" if "k \<in> {1..<d}" for k more p n
    using frame_parse_not_skipped [OF assms, of k more] that by auto
qed

theorem corrupt_discards_no_frame_witness:
  "frame_parse (\<lambda>_. 0) [0x48, 0x54, 0x01, 0x48] = Corrupt BadMagic 3
   \<and> frame_parse (\<lambda>_. 0) (drop 2 [0x48, 0x54, 0x01, 0x48] @ [0x53]) \<noteq> FrameOk [] 6"
proof -
  have c: "frame_parse (\<lambda>_. 0) [0x48, 0x54, 0x01, 0x48] = Corrupt BadMagic 3"
    by (simp add: frame_parse_def match_magic_cases seek_next_magic_def MAGIC_BYTES_def)
  then show ?thesis
    using bspec [OF corrupt_discards_no_frame [OF c, THEN conjunct2, THEN conjunct2], of 2] by simp
qed

text \<open>C24: The frames the gateway's decoder delivers, and what it keeps buffered, depend only on
  the bytes received and not on how the port splits them into reads; what it keeps is always
  shorter than the longest frame.\<close>

theorem decoding_ignores_chunking:
  "feed crc ([], []) chunks = decode_all crc (concat chunks)
   \<and> length (snd (feed crc ([], []) chunks)) < MAX_LEN"
  using feed_concat [of crc "[]" "[]" chunks] decode_all_rest_bounded [of crc "concat chunks"]
  by (simp add: decode_all_Incomplete prod_eq_iff)

text \<open>C25: After noise none of whose positions parses as the start of a frame, the decoder
  delivers every frame that follows, in order, and nothing else.\<close>

theorem decoder_resynchronises:
  assumes "\<forall>p\<in>set ps. length p \<le> MAX_PAYLOAD_LEN"
    and "\<forall>k<length g. \<exists>e d. frame_parse crc (drop k (g @ concat (map (frame_bytes crc) ps))) = Corrupt e d"
  shows "decode_all crc (g @ concat (map (frame_bytes crc) ps)) = (ps, [])"
proof -
  have "decode_all crc (g @ concat (map (frame_bytes crc) ps)) = decode_all crc (concat (map (frame_bytes crc) ps))"
    using decode_resync [OF assms(2)] by (subst (1 2) decode_all.simps) simp
  then show ?thesis
    using decode_all_frames [OF assms(1), of crc "[]"] by (simp add: decode_all_Incomplete)
qed

theorem decoder_resynchronises_witness:
  "decode_all (\<lambda>_. 0) ([0x53] @ concat (map (frame_bytes (\<lambda>_. 0)) [[0x07]])) = ([[0x07]], [])"
proof (rule decoder_resynchronises)
  show "\<forall>p\<in>set [[0x07]]. length p \<le> MAX_PAYLOAD_LEN" by (simp add: frame_consts)
  obtain d where "frame_parse (\<lambda>_. 0) (0x53 # frame_bytes (\<lambda>_. 0) [0x07]) = Corrupt BadMagic d"
    using frame_parse_bad_head [of "0x53"] by fastforce
  then show "\<forall>k<length [0x53 :: byte]. \<exists>e d. frame_parse (\<lambda>_. 0)
      (drop k ([0x53] @ concat (map (frame_bytes (\<lambda>_. 0)) [[0x07]]))) = Corrupt e d"
    by simp
qed

end
