(* ===== verification/Hex.thy ===== *)
theory Hex
  imports Prelude
begin

text \<open>Hexadecimal text as the program writes and reads it: the upper-case digit table,
  \<open>is_ascii_hexdigit\<close>, and the standard library's \<open>from_str_radix(_, 16)\<close> for unsigned
  types. A Rust \<open>str\<close> is the list of its UTF-8 bytes, one \<open>char\<close> each.\<close>

definition hex_digit :: "nat \<Rightarrow> char" where
  "hex_digit d = ''0123456789ABCDEF'' ! d"

definition is_ascii_hexdigit :: "char \<Rightarrow> bool" where
  "is_ascii_hexdigit c =
     (let n = of_char c :: nat in (48 \<le> n \<and> n \<le> 57) \<or> (65 \<le> n \<and> n \<le> 70) \<or> (97 \<le> n \<and> n \<le> 102))"

text \<open>\<open>char::to_digit(16)\<close>.\<close>

definition to_digit_16 :: "char \<Rightarrow> nat option" where
  "to_digit_16 c =
     (let n = of_char c :: nat in
      if 48 \<le> n \<and> n \<le> 57 then Some (n - 48)
      else if 65 \<le> n \<and> n \<le> 70 then Some (n - 55)
      else if 97 \<le> n \<and> n \<le> 102 then Some (n - 87)
      else None)"

fun hex_digits :: "nat \<Rightarrow> string \<Rightarrow> nat option" where
  "hex_digits acc [] = Some acc"
| "hex_digits acc (c # cs) =
     (case to_digit_16 c of None \<Rightarrow> None | Some d \<Rightarrow> hex_digits (16 * acc + d) cs)"

text \<open>\<open>uN::from_str_radix(s, 16)\<close>, \<open>limit = 2 ^ N\<close>: the empty string and a lone sign are
  errors, one leading plus sign is accepted, and overflow is an error.\<close>

definition from_str_radix_16 :: "nat \<Rightarrow> string \<Rightarrow> nat option" where
  "from_str_radix_16 limit s =
     (if s = [] \<or> s = ''+'' \<or> s = ''-'' then None
      else case hex_digits 0 (if hd s = CHR ''+'' then tl s else s) of
             None \<Rightarrow> None
           | Some n \<Rightarrow> if n < limit then Some n else None)"

text \<open>Two digits for one byte, high nibble first.\<close>

definition hex_byte :: "byte \<Rightarrow> string" where
  "hex_byte b = [hex_digit (unat (drop_bit 4 b)), hex_digit (unat (and b 0xF))]"

definition to_upper :: "char \<Rightarrow> char" where
  "to_upper c = (let n = of_char c :: nat in if 97 \<le> n \<and> n \<le> 122 then char_of (n - 32) else c)"

section \<open>Facts\<close>

lemma less_16_cases:
  "(d :: nat) < 16 \<Longrightarrow> d \<in> {0, 1, 2, 3, 4, 5, 6, 7, 8, 9, 10, 11, 12, 13, 14, 15}"
  unfolding insert_iff empty_iff by presburger

lemma to_digit_hex_digit [simp]: "d < 16 \<Longrightarrow> to_digit_16 (hex_digit d) = Some d"
  by (drule less_16_cases) (auto simp: hex_digit_def to_digit_16_def)

lemma is_hexdigit_hex_digit [simp]: "d < 16 \<Longrightarrow> is_ascii_hexdigit (hex_digit d)"
  by (drule less_16_cases) (auto simp: hex_digit_def is_ascii_hexdigit_def)

lemma is_hexdigit_iff: "is_ascii_hexdigit c \<longleftrightarrow> to_digit_16 c \<noteq> None"
  by (auto simp: is_ascii_hexdigit_def to_digit_16_def Let_def)

lemma to_digit_less: "to_digit_16 c = Some d \<Longrightarrow> d < 16"
  by (auto simp: to_digit_16_def Let_def split: if_splits)

lemma hex_digit_to_digit: "to_digit_16 c = Some d \<Longrightarrow> hex_digit d = to_upper c"
proof -
  assume a: "to_digit_16 c = Some d"
  define n where "n = (of_char c :: nat)"
  have c: "c = char_of n" by (simp add: n_def)
  have "48 \<le> n \<and> n \<le> 57 \<or> 65 \<le> n \<and> n \<le> 70 \<or> 97 \<le> n \<and> n \<le> 102"
    using a by (auto simp: to_digit_16_def Let_def n_def split: if_splits)
  then have n: "n \<in> {48,49,50,51,52,53,54,55,56,57,65,66,67,68,69,70,97,98,99,100,101,102}"
    unfolding insert_iff empty_iff by presburger
  have d: "d = (if n \<le> 57 then n - 48 else if n \<le> 70 then n - 55 else n - 87)"
    using a by (auto simp: to_digit_16_def Let_def n_def split: if_splits)
  show ?thesis
    using n unfolding c d by (elim insertE) (simp_all add: hex_digit_def to_upper_def char_of_def bit_Suc_0_iff)
qed

lemma unat_high_nibble: "unat (drop_bit 4 (b :: byte)) = unat b div 16"
  by (simp add: drop_bit_eq_div unat_div_distrib)

lemma unat_low_nibble: "unat (and (b :: byte) 0xF) = unat b mod 16"
proof -
  have "and b 0xF = take_bit 4 b"
    by (simp add: take_bit_eq_mask mask_eq_exp_minus_1)
  then show ?thesis
    by (simp add: take_bit_eq_mod unat_mod_distrib)
qed

lemma unat_byte_less [simp]: "unat (b :: byte) < 256"
  using unsigned_less [of b] by simp

lemma unat_byte_div_16 [simp]: "unat (b :: byte) div 16 < 16"
  by (rule less_mult_imp_div_less) simp

lemma hex_digits_append:
  "hex_digits a (xs @ ys) = (case hex_digits a xs of None \<Rightarrow> None | Some n \<Rightarrow> hex_digits n ys)"
  by (induction xs arbitrary: a) (auto split: option.split)

lemma hex_digits_hex_byte [simp]: "hex_digits a (hex_byte b) = Some (256 * a + unat b)"
  using mult_div_mod_eq [of 16 "unat b"]
  by (simp add: hex_byte_def unat_high_nibble unat_low_nibble)

lemma hex_byte_length [simp]: "length (hex_byte b) = 2"
  by (simp add: hex_byte_def)

lemma hex_byte_digits: "c \<in> set (hex_byte b) \<Longrightarrow> is_ascii_hexdigit c"
  using unat_byte_less [of b]
  by (auto simp: hex_byte_def unat_high_nibble unat_low_nibble)

lemma hex_digits_rev_bytes:
  "hex_digits 0 (concat (map hex_byte (rev bs))) = Some (from_le bs)"
  by (induction bs) (simp_all add: hex_digits_append)

lemma hex_bytes_length: "length (concat (map hex_byte bs)) = 2 * length bs"
  by (induction bs) simp_all

lemma hex_bytes_digits: "c \<in> set (concat (map hex_byte bs)) \<Longrightarrow> is_ascii_hexdigit c"
  by (auto dest: hex_byte_digits)

lemma hex_digits_Some_less: "hex_digits a s = Some n \<Longrightarrow> n < (a + 1) * 16 ^ length s"
proof (induction s arbitrary: a)
  case (Cons c cs)
  then obtain d where d: "to_digit_16 c = Some d" "hex_digits (16 * a + d) cs = Some n"
    by (auto split: option.splits)
  have "(16 * a + d + 1) * 16 ^ length cs \<le> ((a + 1) * 16) * 16 ^ length cs"
    using to_digit_less [OF d(1)] by (intro mult_right_mono) auto
  with Cons.IH [OF d(2)] have "n < ((a + 1) * 16) * 16 ^ length cs"
    by (rule less_le_trans)
  then show ?case
    by (simp only: list.size power_Suc add_Suc_right add_0_right mult.assoc)
qed simp

lemma hex_digits_defined: "(\<exists>n. hex_digits a s = Some n) \<longleftrightarrow> (\<forall>c\<in>set s. is_ascii_hexdigit c)"
  by (induction s arbitrary: a) (auto simp: is_hexdigit_iff split: option.splits)

lemma plus_not_hexdigit [simp]: "\<not> is_ascii_hexdigit CHR ''+''"
  by (simp add: is_ascii_hexdigit_def)

lemma from_str_radix_16_digits:
  assumes "s \<noteq> []" "\<forall>c\<in>set s. is_ascii_hexdigit c" "16 ^ length s \<le> limit"
  shows "from_str_radix_16 limit s = hex_digits 0 s"
proof -
  obtain n where n: "hex_digits 0 s = Some n"
    using assms hex_digits_defined by blast
  then have "n < limit"
    using hex_digits_Some_less [OF n] assms(3) by simp
  moreover have "hd s \<noteq> CHR ''+''" "s \<noteq> ''-''"
    using assms by (cases s; auto simp: is_ascii_hexdigit_def)+
  ultimately show ?thesis
    using assms n by (auto simp: from_str_radix_16_def)
qed

lemma hex_byte_of_digits:
  assumes "to_digit_16 c = Some h" "to_digit_16 c' = Some l"
  shows "hex_byte (of_nat (16 * h + l)) = [to_upper c, to_upper c']"
proof -
  have "h < 16" "l < 16" using assms to_digit_less by blast+
  then have "unat (of_nat (16 * h + l) :: byte) = 16 * h + l"
    by (simp add: unat_of_nat del: of_nat_add)
  then show ?thesis
    using assms \<open>l < 16\<close> by (simp add: hex_byte_def unat_high_nibble unat_low_nibble hex_digit_to_digit del: of_nat_add)
qed

text \<open>Any even run of hex digits is the text, up to case, of the bytes it denotes.\<close>

lemma hex_pairs:
  "even (length s) \<Longrightarrow> \<forall>c\<in>set s. is_ascii_hexdigit c \<Longrightarrow>
   \<exists>bs. length bs = length s div 2 \<and> hex_digits a s = Some (a * 256 ^ length bs + from_le (rev bs))
           \<and> concat (map hex_byte bs) = map to_upper s"
proof (induction s arbitrary: a rule: induct_list012)
  case (3 c c' s)
  obtain h l where hl: "to_digit_16 c = Some h" "to_digit_16 c' = Some l"
    using 3 by (auto simp: is_hexdigit_iff)
  obtain bs where bs: "length bs = length s div 2"
    "hex_digits (16 * (16 * a + h) + l) s = Some ((16 * (16 * a + h) + l) * 256 ^ length bs + from_le (rev bs))"
    "concat (map hex_byte bs) = map to_upper s"
    using 3(1) [of "16 * (16 * a + h) + l"] 3(3,4) by auto
  define b :: byte where "b = of_nat (16 * h + l)"
  have "h < 16" "l < 16" using hl to_digit_less by blast+
  then have ub: "unat b = 16 * h + l" by (simp add: b_def unat_of_nat del: of_nat_add)
  have le_snoc: "from_le (xs @ [x]) = from_le xs + 256 ^ length xs * unat x" for xs x
    by (induction xs) (simp_all add: algebra_simps)
  have "hex_byte b = [to_upper c, to_upper c']"
    using hex_byte_of_digits [OF hl] by (simp only: b_def)
  then show ?case
    using bs hl ub by (intro exI [of _ "b # bs"]) (simp add: le_snoc algebra_simps)
qed auto
end
