(* ===== verification/DeviceAddr.thy ===== *)
theory DeviceAddr
  imports Hex
begin

text \<open>\<open>src/common/src/device_addr.rs\<close>: the six-byte device address, least significant byte
  first, its text, its integer form and its derivation from the chip's factory words.\<close>

datatype device_addr = DeviceAddr byte byte byte byte byte byte

fun addr_bytes :: "device_addr \<Rightarrow> bytes" where
  "addr_bytes (DeviceAddr a0 a1 a2 a3 a4 a5) = [a0, a1, a2, a3, a4, a5]"

definition DEVICE_ADDR_SIZE :: nat where "DEVICE_ADDR_SIZE = 6"
definition ADDR_WORDS_NEEDED :: nat where "ADDR_WORDS_NEEDED = (DEVICE_ADDR_SIZE + 3) div 4"

text \<open>\<open>zip(chunks, self.0.iter().rev())\<close>: the most significant byte is rendered first.\<close>

definition encode_hex :: "device_addr \<Rightarrow> string" where
  "encode_hex a = concat (map hex_byte (rev (addr_bytes a)))"

definition addr_as_i64 :: "device_addr \<Rightarrow> i64" where
  "addr_as_i64 a = of_nat (from_le (addr_bytes a @ [0, 0]))"

definition from_ficr :: "u32 \<Rightarrow> u32 \<Rightarrow> device_addr" where
  "from_ficr addr0 addr1 =
     (case (u32_to_le addr0, u32_to_le addr1) of
        ([a0, a1, a2, a3], [a4, a5, _, _]) \<Rightarrow> DeviceAddr a0 a1 a2 a3 a4 (or a5 0xC0))"

datatype addr_parse_error = BadFormat | NotHex

fun addr_parse_error_display :: "addr_parse_error \<Rightarrow> string" where
  "addr_parse_error_display BadFormat = ''expected format XXXXXXXXXXXX''"
| "addr_parse_error_display NotHex = ''contains non-hex characters''"

definition u64_to_le :: "nat \<Rightarrow> bytes" where "u64_to_le n = to_le 8 n"

definition addr_from_str :: "string \<Rightarrow> addr_parse_error + device_addr" where
  "addr_from_str s =
     (if length s \<noteq> 12 then Inl BadFormat
      else if \<not> list_all is_ascii_hexdigit s then Inl NotHex
      else case from_str_radix_16 (2 ^ 64) s of
             None \<Rightarrow> Inl NotHex
           | Some v \<Rightarrow>
              (case u64_to_le v of
                 [b0, b1, b2, b3, b4, b5, _, _] \<Rightarrow> Inr (DeviceAddr b0 b1 b2 b3 b4 b5)))"

datatype addr_range_error = DeviceAddrRangeError u64

definition addr_try_from_u64 :: "u64 \<Rightarrow> addr_range_error + device_addr" where
  "addr_try_from_u64 v =
     (case u64_to_le (unat v) of
        [a0, a1, a2, a3, a4, a5, z0, z1] \<Rightarrow>
          if z0 = 0 \<and> z1 = 0 then Inr (DeviceAddr a0 a1 a2 a3 a4 a5) else Inl (DeviceAddrRangeError v))"

section \<open>Facts\<close>

lemma addr_bytes_length [simp]: "length (addr_bytes a) = 6"
  by (cases a) simp

lemma addr_bytes_inject [simp]: "addr_bytes a = addr_bytes b \<longleftrightarrow> a = b"
  by (cases a; cases b) simp

lemma from_le_addr_less: "from_le (addr_bytes a) < 2 ^ 48"
  using from_le_less [of "addr_bytes a"] by simp

lemma encode_hex_length [simp]: "length (encode_hex a) = 12"
  by (simp add: encode_hex_def hex_bytes_length)

lemma encode_hex_not_Nil [simp]: "encode_hex a \<noteq> []"
  using encode_hex_length [of a] by fastforce

lemma encode_hex_digits: "list_all is_ascii_hexdigit (encode_hex a)"
  unfolding encode_hex_def list_all_iff using hex_bytes_digits by blast

lemma from_le_snoc_zero [simp]: "from_le (bs @ [0]) = from_le bs"
  by (induction bs) simp_all

lemma from_le_two_zeros [simp]: "from_le (addr_bytes a @ [0, 0]) = from_le (addr_bytes a)"
  using from_le_snoc_zero [of "addr_bytes a @ [0]"] by simp

lemma u64_to_le_addr [simp]: "u64_to_le (from_le (addr_bytes a)) = addr_bytes a @ [0, 0]"
  using to_from_le [of "addr_bytes a @ [0, 0]" 8] by (simp add: u64_to_le_def)

lemma addr_from_encode_hex [codec_simps]: "addr_from_str (encode_hex a) = Inr a"
proof -
  have "from_str_radix_16 (2 ^ 64) (encode_hex a) = hex_digits 0 (encode_hex a)"
    using encode_hex_digits [of a] encode_hex_length [of a]
    by (intro from_str_radix_16_digits) (auto simp: list_all_iff)
  also have "\<dots> = Some (from_le (addr_bytes a))"
    by (simp add: encode_hex_def hex_digits_rev_bytes)
  finally show ?thesis
    using encode_hex_digits [of a] by (simp add: addr_from_str_def) (cases a, simp)
qed

interpretation addr_text: text_form "\<lambda>_. True" encode_hex addr_from_str
  by unfold_locales (simp_all add: addr_from_encode_hex)

lemma addr_try_from_as_i64 [codec_simps]: "addr_try_from_u64 (addr_as_i64 a) = Inr a"
proof -
  have "unat (addr_as_i64 a) = from_le (addr_bytes a)"
    using from_le_addr_less [of a] by (simp add: addr_as_i64_def unat_of_nat)
  then show ?thesis by (simp add: addr_try_from_u64_def) (cases a, simp)
qed

lemma addr_as_i64_inject [simp]: "addr_as_i64 a = addr_as_i64 b \<longleftrightarrow> a = b"
  by (metis addr_try_from_as_i64 old.sum.inject(2))

text \<open>As a signed integer it is never negative: 48 bits of a 64 bit word.\<close>

lemma addr_as_i64_sint: "sint (addr_as_i64 a) = int (from_le (addr_bytes a))"
proof -
  have u: "uint (addr_as_i64 a) = int (from_le (addr_bytes a))"
    using from_le_addr_less [of a] by (simp add: addr_as_i64_def uint_nat unat_of_nat)
  then show ?thesis
    using from_le_addr_less [of a] by (simp add: sint_uint signed_take_bit_int_eq_self)
qed

text \<open>What the parser accepts: twelve hex digits of either case, and nothing else.\<close>

lemma addr_from_str_Inr:
  assumes "length s = 12" "list_all is_ascii_hexdigit s"
  shows "\<exists>a. addr_from_str s = Inr a \<and> encode_hex a = map to_upper s"
proof -
  obtain bs where bs: "length bs = 6" "hex_digits 0 s = Some (from_le (rev bs))"
    "concat (map hex_byte bs) = map to_upper s"
    using hex_pairs [of s 0] assms by (auto simp: list_all_iff)
  obtain b5 b4 b3 b2 b1 b0 where e: "bs = [b5, b4, b3, b2, b1, b0]"
    using bs(1) by (auto simp: length_Suc_conv numeral_eq_Suc)
  define a where "a = DeviceAddr b0 b1 b2 b3 b4 b5"
  have rb: "rev bs = addr_bytes a" by (simp add: a_def e)
  have "s \<noteq> []" using assms by auto
  then have "from_str_radix_16 (2 ^ 64) s = Some (from_le (addr_bytes a))"
    using assms bs by (subst from_str_radix_16_digits) (auto simp: list_all_iff rb)
  then have "addr_from_str s = Inr a"
    using assms by (simp add: addr_from_str_def) (simp add: a_def)
  moreover have "encode_hex a = map to_upper s"
    using bs(3) by (simp add: encode_hex_def flip: rb)
  ultimately show ?thesis by blast
qed

lemma addr_from_str_cases:
  "addr_from_str s =
     (if length s \<noteq> 12 then Inl BadFormat
      else if \<not> list_all is_ascii_hexdigit s then Inl NotHex
      else Inr (THE a. encode_hex a = map to_upper s))"
proof (cases "length s = 12 \<and> list_all is_ascii_hexdigit s")
  case True
  then obtain a where a: "addr_from_str s = Inr a" "encode_hex a = map to_upper s"
    using addr_from_str_Inr by blast
  have "b = a" if "encode_hex b = map to_upper s" for b
    using that a(2) addr_text.shown_inject [of b a] by simp
  then have "(THE a. encode_hex a = map to_upper s) = a"
    using a(2) by blast
  with a True show ?thesis by simp
qed (auto simp: addr_from_str_def)

lemma from_ficr_bytes:
  "addr_bytes (from_ficr w0 w1)
     = u32_to_le w0 @ [u32_to_le w1 ! 0, or (u32_to_le w1 ! 1) 0xC0]"
proof -
  obtain a0 a1 a2 a3 where "u32_to_le w0 = [a0, a1, a2, a3]"
    using length_4 [OF u32_to_le_length [of w0]] by blast
  moreover obtain b0 b1 b2 b3 where "u32_to_le w1 = [b0, b1, b2, b3]"
    using length_4 [OF u32_to_le_length [of w1]] by blast
  ultimately show ?thesis by (simp add: from_ficr_def)
qed

section \<open>Properties\<close>

text \<open>The text form of an address and its \<open>i64\<close> form each give the address back, the \<open>i64\<close> is
  never negative, and \<open>FromStr\<close> accepts exactly the strings of twelve hex digits of either case,
  giving the address whose text is that string in upper case.\<close>

theorem address_text_exact:
  "addr_from_str (encode_hex a) = Inr a \<and> addr_try_from_u64 (addr_as_i64 a) = Inr a
   \<and> 0 \<le> sint (addr_as_i64 a)
   \<and> (addr_from_str s = Inr b \<longleftrightarrow>
        length s = 12 \<and> list_all is_ascii_hexdigit s \<and> encode_hex b = map to_upper s)"
proof -
  have "addr_from_str s = Inr b \<longleftrightarrow>
        length s = 12 \<and> list_all is_ascii_hexdigit s \<and> encode_hex b = map to_upper s"
  proof (cases "length s = 12 \<and> list_all is_ascii_hexdigit s")
    case True
    then obtain c where c: "addr_from_str s = Inr c" "encode_hex c = map to_upper s"
      using addr_from_str_Inr by blast
    then show ?thesis using True addr_text.shown_inject [of b c] by auto
  next
    case False
    then show ?thesis by (auto simp: addr_from_str_def)
  qed
  then show ?thesis by (simp add: addr_from_encode_hex addr_try_from_as_i64 addr_as_i64_sint)
qed

text \<open>The address read from the chip's factory registers is the six low bytes of the two words
  with the two top bits set, which makes it a valid random static Bluetooth address.\<close>

theorem from_ficr_random_static:
  "addr_bytes (from_ficr w0 w1) = u32_to_le w0 @ [u32_to_le w1 ! 0, or (u32_to_le w1 ! 1) 0xC0]
   \<and> and (addr_bytes (from_ficr w0 w1) ! 5) 0xC0 = 0xC0"
proof -
  have "and (or x 0xC0) 0xC0 = (0xC0 :: byte)" for x by (simp add: bit.conj_disj_distrib2 and.assoc)
  then show ?thesis by (simp add: from_ficr_bytes nth_append)
qed

end
