(* ===== verification/DeviceKey.thy ===== *)
theory DeviceKey
  imports Hex
begin

text \<open>\<open>src/common/src/device_key.rs\<close>: the 32-byte device key and its hexadecimal text. Zeroing
  and redaction concern memory and formatting, not values, and are not modelled.\<close>

definition DEVICE_KEY_SIZE :: nat where "DEVICE_KEY_SIZE = 32"
definition HEX_KEY_SIZE :: nat where "HEX_KEY_SIZE = DEVICE_KEY_SIZE * 2"

text \<open>\<open>DeviceKey([u8; 32])\<close>, with the array's length as a predicate.\<close>

datatype device_key = DeviceKey (key_bytes: bytes)

definition key_ok :: "device_key \<Rightarrow> bool" where
  "key_ok k = (length (key_bytes k) = DEVICE_KEY_SIZE)"

text \<open>\<open>generate\<close>: \<open>random\<close> is what \<open>getrandom::fill\<close> delivers.\<close>

definition generate_key :: "'e + bytes \<Rightarrow> 'e + device_key" where
  "generate_key random = map_ok DeviceKey random"

definition key_to_hex :: "device_key \<Rightarrow> string" where
  "key_to_hex k = concat (map hex_byte (key_bytes k))"

text \<open>The code point that starts at the front of a UTF-8 string.\<close>

fun first_char :: "string \<Rightarrow> nat" where
  "first_char [] = 0"
| "first_char (c # cs) =
     (let b = of_char c; cont = (\<lambda>i. if i < length cs then of_char (cs ! i) mod 64 else 0) in
      if b < 0x80 then b
      else if b < 0xE0 then (b mod 32) * 64 + cont 0
      else if b < 0xF0 then ((b mod 16) * 64 + cont 0) * 64 + cont 1
      else (((b mod 8) * 64 + cont 0) * 64 + cont 1) * 64 + cont 2)"

datatype from_hex_error =
    HexLen nat
  | InvalidChar nat

text \<open>The two-digit slices of the loop over the 32 bytes.\<close>

fun hex_to_bytes :: "string \<Rightarrow> bytes" where
  "hex_to_bytes (h # l # rest) =
     (case from_str_radix_16 256 [h, l] of Some b \<Rightarrow> of_nat b | None \<Rightarrow> 0) # hex_to_bytes rest"
| "hex_to_bytes _ = []"

definition key_from_hex :: "string \<Rightarrow> from_hex_error + device_key" where
  "key_from_hex hex =
     (if length hex \<noteq> HEX_KEY_SIZE then Inl (HexLen (length hex))
      else case dropWhile is_ascii_hexdigit hex of
             c # rest \<Rightarrow> Inl (InvalidChar (first_char (c # rest)))
           | [] \<Rightarrow> Inr (DeviceKey (hex_to_bytes hex)))"

text \<open>The \<open>Display\<close> of a rejected text.\<close>

definition key_hex_len_message :: "nat \<Rightarrow> string" where
  "key_hex_len_message n =
     ''key has invalid len: '' @ show_nat n @ ''; should be '' @ show_nat HEX_KEY_SIZE @ '' characters''"

section \<open>Facts\<close>

lemma radix_256_pair:
  assumes "is_ascii_hexdigit h" "is_ascii_hexdigit l"
  shows "\<exists>b. from_str_radix_16 256 [h, l] = Some b \<and> hex_byte (of_nat b) = [to_upper h, to_upper l]"
proof -
  obtain x y where xy: "to_digit_16 h = Some x" "to_digit_16 l = Some y"
    using assms by (auto simp: is_hexdigit_iff)
  then have "from_str_radix_16 256 [h, l] = Some (16 * x + y)"
    using assms by (subst from_str_radix_16_digits) auto
  then show ?thesis
    using hex_byte_of_digits [OF xy] by blast
qed

lemma radix_hex_byte [simp]: "from_str_radix_16 256 (hex_byte b) = Some (unat b)"
  using hex_digits_hex_byte [of 0 b] hex_byte_digits [of _ b]
  by (subst from_str_radix_16_digits) (auto simp: hex_byte_def)

lemma hex_to_bytes_render [codec_simps]: "hex_to_bytes (concat (map hex_byte bs)) = bs"
proof (induction bs)
  case (Cons b bs)
  obtain h l where "hex_byte b = [h, l]" by (simp add: hex_byte_def)
  then show ?case
    using Cons radix_hex_byte [of b] by simp
qed simp

lemma render_hex_to_bytes:
  "even (length s) \<Longrightarrow> \<forall>c\<in>set s. is_ascii_hexdigit c
     \<Longrightarrow> length (hex_to_bytes s) = length s div 2 \<and> concat (map hex_byte (hex_to_bytes s)) = map to_upper s"
proof (induction s rule: hex_to_bytes.induct)
  case (1 h l rest)
  then obtain b where "from_str_radix_16 256 [h, l] = Some b"
      "hex_byte (of_nat b) = [to_upper h, to_upper l]"
    using radix_256_pair [of h l] by auto
  with 1 show ?case by simp
qed auto

lemma key_to_hex_length: "key_ok k \<Longrightarrow> length (key_to_hex k) = HEX_KEY_SIZE"
  by (simp add: key_to_hex_def hex_bytes_length key_ok_def HEX_KEY_SIZE_def)

lemma key_from_to_hex [codec_simps]:
  assumes "key_ok k"
  shows "key_from_hex (key_to_hex k) = Inr k"
proof -
  have "\<forall>c\<in>set (key_to_hex k). is_ascii_hexdigit c"
    unfolding key_to_hex_def using hex_bytes_digits by blast
  then have "dropWhile is_ascii_hexdigit (key_to_hex k) = []"
    by simp
  moreover have "hex_to_bytes (key_to_hex k) = key_bytes k"
    by (simp only: key_to_hex_def hex_to_bytes_render)
  ultimately show ?thesis
    using key_to_hex_length [OF assms] by (simp only: key_from_hex_def list.case) simp
qed

lemma key_from_hex_Inr_iff:
  "key_from_hex s = Inr k \<longleftrightarrow>
     length s = HEX_KEY_SIZE \<and> (\<forall>c\<in>set s. is_ascii_hexdigit c) \<and> k = DeviceKey (hex_to_bytes s)"
proof (cases "\<forall>c\<in>set s. is_ascii_hexdigit c")
  case True
  then have "dropWhile is_ascii_hexdigit s = []" by simp
  with True show ?thesis by (auto simp only: key_from_hex_def list.case split: if_splits)
next
  case False
  then obtain c rest where "dropWhile is_ascii_hexdigit s = c # rest"
    by (metis dropWhile_eq_Nil_conv neq_Nil_conv)
  then show ?thesis by (simp add: key_from_hex_def False)
qed

lemma key_from_hex_ok: "key_from_hex s = Inr k \<Longrightarrow> key_ok k \<and> key_to_hex k = map to_upper s"
  using render_hex_to_bytes [of s]
  by (auto simp: key_from_hex_Inr_iff key_ok_def key_to_hex_def HEX_KEY_SIZE_def DEVICE_KEY_SIZE_def)

interpretation key_text: text_form key_ok key_to_hex key_from_hex
  by unfold_locales (simp_all add: key_from_to_hex key_from_hex_ok)

section \<open>Properties\<close>

text \<open>\<open>DeviceKey::from_hex\<close> accepts exactly the strings of 64 hex digits of either case and
  gives the key of 32 bytes whose \<open>to_hex\<close> is that string in upper case; so \<open>to_hex\<close> of a key is
  read back as that key.\<close>

theorem key_hex_exact:
  "key_from_hex s = Inr k \<longleftrightarrow>
     key_ok k \<and> length s = HEX_KEY_SIZE \<and> (\<forall>c\<in>set s. is_ascii_hexdigit c) \<and> key_to_hex k = map to_upper s"
proof
  assume "key_from_hex s = Inr k"
  then show "key_ok k \<and> length s = HEX_KEY_SIZE \<and> (\<forall>c\<in>set s. is_ascii_hexdigit c) \<and> key_to_hex k = map to_upper s"
    using key_from_hex_ok key_from_hex_Inr_iff by blast
next
  assume r: "key_ok k \<and> length s = HEX_KEY_SIZE \<and> (\<forall>c\<in>set s. is_ascii_hexdigit c) \<and> key_to_hex k = map to_upper s"
  then obtain j where j: "key_from_hex s = Inr j" "key_ok j" "key_to_hex j = map to_upper s"
    using key_from_hex_Inr_iff key_from_hex_ok by blast
  then show "key_from_hex s = Inr k" using r key_text.shown_inject [of j k] by simp
qed

theorem key_hex_exact_witness:
  "key_from_hex (key_to_hex (DeviceKey (replicate 32 0xA5))) = Inr (DeviceKey (replicate 32 0xA5))"
proof -
  have u: "map to_upper (key_to_hex (DeviceKey (replicate 32 0xA5))) = key_to_hex (DeviceKey (replicate 32 0xA5))"
    "length (key_to_hex (DeviceKey (replicate 32 0xA5))) = HEX_KEY_SIZE"
    "\<forall>c\<in>set (key_to_hex (DeviceKey (replicate 32 0xA5))). is_ascii_hexdigit c"
    by code_simp+
  show ?thesis
    by (rule key_hex_exact [THEN iffD2]) (use u in \<open>simp add: key_ok_def DEVICE_KEY_SIZE_def\<close>)
qed

end
