(* ===== verification/Packet.thy ===== *)
theory Packet
  imports Measurement DeviceAddr DeviceKey
begin

text \<open>\<open>src/common/src/packet.rs\<close>, \<open>packet/cipher.rs\<close> and \<open>packet/v1.rs\<close>: the air packet
  \<open>[ver][seq][ciphertext, tag]\<close>, its authenticated encryption and the version 1 body.

  ChaCha20-Poly1305 of the \<open>chacha20poly1305\<close> crate is the parameter \<open>aead\<close>; \<open>aead_ok\<close>
  states what its documentation promises.\<close>

section \<open>The cipher (\<open>packet/cipher.rs\<close>)\<close>

definition AEAD_TAG_SIZE :: nat where "AEAD_TAG_SIZE = 16"

text \<open>\<open>encrypt_inout_detached\<close> and \<open>decrypt_inout_detached\<close>: key, nonce, associated data, text
  and, to decrypt, the tag.\<close>

record aead =
  seal_detached :: "bytes \<Rightarrow> bytes \<Rightarrow> bytes \<Rightarrow> bytes \<Rightarrow> (bytes \<times> bytes) option"
  open_detached :: "bytes \<Rightarrow> bytes \<Rightarrow> bytes \<Rightarrow> bytes \<Rightarrow> bytes \<Rightarrow> bytes option"

text \<open>Documented behaviour of the crate: encryption keeps the length, yields a 16 byte tag and
  fails only on texts no packet reaches; decryption succeeds exactly on what encryption with the
  same key, nonce and associated data produces.\<close>

definition aead_ok :: "aead \<Rightarrow> bool" where
  "aead_ok A \<longleftrightarrow>
     (\<forall>k n a pt. length pt \<le> 65536 \<longrightarrow> seal_detached A k n a pt \<noteq> None)
   \<and> (\<forall>k n a pt ct tag. seal_detached A k n a pt = Some (ct, tag)
        \<longrightarrow> length ct = length pt \<and> length tag = AEAD_TAG_SIZE \<and> open_detached A k n a ct tag = Some pt)
   \<and> (\<forall>k n a ct tag pt. open_detached A k n a ct tag = Some pt
        \<longrightarrow> seal_detached A k n a pt = Some (ct, tag))"

record packet_cipher =
  cipher_key :: device_key
  cipher_addr :: device_addr

definition cipher_new :: "device_key \<Rightarrow> device_addr \<Rightarrow> packet_cipher" where
  "cipher_new key addr = \<lparr>cipher_key = key, cipher_addr = addr\<rparr>"

definition associated_data :: "packet_cipher \<Rightarrow> u32 \<Rightarrow> byte \<Rightarrow> bytes" where
  "associated_data c seq v = addr_bytes (cipher_addr c) @ [v] @ u32_to_le seq"

definition nonce :: "u32 \<Rightarrow> bytes" where
  "nonce seq = put_at 0 (u32_to_le seq) (replicate 12 0)"

datatype encryption_error = AdOrPlaintextTooLarge
datatype decryption_error = MissingTag | Authentication

text \<open>\<open>encrypt_in_place\<close> returns the two buffers it overwrites.\<close>

definition encrypt_in_place ::
  "aead \<Rightarrow> packet_cipher \<Rightarrow> byte \<Rightarrow> u32 \<Rightarrow> bytes \<Rightarrow> bytes \<Rightarrow> (encryption_error + unit) \<times> bytes \<times> bytes" where
  "encrypt_in_place A c v seq data tag_out =
     (case seal_detached A (key_bytes (cipher_key c)) (nonce seq) (associated_data c seq v) data of
        None \<Rightarrow> (Inl AdOrPlaintextTooLarge, data, tag_out)
      | Some (ct, tag) \<Rightarrow> (Inr (), ct, tag))"

definition decrypt_in_place ::
  "aead \<Rightarrow> packet_cipher \<Rightarrow> byte \<Rightarrow> u32 \<Rightarrow> bytes \<Rightarrow> decryption_error + bytes" where
  "decrypt_in_place A c v seq buf =
     (if length buf < AEAD_TAG_SIZE then Inl MissingTag
      else let data = take (length buf - AEAD_TAG_SIZE) buf;
               tag = drop (length buf - AEAD_TAG_SIZE) buf
           in case open_detached A (key_bytes (cipher_key c)) (nonce seq) (associated_data c seq v) data tag of
                None \<Rightarrow> Inl Authentication
              | Some pt \<Rightarrow> Inr pt)"

lemma nonce_eq: "nonce seq = u32_to_le seq @ replicate 8 0"
  by (simp add: nonce_def put_at_def numeral_eq_Suc)

lemma nonce_inject [simp]: "nonce s = nonce t \<longleftrightarrow> s = t"
  by (simp add: nonce_eq)

lemma nonce_length [simp]: "length (nonce s) = 12"
  by (simp add: nonce_eq)

lemma associated_data_length [simp]: "length (associated_data c s v) = 11"
  by (simp add: associated_data_def)

lemma associated_data_inject:
  "associated_data c s v = associated_data d t w \<longleftrightarrow> cipher_addr c = cipher_addr d \<and> s = t \<and> v = w"
  by (auto simp: associated_data_def)

lemma aead_seal_open:
  "aead_ok A \<Longrightarrow> seal_detached A k n a pt = Some (ct, tag) \<Longrightarrow> open_detached A k n a ct tag = Some pt"
  "aead_ok A \<Longrightarrow> seal_detached A k n a pt = Some (ct, tag) \<Longrightarrow> length ct = length pt"
  "aead_ok A \<Longrightarrow> seal_detached A k n a pt = Some (ct, tag) \<Longrightarrow> length tag = AEAD_TAG_SIZE"
  "aead_ok A \<Longrightarrow> open_detached A k n a ct tag = Some pt \<Longrightarrow> seal_detached A k n a pt = Some (ct, tag)"
  unfolding aead_ok_def by blast+

lemma aead_seal_small:
  "aead_ok A \<Longrightarrow> length pt \<le> 65536 \<Longrightarrow> \<exists>ct tag. seal_detached A k n a pt = Some (ct, tag)"
  unfolding aead_ok_def by (metis not_None_eq prod.exhaust)

section \<open>Layout of the packet (\<open>packet.rs\<close>)\<close>

definition AIR_MAGIC :: bytes where "AIR_MAGIC = [0x48, 0x50]"
definition AIR_MAGIC_SIZE :: nat where "AIR_MAGIC_SIZE = length AIR_MAGIC"
definition SEQ_SIZE :: nat where "SEQ_SIZE = 4"
definition VER_SIZE :: nat where "VER_SIZE = 1"
definition PACKET_OVERHEAD_SIZE :: nat where "PACKET_OVERHEAD_SIZE = SEQ_SIZE + VER_SIZE"
definition MAX_BODY_LEN :: nat where
  "MAX_BODY_LEN = MEASUREMENT_MAX_ENCODED_LEN * VARIANT_COUNT + AEAD_TAG_SIZE"
definition PACKET_MAX_ENCODED_LEN :: nat where
  "PACKET_MAX_ENCODED_LEN = MAX_BODY_LEN + PACKET_OVERHEAD_SIZE"
definition MAX_AIR_LEN :: nat where "MAX_AIR_LEN = AIR_MAGIC_SIZE + PACKET_MAX_ENCODED_LEN"
definition MAX_WIRE_LEN :: nat where "MAX_WIRE_LEN = 252"
definition V1_VERSION :: byte where "V1_VERSION = 1"

lemmas packet_consts = AEAD_TAG_SIZE_def AIR_MAGIC_def AIR_MAGIC_SIZE_def SEQ_SIZE_def VER_SIZE_def
  PACKET_OVERHEAD_SIZE_def MAX_BODY_LEN_def PACKET_MAX_ENCODED_LEN_def MAX_AIR_LEN_def
  MAX_WIRE_LEN_def VARIANT_COUNT_def MEASUREMENT_MAX_ENCODED_LEN_eq

record sensor_packet =
  pkt_ver :: byte
  pkt_seq :: u32
  pkt_body :: bytes

definition packet_parse :: "bytes \<Rightarrow> truncated + sensor_packet" where
  "packet_parse bs =
     (case bs of
        [] \<Rightarrow> Inl Truncated
      | v # rest \<Rightarrow>
         (case split_chunk SEQ_SIZE rest of
            None \<Rightarrow> Inl Truncated
          | Some (seq_bytes, body) \<Rightarrow>
              Inr \<lparr>pkt_ver = v, pkt_seq = u32_from_le seq_bytes, pkt_body = body\<rparr>))"

datatype strip_air_magic_error = StripTruncated truncated | InvalidPrefix

definition strip_air_magic :: "bytes \<Rightarrow> strip_air_magic_error + bytes" where
  "strip_air_magic bs =
     (if length bs < AIR_MAGIC_SIZE then Inl (StripTruncated Truncated)
      else if take AIR_MAGIC_SIZE bs = AIR_MAGIC then Inr (drop AIR_MAGIC_SIZE bs)
      else Inl InvalidPrefix)"

datatype packet_encode_error =
    OutputBufferTooSmall buffer_too_small
  | Encryption encryption_error

text \<open>The loop over the measurements, \<open>written\<close> bytes into the body buffer.\<close>

fun encode_measurements :: "measurement list \<Rightarrow> nat \<Rightarrow> bytes \<Rightarrow> (buffer_too_small + nat) \<times> bytes" where
  "encode_measurements [] written body_buf = (Inr written, body_buf)"
| "encode_measurements (m # ms) written body_buf =
     (case measurement_encode m (drop written body_buf) of
        (Inl e, tail) \<Rightarrow> (Inl e, take written body_buf @ tail)
      | (Inr n, tail) \<Rightarrow> encode_measurements ms (written + n) (take written body_buf @ tail))"

definition packet_encode ::
  "aead \<Rightarrow> u32 \<Rightarrow> measurement list \<Rightarrow> bytes \<Rightarrow> packet_cipher \<Rightarrow> (packet_encode_error + nat) \<times> bytes" where
  "packet_encode A seq measurements out c =
     (let v = V1_VERSION; too_small = Inl (OutputBufferTooSmall BufferTooSmall) in
      case split_chunk VER_SIZE out of
        None \<Rightarrow> (too_small, out)
      | Some (_, rest) \<Rightarrow>
         (case split_chunk SEQ_SIZE rest of
            None \<Rightarrow> (too_small, [v] @ rest)
          | Some (_, body_buf) \<Rightarrow>
             (case encode_measurements measurements 0 body_buf of
                (Inl e, body_buf') \<Rightarrow>
                  (Inl (OutputBufferTooSmall e), [v] @ u32_to_le seq @ body_buf')
              | (Inr written, body_buf') \<Rightarrow>
                 (case split_chunk written body_buf' of
                    None \<Rightarrow> (too_small, [v] @ u32_to_le seq @ body_buf')
                  | Some (data_buf, rest') \<Rightarrow>
                     (case split_chunk AEAD_TAG_SIZE rest' of
                        None \<Rightarrow> (too_small, [v] @ u32_to_le seq @ body_buf')
                      | Some (tag_buf, rest'') \<Rightarrow>
                         (case encrypt_in_place A c v seq data_buf tag_buf of
                            (Inl e, data', tag') \<Rightarrow>
                              (Inl (Encryption e), [v] @ u32_to_le seq @ data' @ tag' @ rest'')
                          | (Inr _, data', tag') \<Rightarrow>
                              (Inr (PACKET_OVERHEAD_SIZE + written + AEAD_TAG_SIZE),
                               [v] @ u32_to_le seq @ data' @ tag' @ rest'')))))))"

definition packet_encode_air ::
  "aead \<Rightarrow> u32 \<Rightarrow> measurement list \<Rightarrow> bytes \<Rightarrow> packet_cipher \<Rightarrow> (packet_encode_error + nat) \<times> bytes" where
  "packet_encode_air A seq measurements out c =
     (case split_chunk AIR_MAGIC_SIZE out of
        None \<Rightarrow> (Inl (OutputBufferTooSmall BufferTooSmall), out)
      | Some (_, rest) \<Rightarrow>
         (case packet_encode A seq measurements rest c of
            (r, rest') \<Rightarrow> (map_ok (\<lambda>n. AIR_MAGIC_SIZE + n) r, AIR_MAGIC @ rest')))"

section \<open>Reading a packet\<close>

record metrics =
  m_battery :: "millivolts option"
  m_temperature :: "centi_celsius option"
  m_relative_humidity :: "centi_percent option"

datatype packet_decode_error =
    DecodeHeader truncated
  | UnsupportedVersion byte
  | DecodeMeasurement measurement_decode_error
  | Duplicate measurement
  | Empty
  | TooLong
  | Decryption decryption_error

text \<open>\<open>Measurements::next\<close>: an item, and the bytes left; an error empties the iterator.\<close>

definition measurements_next :: "bytes \<Rightarrow> (measurement_decode_error + measurement) option \<times> bytes" where
  "measurements_next rest =
     (if rest = [] then (None, rest)
      else case measurement_decode rest of
             Inr (m, bytes_read) \<Rightarrow> (Some (Inr m), drop bytes_read rest)
           | Inl err \<Rightarrow> (Some (Inl err), []))"

lemma measurements_next_less: "measurements_next rest = (Some i, rest') \<Longrightarrow> length rest' < length rest"
  by (cases "measurement_decode rest")
     (auto simp: measurements_next_def measurement_decode_Inr_iff split: if_splits)

section \<open>The version 1 body (\<open>packet/v1.rs\<close>)\<close>

fun set_slot :: "'a option \<Rightarrow> 'a \<Rightarrow> ('a \<Rightarrow> measurement) \<Rightarrow> packet_decode_error + 'a option" where
  "set_slot (Some _) val wrap = Inl (Duplicate (wrap val))"
| "set_slot None val wrap = Inr (Some val)"

fun v1_step :: "metrics \<Rightarrow> measurement \<Rightarrow> packet_decode_error + metrics" where
  "v1_step s (Battery bat) = map_ok (\<lambda>x. s\<lparr>m_battery := x\<rparr>) (set_slot (m_battery s) bat Battery)"
| "v1_step s (Temperature temp) =
     map_ok (\<lambda>x. s\<lparr>m_temperature := x\<rparr>) (set_slot (m_temperature s) temp Temperature)"
| "v1_step s (Humidity rh) =
     map_ok (\<lambda>x. s\<lparr>m_relative_humidity := x\<rparr>) (set_slot (m_relative_humidity s) rh Humidity)"

definition metrics_none :: metrics where
  "metrics_none = \<lparr>m_battery = None, m_temperature = None, m_relative_humidity = None\<rparr>"

function v1_loop :: "metrics \<Rightarrow> bool \<Rightarrow> bytes \<Rightarrow> packet_decode_error + (metrics \<times> bool)" where
  "v1_loop slots has_measurements rest =
     (case measurements_next rest of
        (None, _) \<Rightarrow> Inr (slots, has_measurements)
      | (Some (Inl e), _) \<Rightarrow> Inl (DecodeMeasurement e)
      | (Some (Inr m), rest') \<Rightarrow>
         (case v1_step slots m of
            Inl e \<Rightarrow> Inl e
          | Inr slots' \<Rightarrow> v1_loop slots' True rest'))"
  by pat_completeness auto
termination
  by (relation "measure (\<lambda>(_, _, rest). length rest)") (auto dest!: measurements_next_less [OF sym])

declare v1_loop.simps [simp del]

definition v1_decode :: "bytes \<Rightarrow> packet_decode_error + metrics" where
  "v1_decode body =
     (case v1_loop metrics_none False body of
        Inl e \<Rightarrow> Inl e
      | Inr (slots, has_measurements) \<Rightarrow> if \<not> has_measurements then Inl Empty else Inr slots)"

definition packet_decode :: "aead \<Rightarrow> packet_cipher \<Rightarrow> sensor_packet \<Rightarrow> packet_decode_error + metrics" where
  "packet_decode A c p =
     (if MAX_BODY_LEN < length (pkt_body p) then Inl TooLong
      else case decrypt_in_place A c (pkt_ver p) (pkt_seq p) (pkt_body p) of
             Inl e \<Rightarrow> Inl (Decryption e)
           | Inr plaintext \<Rightarrow>
               if pkt_ver p = V1_VERSION then v1_decode plaintext
               else Inl (UnsupportedVersion (pkt_ver p)))"

end
