(* ===== verification/Packet_Facts.thy ===== *)
theory Packet_Facts
  imports Packet
begin

text \<open>The laws of the air packet: what the encoder writes, what the parser and the version 1
  decoder accept, and that decoding inverts encoding.\<close>

section \<open>The header\<close>

lemma packet_parse_Inr_iff:
  "packet_parse bs = Inr p \<longleftrightarrow> bs = pkt_ver p # u32_to_le (pkt_seq p) @ pkt_body p"
proof
  assume "packet_parse bs = Inr p"
  then show "bs = pkt_ver p # u32_to_le (pkt_seq p) @ pkt_body p"
    by (auto simp: packet_parse_def SEQ_SIZE_def split_chunk_def u32_to_from_le
        split: list.splits if_splits)
next
  assume "bs = pkt_ver p # u32_to_le (pkt_seq p) @ pkt_body p"
  then show "packet_parse bs = Inr p"
    by (simp add: packet_parse_def SEQ_SIZE_def split_chunk_append)
qed

lemma packet_parse_Inl_iff: "packet_parse bs = Inl e \<longleftrightarrow> length bs < 5"
  by (cases e) (auto simp: packet_parse_def SEQ_SIZE_def split_chunk_def split: list.splits)

lemma strip_air_magic_Inr_iff: "strip_air_magic bs = Inr rest \<longleftrightarrow> bs = AIR_MAGIC @ rest"
proof
  assume "strip_air_magic bs = Inr rest"
  then show "bs = AIR_MAGIC @ rest"
    by (auto simp: strip_air_magic_def AIR_MAGIC_SIZE_def split: if_splits)
       (metis append_take_drop_id)
qed (simp add: strip_air_magic_def AIR_MAGIC_SIZE_def)

section \<open>The body\<close>

definition body_image :: "measurement list \<Rightarrow> bytes" where
  "body_image ms = concat (map measurement_image ms)"

lemma body_image_simps [simp]:
  "body_image [] = []" "body_image (m # ms) = measurement_image m @ body_image ms"
  by (simp_all add: body_image_def)

lemma measurement_image_not_Nil [simp]: "measurement_image m \<noteq> []"
  by (cases m) simp_all

lemma body_image_length [simp]: "length (body_image ms) = 3 * length ms"
  by (induction ms) simp_all

lemma encode_measurements_fits:
  "written + 3 * length ms \<le> length buf \<Longrightarrow>
     encode_measurements ms written buf
       = (Inr (written + 3 * length ms), put_at written (body_image ms) buf)"
proof (induction ms arbitrary: written buf)
  case (Cons m ms)
  let ?buf = "take written buf @ put_at 0 (measurement_image m) (drop written buf)"
  have b: "?buf = (take written buf @ measurement_image m) @ drop (written + 3) buf"
    using Cons.prems by (simp add: put_at_def add.commute)
  have lb: "length ?buf = length buf"
    using Cons.prems by (simp add: b)
  have "put_at (written + 3) (body_image ms) ?buf = put_at written (body_image (m # ms)) buf"
    using Cons.prems unfolding b put_at_def by (simp add: ac_simps)
  moreover have "encode_measurements ms (written + 3) ?buf
      = (Inr (written + 3 + 3 * length ms), put_at (written + 3) (body_image ms) ?buf)"
    using Cons.prems lb by (intro Cons.IH) simp
  ultimately show ?case
    using Cons.prems by (simp add: measurement_encode_fits)
qed (simp add: put_at_def)

lemma encode_measurements_short:
  "length buf < written + 3 * length ms \<Longrightarrow> written \<le> length buf
     \<Longrightarrow> fst (encode_measurements ms written buf) = Inl BufferTooSmall"
proof (induction ms arbitrary: written buf)
  case (Cons m ms)
  show ?case
  proof (cases "length buf < written + 3")
    case True
    then have "fst (measurement_encode m (drop written buf)) = Inl BufferTooSmall"
      by (intro measurement_encode_short) auto
    then show ?thesis
      by (cases "measurement_encode m (drop written buf)") simp
  next
    case False
    then show ?thesis
      using Cons by (simp add: measurement_encode_fits put_at_length)
  qed
qed simp

section \<open>The version 1 body\<close>

fun kind :: "measurement \<Rightarrow> measurement_id" where
  "kind (Battery _) = BatteryId"
| "kind (Temperature _) = TemperatureId"
| "kind (Humidity _) = HumidityId"

text \<open>The slots a list of measurements fills, read off the list.\<close>

fun battery_of :: "measurement list \<Rightarrow> millivolts option" where
  "battery_of [] = None"
| "battery_of (Battery v # ms) = Some v"
| "battery_of (_ # ms) = battery_of ms"

fun temperature_of :: "measurement list \<Rightarrow> centi_celsius option" where
  "temperature_of [] = None"
| "temperature_of (Temperature v # ms) = Some v"
| "temperature_of (_ # ms) = temperature_of ms"

fun humidity_of :: "measurement list \<Rightarrow> centi_percent option" where
  "humidity_of [] = None"
| "humidity_of (Humidity v # ms) = Some v"
| "humidity_of (_ # ms) = humidity_of ms"

definition metrics_of :: "measurement list \<Rightarrow> metrics" where
  "metrics_of ms = \<lparr>m_battery = battery_of ms, m_temperature = temperature_of ms,
                    m_relative_humidity = humidity_of ms\<rparr>"

fun slot_free :: "metrics \<Rightarrow> measurement_id \<Rightarrow> bool" where
  "slot_free s BatteryId = (m_battery s = None)"
| "slot_free s TemperatureId = (m_temperature s = None)"
| "slot_free s HumidityId = (m_relative_humidity s = None)"

text \<open>The fold over a parsed body.\<close>

fun v1_fold :: "metrics \<Rightarrow> measurement list \<Rightarrow> packet_decode_error + metrics" where
  "v1_fold s [] = Inr s"
| "v1_fold s (m # ms) = (case v1_step s m of Inl e \<Rightarrow> Inl e | Inr s' \<Rightarrow> v1_fold s' ms)"

lemma v1_step_taken: "\<not> slot_free s (kind m) \<Longrightarrow> v1_step s m = Inl (Duplicate m)"
  by (cases m) auto

lemma v1_step_free:
  "slot_free s (kind m) \<Longrightarrow> \<exists>s'. v1_step s m = Inr s'
     \<and> (\<forall>k. slot_free s' k \<longleftrightarrow> slot_free s k \<and> k \<noteq> kind m)"
  by (cases m) (auto elim!: slot_free.elims intro: measurement_id.exhaust)

lemma v1_loop_image:
  "v1_loop s h (body_image ms) =
     (case v1_fold s ms of Inl e \<Rightarrow> Inl e | Inr s' \<Rightarrow> Inr (s', h \<or> ms \<noteq> []))"
proof (induction ms arbitrary: s h)
  case Nil
  then show ?case by (subst v1_loop.simps) (simp add: measurements_next_def)
next
  case (Cons m ms)
  have "measurements_next (measurement_image m @ body_image ms) = (Some (Inr m), body_image ms)"
    by (simp add: measurements_next_def measurement_decode_image)
  then show ?case
    by (subst v1_loop.simps) (simp add: Cons.IH split: sum.split)
qed

lemma v1_loop_Inr:
  "v1_loop s h body = Inr (s', h') \<Longrightarrow> \<exists>ms. body = body_image ms \<and> v1_fold s ms = Inr s'"
proof (induction s h body rule: v1_loop.induct)
  case (1 s h body)
  show ?case
  proof (cases "body = []")
    case True
    then show ?thesis
      using "1.prems" by (subst (asm) v1_loop.simps) (auto simp: measurements_next_def intro: exI [of _ "[]"])
  next
    case False
    then obtain m where m: "measurement_decode body = Inr (m, 3)"
      "measurements_next body = (Some (Inr m), drop 3 body)"
      using "1.prems" by (subst (asm) v1_loop.simps)
        (auto simp: measurements_next_def measurement_decode_Inr_iff split: sum.splits)
    obtain s1 where s1: "v1_step s m = Inr s1" "v1_loop s1 True (drop 3 body) = Inr (s', h')"
      using "1.prems" m by (subst (asm) v1_loop.simps) (auto split: sum.splits)
    obtain ms where "drop 3 body = body_image ms" "v1_fold s1 ms = Inr s'"
      using "1.IH" [OF m(2) [symmetric] refl refl s1] by blast
    moreover have "body = measurement_image m @ drop 3 body"
      using m(1) by (metis append_take_drop_id measurement_decode_Inr_iff)
    ultimately show ?thesis
      using s1 by (intro exI [of _ "m # ms"]) simp
  qed
qed

lemma v1_fold_ok_iff:
  "(\<exists>s'. v1_fold s ms = Inr s') \<longleftrightarrow> distinct (map kind ms) \<and> (\<forall>m\<in>set ms. slot_free s (kind m))"
proof (induction ms arbitrary: s)
  case (Cons m ms)
  show ?case
  proof (cases "slot_free s (kind m)")
    case True
    then obtain s1 where "v1_step s m = Inr s1" "\<forall>k. slot_free s1 k \<longleftrightarrow> slot_free s k \<and> k \<noteq> kind m"
      using v1_step_free by blast
    then have "(\<exists>s'. v1_fold s (m # ms) = Inr s') \<longleftrightarrow>
        distinct (map kind ms) \<and> (\<forall>k\<in>set ms. slot_free s (kind k) \<and> kind k \<noteq> kind m)"
      by (simp add: Cons.IH)
    also have "\<dots> \<longleftrightarrow> distinct (map kind (m # ms)) \<and> (\<forall>k\<in>set (m # ms). slot_free s (kind k))"
      using True by (simp add: image_iff) metis
    finally show ?thesis .
  qed (simp add: v1_step_taken)
qed simp

lemma v1_fold_value:
  "v1_fold s ms = Inr s' \<Longrightarrow>
     m_battery s' = (case m_battery s of Some v \<Rightarrow> Some v | None \<Rightarrow> battery_of ms)
   \<and> m_temperature s' = (case m_temperature s of Some v \<Rightarrow> Some v | None \<Rightarrow> temperature_of ms)
   \<and> m_relative_humidity s' = (case m_relative_humidity s of Some v \<Rightarrow> Some v | None \<Rightarrow> humidity_of ms)"
proof (induction ms arbitrary: s)
  case (Cons m ms)
  show ?case
  proof (cases m)
    case (Battery v)
    then show ?thesis
      using Cons by (cases "m_battery s") (auto split: option.splits dest!: Cons.IH)
  next
    case (Temperature v)
    then show ?thesis
      using Cons by (cases "m_temperature s") (auto split: option.splits dest!: Cons.IH)
  next
    case (Humidity v)
    then show ?thesis
      using Cons by (cases "m_relative_humidity s") (auto split: option.splits dest!: Cons.IH)
  qed
qed (auto split: option.split)

lemma v1_fold_none:
  assumes "distinct (map kind ms)"
  shows "v1_fold metrics_none ms = Inr (metrics_of ms)"
proof -
  have free: "slot_free metrics_none k" for k
    by (cases k) (simp_all add: metrics_none_def)
  then obtain s' where s': "v1_fold metrics_none ms = Inr s'"
    using assms v1_fold_ok_iff [of metrics_none ms] by blast
  then have "s' = metrics_of ms"
    using v1_fold_value [OF s'] by (simp add: metrics_of_def metrics_none_def)
  with s' show ?thesis by simp
qed

lemma v1_decode_image [codec_simps]:
  "ms \<noteq> [] \<Longrightarrow> distinct (map kind ms) \<Longrightarrow> v1_decode (body_image ms) = Inr (metrics_of ms)"
  by (simp add: v1_decode_def v1_loop_image v1_fold_none)

lemma v1_decode_Inr_iff:
  "v1_decode body = Inr mt \<longleftrightarrow>
     (\<exists>ms. ms \<noteq> [] \<and> distinct (map kind ms) \<and> body = body_image ms \<and> mt = metrics_of ms)"
proof
  assume a: "v1_decode body = Inr mt"
  then obtain h where "v1_loop metrics_none False body = Inr (mt, h)" and h: "h"
    by (auto simp: v1_decode_def split: sum.splits if_splits)
  then obtain ms where ms: "body = body_image ms" "v1_fold metrics_none ms = Inr mt"
    using v1_loop_Inr by blast
  then have d: "distinct (map kind ms)"
    using v1_fold_ok_iff [of metrics_none ms] by blast
  moreover have "ms \<noteq> []"
    using a ms by (auto simp: v1_decode_def v1_loop_image)
  ultimately show "\<exists>ms. ms \<noteq> [] \<and> distinct (map kind ms) \<and> body = body_image ms \<and> mt = metrics_of ms"
    using ms v1_fold_none [OF d] by auto
qed (auto simp: v1_decode_image)

lemma distinct_kinds_length: "distinct (map kind ms) \<Longrightarrow> length ms \<le> 3"
proof -
  assume "distinct (map kind ms)"
  then have "length ms = card (set (map kind ms))"
    by (metis distinct_card length_map)
  also have "\<dots> \<le> card {BatteryId, TemperatureId, HumidityId}"
    using measurement_id.exhaust by (intro card_mono) auto
  finally show ?thesis by simp
qed

section \<open>Sealing and opening\<close>

text \<open>The bytes of a packet, when the cipher yields a text and a tag for its body.\<close>

definition packet_bytes :: "byte \<Rightarrow> u32 \<Rightarrow> bytes \<Rightarrow> bytes \<Rightarrow> bytes" where
  "packet_bytes v seq ct tag = v # u32_to_le seq @ ct @ tag"

definition sealed_body :: "aead \<Rightarrow> packet_cipher \<Rightarrow> u32 \<Rightarrow> bytes \<Rightarrow> (bytes \<times> bytes) option" where
  "sealed_body A c seq pt =
     seal_detached A (key_bytes (cipher_key c)) (nonce seq) (associated_data c seq V1_VERSION) pt"

lemma sealed_body_lengths:
  assumes "aead_ok A" "sealed_body A c seq pt = Some (ct, tag)"
  shows "length ct = length pt" "length tag = 16"
  using aead_seal_open(2,3) [OF assms(1)] assms(2)
  unfolding sealed_body_def AEAD_TAG_SIZE_def by blast+

lemma out_cases:
  fixes out :: bytes
  assumes "5 \<le> length out"
  obtains o0 o4 body where "out = o0 # o4 @ body" "length o4 = 4"
proof
  show "out = hd out # take 4 (tl out) @ drop 4 (tl out)"
    using assms by (cases out) auto
qed (use assms in simp)

lemma packet_encode_split:
  "length o4 = 4 \<Longrightarrow> packet_encode A seq ms (o0 # o4 @ body_buf) c =
     (case encode_measurements ms 0 body_buf of
        (Inl e, b') \<Rightarrow> (Inl (OutputBufferTooSmall e), [V1_VERSION] @ u32_to_le seq @ b')
      | (Inr written, b') \<Rightarrow>
         (case split_chunk written b' of
            None \<Rightarrow> (Inl (OutputBufferTooSmall BufferTooSmall), [V1_VERSION] @ u32_to_le seq @ b')
          | Some (data_buf, rest') \<Rightarrow>
             (case split_chunk AEAD_TAG_SIZE rest' of
                None \<Rightarrow> (Inl (OutputBufferTooSmall BufferTooSmall), [V1_VERSION] @ u32_to_le seq @ b')
              | Some (tag_buf, rest'') \<Rightarrow>
                 (case encrypt_in_place A c V1_VERSION seq data_buf tag_buf of
                    (Inl e, data', tag') \<Rightarrow>
                      (Inl (Encryption e), [V1_VERSION] @ u32_to_le seq @ data' @ tag' @ rest'')
                  | (Inr _, data', tag') \<Rightarrow>
                      (Inr (PACKET_OVERHEAD_SIZE + written + AEAD_TAG_SIZE),
                       [V1_VERSION] @ u32_to_le seq @ data' @ tag' @ rest'')))))"
  by (simp add: packet_encode_def Let_def VER_SIZE_def SEQ_SIZE_def split_chunk_append
      split_chunk_def [of "Suc 0"])

lemma packet_encode_fits:
  assumes "aead_ok A" "21 + 3 * length ms \<le> length out"
    and "sealed_body A c seq (body_image ms) = Some (ct, tag)"
  shows "packet_encode A seq ms out c
     = (Inr (21 + 3 * length ms), put_at 0 (packet_bytes V1_VERSION seq ct tag) out)"
proof -
  obtain o0 o4 body where out: "out = o0 # o4 @ body" "length o4 = 4"
    using assms out_cases [of out] by auto
  have lct: "length ct = 3 * length ms" "length tag = 16"
    using sealed_body_lengths [OF assms(1,3)] by simp_all
  have fits: "3 * length ms + 16 \<le> length body"
    using assms out by simp
  let ?b = "put_at 0 (body_image ms) body"
  have b: "?b = body_image ms @ drop (3 * length ms) body" by (simp add: put_at_def)
  have "encode_measurements ms 0 body = (Inr (3 * length ms), ?b)"
    using fits by (simp add: encode_measurements_fits)
  moreover have "split_chunk (3 * length ms) ?b = Some (body_image ms, drop (3 * length ms) body)"
    unfolding b by (rule split_chunk_append) simp
  moreover have "split_chunk AEAD_TAG_SIZE (drop (3 * length ms) body)
      = Some (take 16 (drop (3 * length ms) body), drop (16 + 3 * length ms) body)"
    using fits by (simp add: split_chunk_def AEAD_TAG_SIZE_def)
  moreover have "drop (3 * length ms + 21) out = drop (3 * length ms + 16) body"
  proof -
    have "3 * length ms + 21 = Suc (length o4 + (3 * length ms + 16))"
      using out by simp
    then show ?thesis unfolding out(1) by (simp only: drop_Suc_Cons) (simp add: add.commute)
  qed
  ultimately show ?thesis
    using assms(3) lct unfolding out(1)
    by (simp add: out(2) packet_encode_split encrypt_in_place_def sealed_body_def
        put_at_def packet_bytes_def packet_consts add.commute)
qed

lemma packet_encode_short:
  assumes "length out < 21 + 3 * length ms"
  shows "fst (packet_encode A seq ms out c) = Inl (OutputBufferTooSmall BufferTooSmall)"
proof (cases "5 \<le> length out")
  case True
  then obtain o0 o4 body where out: "out = o0 # o4 @ body" "length o4 = 4"
    using out_cases by blast
  show ?thesis
  proof (cases "length body < 3 * length ms")
    case True
    then have "fst (encode_measurements ms 0 body) = Inl BufferTooSmall"
      by (simp add: encode_measurements_short)
    then show ?thesis
      using out by (cases "encode_measurements ms 0 body") (simp add: packet_encode_split)
  next
    case False
    then show ?thesis
      using assms out
      by (auto simp: packet_encode_split encode_measurements_fits split_chunk_def put_at_length
          AEAD_TAG_SIZE_def)
  qed
qed (auto simp: packet_encode_def Let_def split_chunk_def VER_SIZE_def SEQ_SIZE_def)

lemma packet_decode_sealed:
  assumes "aead_ok A" "sealed_body A c seq (body_image ms) = Some (ct, tag)"
    and "ms \<noteq> []" "distinct (map kind ms)"
  shows "packet_decode A c \<lparr>pkt_ver = V1_VERSION, pkt_seq = seq, pkt_body = ct @ tag\<rparr>
     = Inr (metrics_of ms)"
proof -
  have lct: "length ct = 3 * length ms" "length tag = 16"
    using sealed_body_lengths [OF assms(1,2)] by simp_all
  have "open_detached A (key_bytes (cipher_key c)) (nonce seq) (associated_data c seq V1_VERSION) ct tag
      = Some (body_image ms)"
    using aead_seal_open(1) [OF assms(1)] assms(2) by (simp add: sealed_body_def)
  moreover have "length ms \<le> 3"
    using assms(4) by (rule distinct_kinds_length)
  ultimately show ?thesis
    using lct assms(3,4)
    by (simp add: packet_decode_def decrypt_in_place_def packet_consts Let_def v1_decode_image)
qed

lemma packet_decode_Inr:
  assumes "aead_ok A" "packet_decode A c p = Inr mt"
  shows "\<exists>ms ct tag. ms \<noteq> [] \<and> distinct (map kind ms) \<and> mt = metrics_of ms
     \<and> sealed_body A c (pkt_seq p) (body_image ms) = Some (ct, tag)
     \<and> p = \<lparr>pkt_ver = V1_VERSION, pkt_seq = pkt_seq p, pkt_body = ct @ tag\<rparr>"
proof -
  obtain pt where v: "pkt_ver p = V1_VERSION"
    and d: "decrypt_in_place A c V1_VERSION (pkt_seq p) (pkt_body p) = Inr pt" "v1_decode pt = Inr mt"
    using assms(2) by (auto simp: packet_decode_def split: if_splits sum.splits)
  obtain ms where ms: "ms \<noteq> []" "distinct (map kind ms)" "pt = body_image ms" "mt = metrics_of ms"
    using d(2) by (auto simp: v1_decode_Inr_iff)
  let ?n = "length (pkt_body p) - AEAD_TAG_SIZE"
  have "sealed_body A c (pkt_seq p) (body_image ms) = Some (take ?n (pkt_body p), drop ?n (pkt_body p))"
    using d(1) ms(3) aead_seal_open(4) [OF assms(1)]
    by (auto simp: decrypt_in_place_def sealed_body_def Let_def split: if_splits option.splits)
  moreover have "p = \<lparr>pkt_ver = V1_VERSION, pkt_seq = pkt_seq p, pkt_body = take ?n (pkt_body p) @ drop ?n (pkt_body p)\<rparr>"
    using v by simp
  ultimately show ?thesis
    using ms by blast
qed

section \<open>Properties\<close>

text \<open>A cipher for the witnesses: it leaves the text in the clear.\<close>

definition clear_aead :: aead where
  "clear_aead = \<lparr>seal_detached = \<lambda>k n a pt. Some (pt, replicate 16 0),
                 open_detached = \<lambda>k n a ct tag. if tag = replicate 16 0 then Some ct else None\<rparr>"

lemma clear_aead_ok: "aead_ok clear_aead"
  by (simp add: aead_ok_def clear_aead_def AEAD_TAG_SIZE_def)

text \<open>C9: A packet that \<open>SensorPacket::encode_air\<close> writes from at least one measurement, no two of
  one kind, has its announced length, fits an air packet, and after \<open>strip_air_magic\<close>, \<open>parse\<close> and
  \<open>decode\<close> under the same cipher gives the sequence number and the measurements back.\<close>

theorem air_packet_round_trip:
  assumes "aead_ok A" "ms \<noteq> []" "distinct (map kind ms)" "23 + 3 * length ms \<le> length out"
  shows "\<exists>n out' bs p. packet_encode_air A seq ms out c = (Inr n, out')
     \<and> n = 23 + 3 * length ms \<and> n \<le> MAX_AIR_LEN \<and> length out' = length out
     \<and> strip_air_magic (take n out') = Inr bs \<and> packet_parse bs = Inr p
     \<and> pkt_seq p = seq \<and> packet_decode A c p = Inr (metrics_of ms)"
proof -
  have l3: "length ms \<le> 3" using assms(3) by (rule distinct_kinds_length)
  obtain ct tag where s: "sealed_body A c seq (body_image ms) = Some (ct, tag)"
    using aead_seal_small [OF assms(1), of "body_image ms"] l3 unfolding sealed_body_def by fastforce
  note l = sealed_body_lengths [OF assms(1) s]
  let ?bs = "packet_bytes V1_VERSION seq ct tag"
  have len: "length ?bs = 21 + 3 * length ms" using l by (simp add: packet_bytes_def)
  have fits: "21 + 3 * length ms \<le> length (drop 2 out)" using assms(4) by simp
  have air: "AIR_MAGIC_SIZE = 2" by (simp add: AIR_MAGIC_SIZE_def AIR_MAGIC_def)
  have sc: "split_chunk AIR_MAGIC_SIZE out = Some (take 2 out, drop 2 out)"
    using assms(4) unfolding air by (simp add: split_chunk_def)
  have e: "packet_encode_air A seq ms out c = (Inr (23 + 3 * length ms), AIR_MAGIC @ put_at 0 ?bs (drop 2 out))"
    unfolding packet_encode_air_def air sc [unfolded air] option.case prod.case packet_encode_fits [OF assms(1) fits s] by simp
  have t: "take (23 + 3 * length ms) (AIR_MAGIC @ put_at 0 ?bs (drop 2 out)) = AIR_MAGIC @ ?bs"
  proof -
    have "AIR_MAGIC @ put_at 0 ?bs (drop 2 out) = (AIR_MAGIC @ ?bs) @ drop (length ?bs) (drop 2 out)"
      by (simp add: put_at_def)
    moreover have "23 + 3 * length ms = length (AIR_MAGIC @ ?bs)"
      using len by (simp add: AIR_MAGIC_def)
    ultimately show ?thesis by (metis append_eq_conv_conj)
  qed
  have p: "packet_parse ?bs = Inr \<lparr>pkt_ver = V1_VERSION, pkt_seq = seq, pkt_body = ct @ tag\<rparr>"
    by (simp add: packet_parse_Inr_iff packet_bytes_def)
  have len': "length (AIR_MAGIC @ put_at 0 ?bs (drop 2 out)) = length out"
    using len assms(4) by (simp add: AIR_MAGIC_def put_at_def)
  show ?thesis
    using e t p len' l3 packet_decode_sealed [OF assms(1) s assms(2,3)]
    by (simp add: strip_air_magic_Inr_iff packet_consts)
qed

theorem air_packet_round_trip_witness:
  "\<exists>n out' bs p. packet_encode_air clear_aead 5 [battery 3000, humidity 4500] (replicate 34 0)
        (cipher_new (DeviceKey (replicate 32 1)) (DeviceAddr 1 2 3 4 5 6)) = (Inr n, out')
     \<and> n = 29 \<and> n \<le> MAX_AIR_LEN \<and> length out' = 34
     \<and> strip_air_magic (take n out') = Inr bs \<and> packet_parse bs = Inr p \<and> pkt_seq p = 5
     \<and> packet_decode clear_aead (cipher_new (DeviceKey (replicate 32 1)) (DeviceAddr 1 2 3 4 5 6)) p
         = Inr \<lparr>m_battery = Some (Millivolts 3000), m_temperature = None,
                m_relative_humidity = Some (CentiPercent 4500)\<rparr>"
  using air_packet_round_trip [OF clear_aead_ok, of "[battery 3000, humidity 4500]" "replicate 34 0"
      5 "cipher_new (DeviceKey (replicate 32 1)) (DeviceAddr 1 2 3 4 5 6)"]
  by (simp add: battery_def humidity_def metrics_of_def)

text \<open>C8: \<open>SensorPacket::decode\<close> accepts nothing but what a sensor with the same key and address
  sealed: an accepted packet is of version 1 and its body is the seal, under the nonce of its own
  sequence number and the data that binds address, version and sequence number, of the encoding of
  a nonempty list of measurements without repeated kinds, the one it returns.\<close>

theorem packet_decode_authentic:
  assumes "aead_ok A"
  shows "packet_decode A c p = Inr mt \<longleftrightarrow>
     (\<exists>ms ct tag. ms \<noteq> [] \<and> distinct (map kind ms) \<and> mt = metrics_of ms
        \<and> seal_detached A (key_bytes (cipher_key c)) (u32_to_le (pkt_seq p) @ replicate 8 0)
            (addr_bytes (cipher_addr c) @ [1] @ u32_to_le (pkt_seq p)) (concat (map measurement_image ms)) = Some (ct, tag)
        \<and> pkt_ver p = 1 \<and> pkt_body p = ct @ tag)" (is "?l \<longleftrightarrow> ?r")
proof
  assume ?l
  then obtain ms ct tag where m: "ms \<noteq> []" "distinct (map kind ms)" "mt = metrics_of ms"
    and s: "sealed_body A c (pkt_seq p) (body_image ms) = Some (ct, tag)"
    and p: "p = \<lparr>pkt_ver = V1_VERSION, pkt_seq = pkt_seq p, pkt_body = ct @ tag\<rparr>"
    using packet_decode_Inr [OF assms] by blast
  have "pkt_ver p = 1" "pkt_body p = ct @ tag"
    using arg_cong [OF p, of pkt_ver] arg_cong [OF p, of pkt_body] by (simp_all add: V1_VERSION_def)
  then show ?r
    using m s unfolding sealed_body_def nonce_eq associated_data_def V1_VERSION_def body_image_def by blast
next
  assume ?r
  then obtain ms ct tag where m: "ms \<noteq> []" "distinct (map kind ms)" "mt = metrics_of ms"
    and s: "sealed_body A c (pkt_seq p) (body_image ms) = Some (ct, tag)"
    and p: "pkt_ver p = 1" "pkt_body p = ct @ tag"
    unfolding sealed_body_def nonce_eq associated_data_def V1_VERSION_def body_image_def by blast
  have "p = \<lparr>pkt_ver = V1_VERSION, pkt_seq = pkt_seq p, pkt_body = ct @ tag\<rparr>"
    using p by (simp add: V1_VERSION_def)
  then show ?l using packet_decode_sealed [OF assms s m(1,2)] m(3) by simp
qed

theorem packet_decode_authentic_witness:
  "packet_decode clear_aead (cipher_new (DeviceKey (replicate 32 1)) (DeviceAddr 1 2 3 4 5 6))
     \<lparr>pkt_ver = 1, pkt_seq = 5, pkt_body = [1, 0xB8, 0x0B] @ replicate 16 0\<rparr>
   = Inr \<lparr>m_battery = Some (Millivolts 3000), m_temperature = None, m_relative_humidity = None\<rparr>"
proof -
  have i: "u16_to_le 3000 = [0xB8, 0x0B]" by code_simp
  show ?thesis
    by (rule packet_decode_authentic [OF clear_aead_ok, THEN iffD2], rule exI [of _ "[battery 3000]"])
       (simp add: battery_def metrics_of_def clear_aead_def i)
qed

text \<open>The version 1 decoder accepts a body exactly when it is the concatenation of the encodings
  of a nonempty list of measurements, no two of one kind, and then fills exactly their slots: an
  empty body, an unknown id, a cut value or a repeated kind is refused.\<close>

theorem v1_body_exact:
  "v1_decode body = Inr mt \<longleftrightarrow>
     (\<exists>ms. ms \<noteq> [] \<and> distinct (map kind ms) \<and> body = concat (map measurement_image ms) \<and> mt = metrics_of ms)"
  by (simp add: v1_decode_Inr_iff body_image_def)

end
