(* ===== verification/Observation.thy ===== *)
theory Observation
  imports Packet_Facts Frame
begin

text \<open>\<open>src/common/src/observation.rs\<close>, \<open>observation_envelope.rs\<close> and \<open>reading.rs\<close>: what the
  receiver sends to the gateway, what the gateway publishes, and what the API makes of it. A time
  is a number of nanoseconds.\<close>

record sensor_observation =
  obs_addr :: device_addr
  obs_age_ms :: u32
  obs_rssi :: dbm
  obs_packet :: bytes

definition HEADER_LEN :: nat where "HEADER_LEN = DEVICE_ADDR_SIZE + 4 + 1"
definition OBSERVATION_MAX_ENCODED_LEN :: nat where
  "OBSERVATION_MAX_ENCODED_LEN = HEADER_LEN + MAX_WIRE_LEN"

definition observation_parse :: "bytes \<Rightarrow> truncated + sensor_observation" where
  "observation_parse bs =
     (case split_chunk DEVICE_ADDR_SIZE bs of
        None \<Rightarrow> Inl Truncated
      | Some (addr, rest) \<Rightarrow>
         (case split_chunk 4 rest of
            None \<Rightarrow> Inl Truncated
          | Some (age_ms, rest') \<Rightarrow>
             (case split_chunk 1 rest' of
                None \<Rightarrow> Inl Truncated
              | Some (rssi_bytes, pkt) \<Rightarrow>
                 (case dbm_decode rssi_bytes of
                    Inl e \<Rightarrow> Inl e
                  | Inr rssi \<Rightarrow>
                     (case addr of
                        [a0, a1, a2, a3, a4, a5] \<Rightarrow>
                          Inr \<lparr>obs_addr = DeviceAddr a0 a1 a2 a3 a4 a5, obs_age_ms = u32_from_le age_ms,
                               obs_rssi = rssi, obs_packet = pkt\<rparr>)))))"

definition observation_encode :: "sensor_observation \<Rightarrow> bytes \<Rightarrow> (buffer_too_small + nat) \<times> bytes" where
  "observation_encode ob out =
     (let addr = addr_bytes (obs_addr ob); age = u32_to_le (obs_age_ms ob) in
      case split_chunk DEVICE_ADDR_SIZE out of
        None \<Rightarrow> (Inl BufferTooSmall, out)
      | Some (_, rest) \<Rightarrow>
         (case split_chunk 4 rest of
            None \<Rightarrow> (Inl BufferTooSmall, addr @ rest)
          | Some (_, rest') \<Rightarrow>
             (case split_chunk 1 rest' of
                None \<Rightarrow> (Inl BufferTooSmall, addr @ age @ rest')
              | Some (rssi_buf, rest'') \<Rightarrow>
                 (case dbm_encode (obs_rssi ob) rssi_buf of
                    (Inl e, rssi') \<Rightarrow> (Inl e, addr @ age @ rssi' @ rest'')
                  | (Inr _, rssi') \<Rightarrow>
                     (case split_chunk (length (obs_packet ob)) rest'' of
                        None \<Rightarrow> (Inl BufferTooSmall, addr @ age @ rssi' @ rest'')
                      | Some (_, tail) \<Rightarrow>
                          (Inr (HEADER_LEN + length (obs_packet ob)),
                           addr @ age @ rssi' @ obs_packet ob @ tail))))))"

section \<open>The envelope and the reading\<close>

record observation_envelope =
  env_addr :: device_addr
  env_rssi :: dbm
  env_received_at :: int
  env_packet :: bytes

definition from_observation :: "sensor_observation \<Rightarrow> int \<Rightarrow> observation_envelope" where
  "from_observation ob now =
     \<lparr>env_addr = obs_addr ob, env_rssi = obs_rssi ob,
      env_received_at = now - uint (obs_age_ms ob) * 1000000, env_packet = obs_packet ob\<rparr>"

record sensor_reading =
  rd_addr :: device_addr
  rd_seq :: u32
  rd_rssi :: dbm
  rd_received_at :: int
  rd_battery :: "millivolts option"
  rd_temperature :: "centi_celsius option"
  rd_relative_humidity :: "centi_percent option"

definition open_envelope ::
  "aead \<Rightarrow> observation_envelope \<Rightarrow> packet_cipher \<Rightarrow> packet_decode_error + sensor_reading" where
  "open_envelope A value c =
     (case packet_parse (env_packet value) of
        Inl e \<Rightarrow> Inl (DecodeHeader e)
      | Inr p \<Rightarrow>
         (case packet_decode A c p of
            Inl e \<Rightarrow> Inl e
          | Inr mt \<Rightarrow>
              Inr \<lparr>rd_addr = env_addr value, rd_seq = pkt_seq p, rd_rssi = env_rssi value,
                   rd_received_at = env_received_at value, rd_battery = m_battery mt,
                   rd_temperature = m_temperature mt,
                   rd_relative_humidity = m_relative_humidity mt\<rparr>))"

section \<open>Laws of the codec\<close>

definition observation_image :: "sensor_observation \<Rightarrow> bytes" where
  "observation_image ob =
     addr_bytes (obs_addr ob) @ u32_to_le (obs_age_ms ob) @ dbm_image (obs_rssi ob) @ obs_packet ob"

lemma HEADER_LEN_eq [simp]: "HEADER_LEN = 11"
  by (simp add: HEADER_LEN_def DEVICE_ADDR_SIZE_def)

lemma observation_image_length [simp]:
  "length (observation_image ob) = 11 + length (obs_packet ob)"
  by (simp add: observation_image_def)

lemma buffer_11:
  fixes out :: bytes
  assumes "11 \<le> length out"
  obtains a t r rest where "out = a @ t @ r @ rest" "length a = 6" "length t = 4" "length r = 1"
proof
  have "out = take 6 out @ take 4 (drop 6 out) @ drop 4 (drop 6 out)"
    by (simp only: append_take_drop_id)
  moreover have "drop 4 (drop 6 out) = take 1 (drop 4 (drop 6 out)) @ drop 1 (drop 4 (drop 6 out))"
    by (simp only: append_take_drop_id)
  ultimately show "out = take 6 out @ take 4 (drop 6 out) @ take 1 (drop 4 (drop 6 out))
      @ drop 1 (drop 4 (drop 6 out))" by metis
qed (use assms in simp_all)

lemma observation_encode_split:
  assumes "length a = 6" "length t = 4" "length r = 1"
  shows "observation_encode ob (a @ t @ r @ rest) =
     (if length (obs_packet ob) \<le> length rest
      then (Inr (11 + length (obs_packet ob)), observation_image ob @ drop (length (obs_packet ob)) rest)
      else (Inl BufferTooSmall, addr_bytes (obs_addr ob) @ u32_to_le (obs_age_ms ob) @ dbm_image (obs_rssi ob) @ rest))"
  using assms
  by (simp add: observation_encode_def Let_def DEVICE_ADDR_SIZE_def split_chunk_append
      split_chunk_append [of r "Suc 0"] dbm.encode_fits put_at_def observation_image_def)
     (simp add: split_chunk_def)

lemma observation_encode_fits:
  assumes "length (observation_image ob) \<le> length out"
  shows "observation_encode ob out
     = (Inr (length (observation_image ob)), put_at 0 (observation_image ob) out)"
proof -
  have "11 \<le> length out" using assms by simp
  then obtain a t r rest where out: "out = a @ t @ r @ rest" "length a = 6" "length t = 4" "length r = 1"
    by (rule buffer_11)
  then show ?thesis
    using assms by (simp add: observation_encode_split put_at_def)
qed

lemma observation_encode_short:
  assumes "length out < length (observation_image ob)"
  shows "fst (observation_encode ob out) = Inl BufferTooSmall"
proof (cases "11 \<le> length out")
  case True
  then obtain a t r rest where "out = a @ t @ r @ rest" "length a = 6" "length t = 4" "length r = 1"
    by (rule buffer_11)
  then show ?thesis
    using assms by (simp add: observation_encode_split)
qed (auto simp: observation_encode_def Let_def DEVICE_ADDR_SIZE_def split_chunk_def)

lemma observation_encode_length: "length (snd (observation_encode ob out)) = length out"
proof (cases "11 \<le> length out")
  case True
  then obtain a t r rest where "out = a @ t @ r @ rest" "length a = 6" "length t = 4" "length r = 1"
    by (rule buffer_11)
  then show ?thesis
    by (simp add: observation_encode_split)
qed (auto simp: observation_encode_def Let_def DEVICE_ADDR_SIZE_def split_chunk_def)

definition observation_ok :: "sensor_observation \<Rightarrow> bool" where
  "observation_ok ob = (length (obs_packet ob) \<le> MAX_WIRE_LEN)"

interpretation observation: encoder OBSERVATION_MAX_ENCODED_LEN observation_encode observation_image observation_ok
  by unfold_locales
     (simp_all add: observation_encode_fits observation_encode_short observation_encode_length
        OBSERVATION_MAX_ENCODED_LEN_def observation_ok_def)

text \<open>The assertion \<open>SensorObservation::MAX_ENCODED_LEN <= frame::MAX_PAYLOAD_LEN\<close>.\<close>

lemma observation_fits_frame: "OBSERVATION_MAX_ENCODED_LEN \<le> MAX_PAYLOAD_LEN"
  by (simp add: OBSERVATION_MAX_ENCODED_LEN_def MAX_WIRE_LEN_def MAX_PAYLOAD_LEN_def)

lemma six_addr: "length a = 6 \<Longrightarrow> \<exists>d. a = addr_bytes d"
proof -
  assume "length a = 6"
  then obtain a0 a1 a2 a3 a4 a5 where "a = [a0, a1, a2, a3, a4, a5]"
    by (auto simp: length_Suc_conv numeral_eq_Suc)
  then have "a = addr_bytes (DeviceAddr a0 a1 a2 a3 a4 a5)" by simp
  then show ?thesis ..
qed

lemma observation_parse_image [codec_simps]: "observation_parse (observation_image ob) = Inr ob"
proof -
  have d: "dbm_decode (dbm_image (obs_rssi ob)) = Inr (obs_rssi ob)"
    using dbm.decode_img [of "obs_rssi ob" "[]"] by simp
  have s: "split_chunk (Suc 0) (dbm_image (obs_rssi ob) @ obs_packet ob)
      = Some (dbm_image (obs_rssi ob), obs_packet ob)"
    by (rule split_chunk_append) simp
  show ?thesis
    by (cases "obs_addr ob")
       (simp add: observation_parse_def observation_image_def DEVICE_ADDR_SIZE_def split_chunk_append d s
          split_chunk_append [of "[_, _, _, _, _, _]", simplified])
qed

lemma observation_image_total: "11 \<le> length bs \<Longrightarrow> \<exists>ob. bs = observation_image ob"
proof -
  assume "11 \<le> length bs"
  then obtain a t r rest where bs: "bs = a @ t @ r @ rest" "length a = 6" "length t = 4" "length r = 1"
    by (rule buffer_11)
  obtain d where d: "a = addr_bytes d" using six_addr bs by blast
  have r: "dbm_image (Dbm (i8_from_le r)) = r"
    using bs by (simp add: i8_to_from_le)
  have t: "u32_to_le (u32_from_le t) = t"
    using bs by (simp add: u32_to_from_le)
  have "bs = observation_image \<lparr>obs_addr = d, obs_age_ms = u32_from_le t,
      obs_rssi = Dbm (i8_from_le r), obs_packet = rest\<rparr>"
    unfolding observation_image_def sensor_observation.select_convs r t by (simp add: bs d)
  then show ?thesis ..
qed

lemma observation_parse_short: "length bs < 11 \<Longrightarrow> observation_parse bs = Inl Truncated"
  by (auto simp: observation_parse_def DEVICE_ADDR_SIZE_def split_chunk_def)

lemma observation_parse_Inr_iff: "observation_parse bs = Inr ob \<longleftrightarrow> bs = observation_image ob"
proof
  assume p: "observation_parse bs = Inr ob"
  then have "11 \<le> length bs"
    using observation_parse_short [of bs] by (cases "length bs < 11") auto
  then show "bs = observation_image ob"
    using observation_image_total [of bs] p by (auto simp: observation_parse_image)
qed (simp add: observation_parse_image)

lemma open_envelope_Inr_iff:
  "open_envelope A e c = Inr rd \<longleftrightarrow>
     (\<exists>p mt. packet_parse (env_packet e) = Inr p \<and> packet_decode A c p = Inr mt
        \<and> rd = \<lparr>rd_addr = env_addr e, rd_seq = pkt_seq p, rd_rssi = env_rssi e,
                 rd_received_at = env_received_at e, rd_battery = m_battery mt,
                 rd_temperature = m_temperature mt, rd_relative_humidity = m_relative_humidity mt\<rparr>)"
  by (auto simp: open_envelope_def split: sum.splits)

section \<open>Properties\<close>

text \<open>An observation that fits the link, written by \<open>Frame::encode\<close> into a buffer with room for
  it, is read back: the frame parser finds exactly the bytes written, whatever follows them, and
  \<open>SensorObservation::parse\<close> of its payload gives the observation. A shorter buffer is refused.\<close>

theorem observation_frame_round_trip:
  assumes "observation_ok ob"
  shows "if OVERHEAD + HEADER_LEN + length (obs_packet ob) \<le> length out
     then \<exists>n out' p. frame_encode crc observation_encode out ob = (Inr n, out')
            \<and> n = OVERHEAD + HEADER_LEN + length (obs_packet ob) \<and> length out' = length out
            \<and> frame_parse crc (take n out' @ rest) = FrameOk p n \<and> observation_parse p = Inr ob
     else fst (frame_encode crc observation_encode out ob) = Inl BufferTooSmall"
proof -
  have len: "length (observation_image ob) = HEADER_LEN + length (obs_packet ob)" by simp
  show ?thesis
  proof (cases "OVERHEAD + HEADER_LEN + length (obs_packet ob) \<le> length out")
    case True
    then have fits: "OVERHEAD + length (observation_image ob) \<le> length out" using len by simp
    have small: "length (observation_image ob) \<le> MAX_PAYLOAD_LEN"
      using observation.img_max [OF assms] observation_fits_frame by simp
    have "take (OVERHEAD + length (observation_image ob)) (put_at 0 (frame_bytes crc (observation_image ob)) out)
        = frame_bytes crc (observation_image ob)"
      using take_put_at_0 [of "frame_bytes crc (observation_image ob)" out] by simp
    then show ?thesis
      using True fits observation.frame_encode_fits [OF assms observation_fits_frame fits, of crc]
        frame_parse_frame_bytes [OF small, of crc rest]
      by (simp add: observation_parse_image put_at_length)
  next
    case False
    then show ?thesis
      using observation.frame_encode_short [OF assms, of out crc] len by simp
  qed
qed

definition sample_observation :: sensor_observation where
  "sample_observation = \<lparr>obs_addr = DeviceAddr 1 2 3 4 5 6, obs_age_ms = 7, obs_rssi = Dbm 0xC4, obs_packet = [1, 0, 0, 0, 0]\<rparr>"

theorem observation_frame_round_trip_witness:
  "\<exists>n out' p. frame_encode (\<lambda>_. 0) observation_encode (replicate 40 0) sample_observation = (Inr n, out')
     \<and> n = 22 \<and> length out' = 40
     \<and> frame_parse (\<lambda>_. 0) (take n out' @ [9]) = FrameOk p n \<and> observation_parse p = Inr sample_observation"
  using observation_frame_round_trip [of sample_observation "replicate 40 0" "\<lambda>_. 0" "[9]"]
  by (simp add: observation_ok_def sample_observation_def MAX_WIRE_LEN_def frame_consts)

end
