(* ===== verification/Text_Util.thy ===== *)
theory Text_Util
  imports Hex
begin

text \<open>What the host-side code uses of Rust's \<open>str\<close>: splitting, lines, trimming and decimal
  parsing. A string is the list of its UTF-8 bytes.\<close>

text \<open>\<open>str::split(c)\<close> and \<open>str::split_once(c)\<close>.\<close>

fun split_on :: "char \<Rightarrow> string \<Rightarrow> string list" where
  "split_on c [] = [[]]"
| "split_on c (x # xs) =
     (if x = c then [] # split_on c xs
      else case split_on c xs of p # ps \<Rightarrow> (x # p) # ps | [] \<Rightarrow> [[x]])"

fun split_once :: "char \<Rightarrow> string \<Rightarrow> (string \<times> string) option" where
  "split_once c [] = None"
| "split_once c (x # xs) =
     (if x = c then Some ([], xs) else map_option (\<lambda>(a, b). (x # a, b)) (split_once c xs))"

text \<open>\<open>str::lines\<close>: a line ends with \<open>\n\<close> or \<open>\r\n\<close>; the last one may be unterminated.\<close>

definition strip_cr :: "string \<Rightarrow> string" where
  "strip_cr l = (if l \<noteq> [] \<and> last l = CHR 0x0D then butlast l else l)"

fun str_lines :: "string \<Rightarrow> string list" where
  "str_lines s =
     (case split_once CHR 0x0A s of
        None \<Rightarrow> if s = [] then [] else [s]
      | Some (l, rest) \<Rightarrow> strip_cr l # (if length rest < length s then str_lines rest else []))"

declare str_lines.simps [simp del]

text \<open>The UTF-8 encodings of the \<open>White_Space\<close> characters, which \<open>str::trim\<close> removes.\<close>

definition white_space :: "string list" where
  "white_space =
     map (\<lambda>n. [char_of (n :: nat)]) [9, 10, 11, 12, 13, 32]
     @ [[CHR 0xC2, CHR 0x85], [CHR 0xC2, CHR 0xA0], [CHR 0xE1, CHR 0x9A, CHR 0x80]]
     @ map (\<lambda>n. [CHR 0xE2, CHR 0x80, char_of (n :: nat)]) [128, 129, 130, 131, 132, 133, 134, 135, 136, 137, 138, 168, 169, 175]
     @ [[CHR 0xE2, CHR 0x81, CHR 0x9F], [CHR 0xE3, CHR 0x80, CHR 0x80]]"

definition starts_with :: "string \<Rightarrow> string \<Rightarrow> bool" where
  "starts_with p s = (take (length p) s = p)"

definition strip_prefix :: "string \<Rightarrow> string \<Rightarrow> string option" where
  "strip_prefix p s = (if starts_with p s then Some (drop (length p) s) else None)"

function trim_front :: "string list \<Rightarrow> string \<Rightarrow> string" where
  "trim_front ws s =
     (case List.find (\<lambda>w. w \<noteq> [] \<and> starts_with w s) ws of
        None \<Rightarrow> s
      | Some w \<Rightarrow> trim_front ws (drop (length w) s))"
  by pat_completeness auto
termination
proof (relation "measure (length \<circ> snd)")
  fix ws s w
  assume "List.find (\<lambda>w. w \<noteq> [] \<and> starts_with w s) ws = Some w"
  then have w: "w \<noteq> []" "take (length w) s = w"
    by (auto simp: find_Some_iff starts_with_def)
  then have "s \<noteq> []" by auto
  with w(1) show "((ws, drop (length w) s), ws, s) \<in> measure (length \<circ> snd)" by simp
qed simp

declare trim_front.simps [simp del]

definition trim_start :: "string \<Rightarrow> string" where "trim_start s = trim_front white_space s"
definition trim_end :: "string \<Rightarrow> string" where
  "trim_end s = rev (trim_front (map rev white_space) (rev s))"
definition trim :: "string \<Rightarrow> string" where "trim s = trim_end (trim_start s)"

text \<open>\<open>str::parse\<close> for unsigned integers below \<open>limit\<close>.\<close>

definition dec_digit :: "char \<Rightarrow> nat option" where
  "dec_digit c = (let n = of_char c :: nat in if 48 \<le> n \<and> n \<le> 57 then Some (n - 48) else None)"

fun dec_digits :: "nat \<Rightarrow> string \<Rightarrow> nat option" where
  "dec_digits acc [] = Some acc"
| "dec_digits acc (c # cs) =
     (case dec_digit c of None \<Rightarrow> None | Some d \<Rightarrow> dec_digits (10 * acc + d) cs)"

definition parse_uint :: "nat \<Rightarrow> string \<Rightarrow> nat option" where
  "parse_uint limit s =
     (if s = [] \<or> s = ''+'' \<or> s = ''-'' then None
      else case dec_digits 0 (if hd s = CHR ''+'' then tl s else s) of
             None \<Rightarrow> None
           | Some n \<Rightarrow> if n < limit then Some n else None)"

section \<open>Facts\<close>

lemma split_on_not_Nil [simp]: "split_on c s \<noteq> []"
  by (induction s) (auto split: list.split)

lemma split_on_append: "c \<notin> set xs \<Longrightarrow> split_on c (xs @ c # ys) = xs # split_on c ys"
  by (induction xs) auto

lemma split_on_none: "c \<notin> set xs \<Longrightarrow> split_on c xs = [xs]"
  by (induction xs) auto

fun join_with :: "char \<Rightarrow> string list \<Rightarrow> string" where
  "join_with c [] = []"
| "join_with c [p] = p"
| "join_with c (p # q # ps) = p @ c # join_with c (q # ps)"

text \<open>The standard library's \<open>join\<close> with a text between.\<close>

fun join_text :: "string \<Rightarrow> string list \<Rightarrow> string" where
  "join_text sep [] = []"
| "join_text sep [p] = p"
| "join_text sep (p # q # ps) = p @ sep @ join_text sep (q # ps)"

lemma join_split [simp]: "join_with c (split_on c s) = s"
proof (induction s)
  case (Cons x xs)
  obtain p ps where "split_on c xs = p # ps"
    using split_on_not_Nil by (meson neq_Nil_conv)
  with Cons show ?case by (cases ps) auto
qed simp

lemma split_once_Some: "split_once c s = Some (a, b) \<longleftrightarrow> s = a @ c # b \<and> c \<notin> set a"
proof (induction s arbitrary: a)
  case (Cons x xs)
  show ?case
  proof (cases "x = c")
    case True
    then show ?thesis by (auto simp: Cons_eq_append_conv)
  next
    case False
    have "(\<exists>a'. a = x # a' \<and> split_once c xs = Some (a', b)) \<longleftrightarrow> x # xs = a @ c # b \<and> c \<notin> set a"
      using False Cons.IH by (cases a) auto
    moreover have "split_once c (x # xs) = Some (a, b) \<longleftrightarrow> (\<exists>a'. a = x # a' \<and> split_once c xs = Some (a', b))"
      using False by auto
    ultimately show ?thesis by blast
  qed
qed simp

lemma split_once_None: "split_once c s = None \<longleftrightarrow> c \<notin> set s"
  by (induction s) auto

lemma dec_digits_append:
  "dec_digits a (xs @ ys) = (case dec_digits a xs of None \<Rightarrow> None | Some n \<Rightarrow> dec_digits n ys)"
  by (induction xs arbitrary: a) (auto split: option.split)

lemma dec_digit_digit_char [simp]: "d < 10 \<Longrightarrow> dec_digit (digit_char d) = Some d"
  by (simp add: dec_digit_def)

lemma dec_digits_show_nat [simp]: "dec_digits 0 (show_nat n) = Some n"
proof (induction n rule: show_nat.induct)
  case (1 n)
  then show ?case
    by (subst show_nat.simps) (simp add: dec_digits_append del: digit_char.simps)
qed

lemma parse_show_nat [codec_simps]:
  assumes "n < limit"
  shows "parse_uint limit (show_nat n) = Some n"
proof -
  have "hd (show_nat n) \<in> set (show_nat n)" by simp
  then obtain d where d: "d < 10" "hd (show_nat n) = digit_char d"
    using set_show_nat [of n] by blast
  then have h: "hd (show_nat n) \<noteq> CHR ''+''" "hd (show_nat n) \<noteq> CHR ''-''"
    using digit_char_not_special [OF d(1), of "CHR ''+''"] digit_char_not_special [OF d(1), of "CHR ''-''"]
    by (simp_all del: digit_char.simps)
  then have "show_nat n \<noteq> ''+''" "show_nat n \<noteq> ''-''" by fastforce+
  then show ?thesis using h assms by (simp add: parse_uint_def)
qed

lemma parse_uint_less: "parse_uint limit s = Some n \<Longrightarrow> n < limit"
  by (auto simp: parse_uint_def split: if_splits option.splits)

text \<open>Text between visible ASCII characters is not trimmed.\<close>

definition graphic :: "char \<Rightarrow> bool" where
  "graphic c = (let n = of_char c :: nat in 33 \<le> n \<and> n \<le> 126)"

lemma trim_front_id:
  assumes "\<And>w. w \<in> set ws \<Longrightarrow> w \<noteq> [] \<Longrightarrow> s \<noteq> [] \<Longrightarrow> hd w \<noteq> hd s"
  shows "trim_front ws s = s"
proof -
  have "List.find (\<lambda>w. w \<noteq> [] \<and> starts_with w s) ws = None"
    unfolding find_None_iff starts_with_def
    using assms by (metis hd_take length_greater_0_conv take_eq_Nil2)
  then show ?thesis by (simp add: trim_front.simps)
qed

lemma white_space_not_graphic: "list_all (\<lambda>w. \<not> graphic (hd w) \<and> \<not> graphic (last w)) white_space"
  by code_simp

lemma trim_graphic:
  assumes "s = [] \<or> graphic (hd s) \<and> graphic (last s)"
  shows "trim s = s"
proof -
  have start: "trim_start s = s"
    unfolding trim_start_def
    by (rule trim_front_id) (use assms white_space_not_graphic in \<open>auto simp: list_all_iff\<close>)
  have "trim_front (map rev white_space) (rev s) = rev s"
    by (rule trim_front_id) (use assms white_space_not_graphic in \<open>auto simp: list_all_iff hd_rev\<close>)
  then show ?thesis by (simp add: trim_def start trim_end_def)
qed

lemma trim_space: "trim (CHR '' '' # s) = trim s"
proof -
  have "white_space = [[CHR 0x09], [CHR 0x0A], [CHR 0x0B], [CHR 0x0C], [CHR 0x0D]] @ '' '' # drop 6 white_space"
    by code_simp
  then obtain ws where ws: "white_space = [[CHR 0x09], [CHR 0x0A], [CHR 0x0B], [CHR 0x0C], [CHR 0x0D]] @ '' '' # ws"
    by blast
  have "List.find (\<lambda>w. w \<noteq> [] \<and> starts_with w (CHR '' '' # s)) white_space = Some '' ''"
    unfolding ws by (simp add: starts_with_def)
  then show ?thesis by (simp add: trim_def trim_start_def trim_front.simps [of _ "CHR '' '' # s"])
qed

text \<open>Leading blanks.\<close>

lemma trim_start_blank: "trim_start (CHR '' '' # s) = trim_start s"
proof -
  have blank: "char_of (32 :: nat) = CHR '' ''" by code_simp
  have "List.find (\<lambda>w. w \<noteq> [] \<and> starts_with w (CHR '' '' # s)) white_space = Some '' ''"
    by (simp add: white_space_def starts_with_def blank)
  then show ?thesis unfolding trim_start_def by (subst trim_front.simps) simp
qed

lemma trim_blank: "trim (CHR '' '' # s) = trim s"
  by (simp add: trim_def trim_start_blank)

lemma split_on_join: "list_all (\<lambda>p. c \<notin> set p) ps \<Longrightarrow> ps \<noteq> [] \<Longrightarrow> split_on c (join_with c ps) = ps"
  by (induction c ps rule: join_with.induct) (simp_all add: split_on_append split_on_none)

end
