(* ===== verification/Topic.thy ===== *)
theory Topic
  imports DeviceAddr Text_Util
begin

text \<open>\<open>src/common/src/site.rs\<close> and \<open>envelope_topic.rs\<close>: the site name and the MQTT topic
  \<open>homescope/<site>/sensors/<addr>/envelope\<close>.\<close>

section \<open>Sites\<close>

datatype site = Site (site_str: string)

datatype site_parse_error = SiteEmpty | InvalidCharacter

fun site_parse_error_display :: "site_parse_error \<Rightarrow> string" where
  "site_parse_error_display SiteEmpty = ''site name is empty''"
| "site_parse_error_display InvalidCharacter =
     ''site name may only contain a-z, 0-9 and '' @ [CHR 0x27, CHR ''-'', CHR 0x27]"

definition site_char :: "char \<Rightarrow> bool" where
  "site_char c = (let b = of_char c :: nat in (97 \<le> b \<and> b \<le> 122) \<or> (48 \<le> b \<and> b \<le> 57) \<or> c = CHR ''-'')"

definition site_from_str :: "string \<Rightarrow> site_parse_error + site" where
  "site_from_str s =
     (if s = [] then Inl SiteEmpty
      else if \<not> list_all site_char s then Inl InvalidCharacter
      else Inr (Site s))"

section \<open>Topics\<close>

record envelope_topic =
  topic_site :: site
  topic_addr :: device_addr

definition topic_display :: "envelope_topic \<Rightarrow> string" where
  "topic_display t =
     ''homescope/'' @ site_str (topic_site t) @ ''/sensors/'' @ encode_hex (topic_addr t) @ ''/envelope''"

definition TOPIC_SUBSCRIPTION :: string where
  "TOPIC_SUBSCRIPTION = ''homescope/+/sensors/+/envelope''"

datatype topic_parse_error =
    Shape
  | BadSite site_parse_error
  | BadDeviceAddr addr_parse_error

fun topic_parse_error_display :: "topic_parse_error \<Rightarrow> string" where
  "topic_parse_error_display Shape = ''expected homescope/<site>/sensors/<device-addr>/envelope''"
| "topic_parse_error_display (BadSite err) = ''bad site level: '' @ site_parse_error_display err"
| "topic_parse_error_display (BadDeviceAddr err) =
     ''bad device address level: '' @ addr_parse_error_display err"

definition topic_from_str :: "string \<Rightarrow> topic_parse_error + envelope_topic" where
  "topic_from_str s =
     (case split_on CHR ''/'' s of
        [l0, site, l2, addr, l4] \<Rightarrow>
          if l0 = ''homescope'' \<and> l2 = ''sensors'' \<and> l4 = ''envelope''
          then (case site_from_str site of
                  Inl e \<Rightarrow> Inl (BadSite e)
                | Inr st \<Rightarrow>
                   (case addr_from_str addr of
                      Inl e \<Rightarrow> Inl (BadDeviceAddr e)
                    | Inr a \<Rightarrow> Inr \<lparr>topic_site = st, topic_addr = a\<rparr>))
          else Inl Shape
      | _ \<Rightarrow> Inl Shape)"

section \<open>Facts\<close>

definition site_ok :: "site \<Rightarrow> bool" where
  "site_ok s = (site_str s \<noteq> [] \<and> list_all site_char (site_str s))"

lemma site_from_str_Inr_iff: "site_from_str s = Inr st \<longleftrightarrow> s = site_str st \<and> site_ok st"
  by (cases st) (auto simp: site_from_str_def site_ok_def)

interpretation site_text: text_form site_ok site_str site_from_str
  by unfold_locales (simp_all add: site_from_str_Inr_iff)

lemma slash_not_site: "site_ok s \<Longrightarrow> CHR ''/'' \<notin> set (site_str s)"
  by (auto simp: site_ok_def list_all_iff site_char_def)

lemma slash_not_hex: "CHR ''/'' \<notin> set (encode_hex a)"
  using encode_hex_digits [of a] by (auto simp: list_all_iff is_ascii_hexdigit_def)

lemma split_topic:
  assumes "CHR ''/'' \<notin> set site" "CHR ''/'' \<notin> set addr"
  shows "split_on CHR ''/'' (''homescope/'' @ site @ ''/sensors/'' @ addr @ ''/envelope'')
     = [''homescope'', site, ''sensors'', addr, ''envelope'']"
  using assms by (simp add: split_on_append split_on_none)

lemma topic_from_display [codec_simps]:
  "site_ok (topic_site t) \<Longrightarrow> topic_from_str (topic_display t) = Inr t"
  using site_from_str_Inr_iff [of "site_str (topic_site t)" "topic_site t"]
  by (simp add: topic_from_str_def topic_display_def split_topic slash_not_site slash_not_hex
      addr_from_encode_hex del: append_Cons)

lemma topic_from_str_Inr:
  assumes "topic_from_str s = Inr t"
  shows "site_ok (topic_site t) \<and> (\<exists>addr. addr_from_str addr = Inr (topic_addr t)
     \<and> s = ''homescope/'' @ site_str (topic_site t) @ ''/sensors/'' @ addr @ ''/envelope'')"
proof -
  obtain site addr where sp: "split_on CHR ''/'' s = [''homescope'', site, ''sensors'', addr, ''envelope'']"
    and "site_from_str site = Inr (topic_site t)" "addr_from_str addr = Inr (topic_addr t)"
    using assms by (auto simp: topic_from_str_def split: list.splits if_splits sum.splits)
  moreover have "s = ''homescope/'' @ site @ ''/sensors/'' @ addr @ ''/envelope''"
    using join_split [of "CHR ''/''" s] unfolding sp by simp
  ultimately show ?thesis
    by (auto simp: site_from_str_Inr_iff)
qed

interpretation topic_text: text_form "\<lambda>t. site_ok (topic_site t)" topic_display topic_from_str
  by unfold_locales (use topic_from_display topic_from_str_Inr in blast)+

section \<open>Properties\<close>

text \<open>A topic's text is parsed back to it, and \<open>FromStr\<close> accepts exactly the five-level topics
  with the fixed levels in place, a nonempty site of lower-case letters, digits and dashes, and a
  device address of twelve hex digits.\<close>

theorem topic_exact:
  "(topic_from_str s = Inr t \<longleftrightarrow>
      site_ok (topic_site t) \<and> (\<exists>addr. addr_from_str addr = Inr (topic_addr t)
        \<and> s = ''homescope/'' @ site_str (topic_site t) @ ''/sensors/'' @ addr @ ''/envelope''))
   \<and> (topic_from_str (topic_display t) = Inr t \<longleftrightarrow> site_ok (topic_site t))"
proof -
  have r: "topic_from_str (''homescope/'' @ site_str (topic_site t) @ ''/sensors/'' @ addr @ ''/envelope'') = Inr t"
    if "site_ok (topic_site t)" "addr_from_str addr = Inr (topic_addr t)" for addr
  proof -
    have "list_all is_ascii_hexdigit addr" using that(2) by (auto simp: addr_from_str_def split: if_splits)
    then have "CHR ''/'' \<notin> set addr" by (auto simp: list_all_iff is_ascii_hexdigit_def)
    then show ?thesis
      using that site_from_str_Inr_iff [of "site_str (topic_site t)" "topic_site t"]
      by (simp add: topic_from_str_def split_topic slash_not_site del: append_Cons)
  qed
  then have "topic_from_str s = Inr t \<longleftrightarrow>
      site_ok (topic_site t) \<and> (\<exists>addr. addr_from_str addr = Inr (topic_addr t)
        \<and> s = ''homescope/'' @ site_str (topic_site t) @ ''/sensors/'' @ addr @ ''/envelope'')"
    using topic_from_str_Inr [of s t] by blast
  moreover have "topic_from_str (topic_display t) = Inr t \<longleftrightarrow> site_ok (topic_site t)"
    by (rule topic_text.parse_iff)
  ultimately show ?thesis by blast
qed

end
