(* ===== verification/UicrRecord.thy ===== *)
theory UicrRecord
  imports DeviceKey
begin

text \<open>\<open>src/common/src/uicr_record.rs\<close>: the provisioning record in \<open>UICR.CUSTOMER\<close>, nine
  little-endian words, a header in front of the device key.\<close>

definition UICR_RECORD_LEN :: nat where "UICR_RECORD_LEN = 4 + DEVICE_KEY_SIZE"
definition UICR_RECORD_WORDS :: nat where "UICR_RECORD_WORDS = UICR_RECORD_LEN div 4"
definition UICR_MAGIC :: bytes where "UICR_MAGIC = [0x48, 0x4B]"
definition RECORD_VERSION :: byte where "RECORD_VERSION = 1"

text \<open>\<open>mod layout\<close>: ranges as start and end.\<close>

definition MAGIC_RANGE :: "nat \<times> nat" where "MAGIC_RANGE = (0, 2)"
definition VERSION_AT :: nat where "VERSION_AT = snd MAGIC_RANGE"
definition PADDING_AT :: nat where "PADDING_AT = VERSION_AT + 1"
definition KEY_START :: nat where "KEY_START = PADDING_AT + 1"
definition KEY_END :: nat where "KEY_END = KEY_START + DEVICE_KEY_SIZE"
definition KEY_WORDS :: "nat \<times> nat" where "KEY_WORDS = (KEY_START div 4, KEY_END div 4)"

lemmas uicr_consts = UICR_RECORD_LEN_def UICR_RECORD_WORDS_def UICR_MAGIC_def RECORD_VERSION_def
  MAGIC_RANGE_def VERSION_AT_def PADDING_AT_def KEY_START_def KEY_END_def KEY_WORDS_def DEVICE_KEY_SIZE_def

text \<open>The compile-time assertions.\<close>

lemma uicr_layout_asserts:
  "UICR_RECORD_LEN mod 4 = 0" "UICR_RECORD_WORDS \<le> 32" "KEY_START mod 4 = 0"
  by (simp_all add: uicr_consts)

text \<open>\<open>as_chunks::<4>\<close>, each chunk read as a word.\<close>

fun words_of_bytes :: "bytes \<Rightarrow> u32 list" where
  "words_of_bytes (a # b # c # d # rest) = u32_from_le [a, b, c, d] # words_of_bytes rest"
| "words_of_bytes _ = []"

definition uicr_encode :: "device_key \<Rightarrow> u32 list" where
  "uicr_encode key =
     (let buf = replicate UICR_RECORD_LEN 0;
          buf = put_at (fst MAGIC_RANGE) UICR_MAGIC buf;
          buf = buf[VERSION_AT := RECORD_VERSION];
          buf = buf[PADDING_AT := 0];
          buf = put_at KEY_START (key_bytes key) buf
      in words_of_bytes buf)"

datatype record_error = InvalidMagic | InvalidPadding | UnsupportedRecordVersion byte

datatype record_header = HeaderBlank | HeaderMalformed record_error | HeaderPresent

definition is_blank :: "record_header \<Rightarrow> bool" where
  "is_blank h = (h = HeaderBlank)"

datatype uicr_record = RecordBlank | RecordMalformed record_error | Provisioned device_key

definition decode_header :: "u32 \<Rightarrow> record_header" where
  "decode_header w =
     (if w = 0xFFFFFFFF then HeaderBlank
      else let bs = u32_to_le w in
        if take 2 bs \<noteq> UICR_MAGIC then HeaderMalformed InvalidMagic
        else let version = bs ! VERSION_AT in
          if version \<noteq> RECORD_VERSION then HeaderMalformed (UnsupportedRecordVersion version)
          else if bs ! PADDING_AT \<noteq> 0 then HeaderMalformed InvalidPadding
          else HeaderPresent)"

definition uicr_decode :: "u32 list \<Rightarrow> uicr_record" where
  "uicr_decode ws =
     (case decode_header (ws ! 0) of
        HeaderBlank \<Rightarrow> RecordBlank
      | HeaderMalformed err \<Rightarrow> RecordMalformed err
      | HeaderPresent \<Rightarrow>
          Provisioned (DeviceKey (concat (map u32_to_le
            (take (snd KEY_WORDS - fst KEY_WORDS) (drop (fst KEY_WORDS) ws))))))"

fun record_error_display :: "record_error \<Rightarrow> string" where
  "record_error_display InvalidMagic = ''UICR record header has invalid magic''"
| "record_error_display InvalidPadding = ''UICR record header has invalid padding''"
| "record_error_display (UnsupportedRecordVersion v) =
     ''UICR record version is not supported: '' @ show_nat (unat v)"

section \<open>Facts\<close>

lemma words_of_bytes_append: "length xs = 4 \<Longrightarrow> words_of_bytes (xs @ ys) = u32_from_le xs # words_of_bytes ys"
  by (auto dest!: length_4)

lemma bytes_words [codec_simps]:
  "length bs = 4 * n \<Longrightarrow> length (words_of_bytes bs) = n \<and> concat (map u32_to_le (words_of_bytes bs)) = bs"
proof (induction n arbitrary: bs)
  case (Suc n)
  have bs: "bs = take 4 bs @ drop 4 bs" "length (take 4 bs) = 4" "length (drop 4 bs) = 4 * n"
    using Suc.prems by simp_all
  have w: "words_of_bytes bs = u32_from_le (take 4 bs) # words_of_bytes (drop 4 bs)"
    using words_of_bytes_append [OF bs(2), of "drop 4 bs"] by simp
  show ?case
    using Suc.IH [OF bs(3)] bs(2) by (simp add: w u32_to_from_le)
qed simp

lemma words_bytes [codec_simps]: "words_of_bytes (concat (map u32_to_le ws)) = ws"
  by (induction ws) (simp_all add: words_of_bytes_append)

text \<open>The header word of a current record.\<close>

definition HEADER_WORD :: u32 where "HEADER_WORD = u32_from_le [0x48, 0x4B, 1, 0]"

lemma HEADER_WORD_bytes: "u32_to_le HEADER_WORD = [0x48, 0x4B, 1, 0]"
  by (simp add: HEADER_WORD_def u32_to_from_le)

lemma HEADER_WORD_val: "HEADER_WORD = 0x14B48"
  by (simp add: HEADER_WORD_def u32_from_le_def)

lemma uicr_encode_eq:
  assumes "key_ok k"
  shows "uicr_encode k = HEADER_WORD # words_of_bytes (key_bytes k)"
proof -
  have "put_at KEY_START (key_bytes k)
      ((put_at (fst MAGIC_RANGE) UICR_MAGIC (replicate UICR_RECORD_LEN 0))[VERSION_AT := RECORD_VERSION, PADDING_AT := 0])
     = [0x48, 0x4B, 1, 0] @ key_bytes k"
    using assms by (simp add: uicr_consts put_at_def key_ok_def numeral_eq_Suc)
  then show ?thesis
    by (simp add: uicr_encode_def HEADER_WORD_def)
qed

lemma decode_header_Present_iff: "decode_header w = HeaderPresent \<longleftrightarrow> w = HEADER_WORD"
proof
  assume p: "decode_header w = HeaderPresent"
  obtain a b c d where "u32_to_le w = [a, b, c, d]"
    using length_4 [OF u32_to_le_length [of w]] by blast
  with p have "u32_to_le w = [0x48, 0x4B, 1, 0]"
    by (auto simp: decode_header_def Let_def uicr_consts numeral_eq_Suc split: if_splits)
  then show "w = HEADER_WORD"
    by (metis HEADER_WORD_def u32_from_to_le)
next
  assume "w = HEADER_WORD"
  then show "decode_header w = HeaderPresent"
    using HEADER_WORD_bytes
    by (simp add: decode_header_def Let_def uicr_consts numeral_eq_Suc) (simp add: HEADER_WORD_val)
qed

lemma decode_header_Blank_iff: "decode_header w = HeaderBlank \<longleftrightarrow> w = 0xFFFFFFFF"
  by (auto simp: decode_header_def Let_def)

lemma key_words_length: "key_ok k \<Longrightarrow> length (words_of_bytes (key_bytes k)) = 8"
  using bytes_words [of "key_bytes k" 8] by (simp add: key_ok_def DEVICE_KEY_SIZE_def)

lemma uicr_encode_length: "key_ok k \<Longrightarrow> length (uicr_encode k) = UICR_RECORD_WORDS"
  by (simp add: uicr_encode_eq key_words_length uicr_consts)

lemma uicr_decode_encode [codec_simps]: "key_ok k \<Longrightarrow> uicr_decode (uicr_encode k) = Provisioned k"
  using bytes_words [of "key_bytes k" 8] decode_header_Present_iff [of HEADER_WORD]
  by (simp add: uicr_encode_eq uicr_decode_def key_words_length uicr_consts key_ok_def)

lemma uicr_decode_Provisioned:
  assumes "uicr_decode ws = Provisioned k" "length ws = UICR_RECORD_WORDS"
  shows "key_ok k \<and> ws = uicr_encode k"
proof -
  obtain w rest where ws: "ws = w # rest" "length rest = 8"
    using assms(2) by (cases ws) (auto simp: uicr_consts)
  have w: "w = HEADER_WORD" and k: "k = DeviceKey (concat (map u32_to_le rest))"
    using assms(1) ws decode_header_Present_iff
    by (auto simp: uicr_decode_def uicr_consts split: record_header.splits)
  have "length (concat (map u32_to_le xs)) = 4 * length xs" for xs
    by (induction xs) simp_all
  then have ok: "key_ok k"
    using ws by (simp add: k key_ok_def DEVICE_KEY_SIZE_def)
  then show ?thesis
    using ws by (simp add: uicr_encode_eq w k words_bytes)
qed

text \<open>Until the header word is written the record reads as blank, whatever is behind it.\<close>

lemma uicr_decode_uncommitted: "uicr_decode (0xFFFFFFFF # ws) = RecordBlank"
  by (simp add: uicr_decode_def decode_header_def)

section \<open>Properties\<close>

text \<open>C33: A record of nine words decodes as provisioned exactly when it is what \<open>encode\<close> writes for a
  key of 32 bytes, and then with that key; and as long as the header word is still erased the
  record reads as blank, whatever the key words hold, so a reader never sees a half-written key.\<close>

theorem uicr_record_exact:
  assumes "length ws = UICR_RECORD_WORDS"
  shows "(uicr_decode ws = Provisioned k \<longleftrightarrow> key_ok k \<and> ws = uicr_encode k)
    \<and> uicr_decode (ws[0 := 0xFFFFFFFF]) = RecordBlank"
proof (intro conjI iffI)
  show "uicr_decode ws = Provisioned k \<Longrightarrow> key_ok k" "uicr_decode ws = Provisioned k \<Longrightarrow> ws = uicr_encode k"
    using uicr_decode_Provisioned [OF _ assms] by simp_all
  show "key_ok k \<and> ws = uicr_encode k \<Longrightarrow> uicr_decode ws = Provisioned k"
    by (simp add: uicr_decode_encode)
  show "uicr_decode (ws[0 := 0xFFFFFFFF]) = RecordBlank"
    using assms by (cases ws) (simp_all add: uicr_decode_uncommitted uicr_consts)
qed

theorem uicr_record_exact_witness:
  "uicr_decode (uicr_encode (DeviceKey (replicate 32 7))) = Provisioned (DeviceKey (replicate 32 7))
   \<and> uicr_decode ((uicr_encode (DeviceKey (replicate 32 7)))[0 := 0xFFFFFFFF]) = RecordBlank"
proof -
  have k: "key_ok (DeviceKey (replicate 32 7))" by (simp add: key_ok_def DEVICE_KEY_SIZE_def)
  show ?thesis
    using uicr_record_exact [OF uicr_encode_length [OF k], of "DeviceKey (replicate 32 7)"] k by simp
qed

end
