(* ===== verification/SeqCounter.thy ===== *)
theory SeqCounter
  imports Prelude
begin

text \<open>\<open>src/firmware/sensor/src/seq_counter.rs\<close>: the packet counter checkpointed in two flash
  pages. The storage region is the list of its 2048 words. The flash driver is not part of the
  repository; what the counter uses of it is the NOR flash of the chip: a word write clears bits
  (it stores the conjunction of old and new), a page erase sets every bit, and an operation that
  fails or is cut by a power loss leaves the slot, or the page, half done.\<close>

section \<open>Slots and pages\<close>

definition RESERVATION_BLOCK :: u32 where "RESERVATION_BLOCK = 1024"
definition SEQ_PAGE_SIZE :: nat where "SEQ_PAGE_SIZE = 4096"
definition WORDS_PER_PAGE :: nat where "WORDS_PER_PAGE = SEQ_PAGE_SIZE div 4"
definition TOTAL_SLOTS :: nat where "TOTAL_SLOTS = 2 * WORDS_PER_PAGE"

lemma seq_consts [simp]: "WORDS_PER_PAGE = 1024" "TOTAL_SLOTS = 2048"
  by (simp_all add: WORDS_PER_PAGE_def TOTAL_SLOTS_def SEQ_PAGE_SIZE_def)

datatype page = PageA | PageB

definition slot_next :: "nat \<Rightarrow> nat" where "slot_next s = (s + 1) mod TOTAL_SLOTS"
definition slot_addr :: "nat \<Rightarrow> nat \<Rightarrow> nat" where "slot_addr storage_start s = storage_start + s * 4"

definition slot_page :: "nat \<Rightarrow> page" where
  "slot_page s = (if s < WORDS_PER_PAGE then PageA else PageB)"

fun page_start :: "page \<Rightarrow> nat" where
  "page_start PageA = 0"
| "page_start PageB = WORDS_PER_PAGE"

definition page_byte_range :: "nat \<Rightarrow> page \<Rightarrow> nat \<times> nat" where
  "page_byte_range storage_start p =
     (let a = slot_addr storage_start (page_start p) in (a, a + SEQ_PAGE_SIZE))"

definition page_started :: "nat \<Rightarrow> page option" where
  "page_started s = (if page_start (slot_page s) = s then Some (slot_page s) else None)"

definition is_valid_record :: "u32 \<Rightarrow> bool" where
  "is_valid_record w = (w \<noteq> 0 \<and> w mod RESERVATION_BLOCK = 0)"

section \<open>Flash operations\<close>

datatype 'e op_result = OpOk | OpErr 'e | PowerCut

text \<open>Each operation takes what the hardware does with it: its result and, when it is not
  completed, the bits a write has not cleared yet or the content an erase leaves in the page.\<close>

fun flash_write :: "'e op_result \<times> u32 \<Rightarrow> u32 list \<Rightarrow> nat \<Rightarrow> u32 \<Rightarrow> u32 list" where
  "flash_write (OpOk, _) f s c = f[s := and (f ! s) c]"
| "flash_write (_, uncleared) f s c = f[s := and (f ! s) (or c uncleared)]"

definition erase_words :: "u32 list \<Rightarrow> page \<Rightarrow> (nat \<Rightarrow> u32) \<Rightarrow> u32 list" where
  "erase_words f p content =
     map (\<lambda>k. if page_start p \<le> k \<and> k < page_start p + WORDS_PER_PAGE then content k else f ! k)
       [0..<length f]"

fun flash_erase :: "'e op_result \<times> (nat \<Rightarrow> u32) \<Rightarrow> u32 list \<Rightarrow> page \<Rightarrow> u32 list" where
  "flash_erase (OpOk, _) f p = erase_words f p (\<lambda>_. 0xFFFFFFFF)"
| "flash_erase (_, content) f p = erase_words f p content"

section \<open>Loading\<close>

record seq_counter =
  next_seq :: u32
  reserved_until :: u32
  next_slot :: nat

text \<open>The inner loop over the slots of a page, \<open>slot..stop\<close>, with its \<open>break\<close>.\<close>

function scan_slots :: "(nat \<Rightarrow> 'e + u32) \<Rightarrow> nat \<Rightarrow> nat \<Rightarrow> u32 \<times> nat \<Rightarrow> 'e + (u32 \<times> nat)" where
  "scan_slots rd slot stop best =
     (if stop \<le> slot then Inr best
      else case rd slot of
             Inl e \<Rightarrow> Inl e
           | Inr reserved \<Rightarrow>
               if \<not> is_valid_record reserved then Inr best
               else scan_slots rd (slot + 1) stop (if reserved > fst best then (reserved, slot) else best))"
  by pat_completeness auto
termination
  by (relation "measure (\<lambda>(_, slot, stop, _). stop - slot)") auto

declare scan_slots.simps [simp del]

definition scan_page :: "(nat \<Rightarrow> 'e + u32) \<Rightarrow> page \<Rightarrow> u32 \<times> nat \<Rightarrow> 'e + (u32 \<times> nat)" where
  "scan_page rd p best = scan_slots rd (page_start p) (page_start p + WORDS_PER_PAGE) best"

definition seq_load :: "(nat \<Rightarrow> 'e + u32) \<Rightarrow> 'e + seq_counter" where
  "seq_load rd =
     (case scan_page rd PageA (0, 0) of
        Inl e \<Rightarrow> Inl e
      | Inr best \<Rightarrow>
         (case scan_page rd PageB best of
            Inl e \<Rightarrow> Inl e
          | Inr (max_reserved, max_slot) \<Rightarrow>
              Inr \<lparr>next_seq = max_reserved, reserved_until = max_reserved,
                   next_slot = (if max_reserved = 0 then 0 else slot_next max_slot)\<rparr>))"

section \<open>Issuing numbers\<close>

text \<open>One call's hardware behaviour: of the erase (when it happens), of the write, of the
  read-back.\<close>

record 'e flash_env =
  on_erase :: "'e op_result \<times> (nat \<Rightarrow> u32)"
  on_write :: "'e op_result \<times> u32"
  on_read :: "'e op_result"

datatype 'e abort = FlashFault 'e | AssertPanic | PowerLost

fun op_abort :: "'e op_result \<Rightarrow> 'e abort option" where
  "op_abort OpOk = None"
| "op_abort (OpErr e) = Some (FlashFault e)"
| "op_abort PowerCut = Some PowerLost"

definition erase_if_started ::
  "'e flash_env \<Rightarrow> nat \<Rightarrow> u32 list \<Rightarrow> 'e abort option \<times> u32 list" where
  "erase_if_started env slot f =
     (case page_started slot of
        None \<Rightarrow> (None, f)
      | Some p \<Rightarrow> (op_abort (fst (on_erase env)), flash_erase (on_erase env) f p))"

definition advance_reservation ::
  "'e flash_env \<Rightarrow> seq_counter \<Rightarrow> u32 list \<Rightarrow> ('e abort + seq_counter) \<times> u32 list" where
  "advance_reservation env c f =
     (case erase_if_started env (next_slot c) f of
        (Some a, f1) \<Rightarrow> (Inl a, f1)
      | (None, f1) \<Rightarrow>
         (let new_ceiling = reserved_until c + RESERVATION_BLOCK;
              f2 = flash_write (on_write env) f1 (next_slot c) new_ceiling
          in case op_abort (fst (on_write env)) of
               Some a \<Rightarrow> (Inl a, f2)
             | None \<Rightarrow>
                (case op_abort (on_read env) of
                   Some a \<Rightarrow> (Inl a, f2)
                 | None \<Rightarrow>
                     if new_ceiling \<noteq> f2 ! next_slot c then (Inl AssertPanic, f2)
                     else (Inr (c\<lparr>reserved_until := new_ceiling, next_slot := slot_next (next_slot c)\<rparr>), f2))))"

definition seq_next ::
  "'e flash_env \<Rightarrow> seq_counter \<Rightarrow> u32 list \<Rightarrow> ('e abort + u32) \<times> seq_counter \<times> u32 list" where
  "seq_next env c f =
     (case (if next_seq c \<ge> reserved_until c then advance_reservation env c f else (Inr c, f)) of
        (Inl a, f') \<Rightarrow> (Inl a, c, f')
      | (Inr c', f') \<Rightarrow> (Inr (next_seq c'), c'\<lparr>next_seq := next_seq c' + 1\<rparr>, f'))"

section \<open>The device over its lifetime\<close>

text \<open>A sensor is off, with its flash, or running. The steps are booting, issuing a number, a
  failed attempt and losing power; \<open>emitted\<close> are the numbers issued so far, newest first. A
  flash error of \<open>next\<close> leaves the device running (\<open>telemetry_task\<close> skips the packet); a panic
  and a power cut turn it off, wherever they strike.\<close>

datatype device = Off "u32 list" | Running seq_counter "u32 list"

text \<open>No further block can be reserved: the next ceiling would wrap to zero.\<close>

definition exhausted :: "seq_counter \<Rightarrow> bool" where
  "exhausted c = (next_seq c \<ge> reserved_until c \<and> reserved_until c = 0xFFFFFC00)"

inductive seq_step :: "device \<times> u32 list \<Rightarrow> device \<times> u32 list \<Rightarrow> bool" where
  boot: "seq_load (\<lambda>s. Inr (f ! s) :: unit + u32) = Inr c \<Longrightarrow> seq_step (Off f, h) (Running c f, h)"
| issue: "seq_next (env :: unit flash_env) c f = (Inr s, c', f') \<Longrightarrow> \<not> exhausted c
    \<Longrightarrow> seq_step (Running c f, h) (Running c' f', s # h)"
| fault: "seq_next (env :: unit flash_env) c f = (Inl (FlashFault e), c', f') \<Longrightarrow> \<not> exhausted c
    \<Longrightarrow> seq_step (Running c f, h) (Running c' f', h)"
| crash: "seq_next (env :: unit flash_env) c f = (Inl a, c', f') \<Longrightarrow> a \<in> {AssertPanic, PowerLost}
    \<Longrightarrow> \<not> exhausted c \<Longrightarrow> seq_step (Running c f, h) (Off f', h)"
| power_loss: "seq_step (Running c f, h) (Off f, h)"

inductive seq_reachable :: "u32 list \<Rightarrow> device \<times> u32 list \<Rightarrow> bool" for f0 where
  initial: "seq_reachable f0 (Off f0, [])"
| step: "seq_reachable f0 x \<Longrightarrow> seq_step x y \<Longrightarrow> seq_reachable f0 y"

inductive_cases seq_step_OffE: "seq_step (Off f, h) y"
inductive_cases seq_step_RunningE: "seq_step (Running c f, h) y"

section \<open>What the scan sees\<close>

definition valid_from :: "u32 list \<Rightarrow> nat \<Rightarrow> nat \<Rightarrow> bool" where
  "valid_from f a t = (\<forall>k. a \<le> k \<and> k \<le> t \<longrightarrow> is_valid_record (f ! k))"

text \<open>A slot the boot scan reaches: every slot of its page up to it is valid.\<close>

definition visible :: "u32 list \<Rightarrow> nat \<Rightarrow> bool" where
  "visible f t = valid_from f (page_start (slot_page t)) t"

lemma scan_slots_spec:
  assumes "scan_slots (\<lambda>s. Inr (f ! s)) slot stop best = Inr best'"
  shows "fst best \<le> fst best'
    \<and> (\<forall>t. slot \<le> t \<and> t < stop \<and> valid_from f slot t \<longrightarrow> f ! t \<le> fst best')
    \<and> (best' = best \<or> (slot \<le> snd best' \<and> snd best' < stop \<and> f ! snd best' = fst best'
          \<and> valid_from f slot (snd best')))"
  using assms
proof (induction "stop - slot" arbitrary: slot best rule: less_induct)
  case less
  show ?case
  proof (cases "slot < stop \<and> is_valid_record (f ! slot)")
    case False
    then show ?thesis
      using less.prems by (subst (asm) scan_slots.simps) (auto simp: valid_from_def split: if_splits)
  next
    case True
    define b where "b = (if f ! slot > fst best then (f ! slot, slot) else best)"
    have s: "scan_slots (\<lambda>s. Inr (f ! s) :: 'a + u32) (slot + 1) stop b = Inr best'"
      using less.prems True by (subst (asm) scan_slots.simps) (simp add: b_def)
    have "stop - (slot + 1) < stop - slot" using True by linarith
    note ih = less.hyps [OF this s]
    have vf: "valid_from f slot t \<longleftrightarrow> valid_from f (slot + 1) t" if "slot + 1 \<le> t" for t
    proof -
      have "(slot \<le> k \<and> k \<le> t) = (k = slot \<or> (slot + 1 \<le> k \<and> k \<le> t))" for k
        using that by linarith
      then show ?thesis using True by (auto simp add: valid_from_def)
    qed
    have v0: "valid_from f slot slot" using True by (auto simp: valid_from_def le_antisym)
    have "fst best \<le> fst b" "f ! slot \<le> fst b" by (auto simp: b_def)
    then have low: "fst best \<le> fst best'" "f ! slot \<le> fst best'"
      using ih by (meson order_trans)+
    have "f ! t \<le> fst best'" if "slot \<le> t" "t < stop" "valid_from f slot t" for t
      using that ih vf [of t] low(2) by (cases "t = slot") auto
    moreover have "best' = best \<or> (slot \<le> snd best' \<and> snd best' < stop \<and> f ! snd best' = fst best'
          \<and> valid_from f slot (snd best'))"
    proof (cases "best' = b")
      case True
      then show ?thesis using v0 \<open>slot < stop \<and> _\<close> by (simp add: b_def)
    next
      case False
      then show ?thesis using ih vf [of "snd best'"] by auto
    qed
    ultimately show ?thesis using low by blast
  qed
qed

lemma slot_page_iff:
  "t < 2048 \<Longrightarrow> slot_page t = p \<longleftrightarrow> page_start p \<le> t \<and> t < page_start p + 1024"
  by (cases p) (auto simp: slot_page_def)

text \<open>What the counter knows after a boot: its ceiling bounds every record in sight and stands
  in the slot before \<open>next_slot\<close>, or there is none.\<close>

definition anchored :: "seq_counter \<Rightarrow> u32 list \<Rightarrow> bool" where
  "anchored c f \<longleftrightarrow> reserved_until c = 0 \<and> next_slot c = 0
     \<or> (\<exists>m<2048. visible f m \<and> f ! m = reserved_until c \<and> next_slot c = slot_next m)"

lemma seq_load_spec:
  assumes "seq_load (\<lambda>s. Inr (f ! s)) = Inr c"
  shows "next_seq c = reserved_until c" "anchored c f"
    "\<And>t. t < 2048 \<Longrightarrow> visible f t \<Longrightarrow> f ! t \<le> reserved_until c"
proof -
  let ?rd = "\<lambda>s. Inr (f ! s) :: 'a + u32"
  obtain bA bB where A: "scan_slots ?rd 0 1024 (0, 0) = Inr bA"
    and B: "scan_slots ?rd 1024 2048 bA = Inr bB"
    and c: "c = \<lparr>next_seq = fst bB, reserved_until = fst bB,
               next_slot = (if fst bB = 0 then 0 else slot_next (snd bB))\<rparr>"
    using assms by (auto simp: seq_load_def scan_page_def split: sum.splits prod.splits)
  note sA = scan_slots_spec [OF A] and sB = scan_slots_spec [OF B]
  show "next_seq c = reserved_until c" by (simp add: c)
  show "f ! t \<le> reserved_until c" if "t < 2048" "visible f t" for t
  proof (cases "t < 1024")
    case True
    then have "f ! t \<le> fst bA" using sA that by (auto simp: visible_def slot_page_def)
    also have "\<dots> \<le> fst bB" using sB by blast
    finally show ?thesis by (simp add: c)
  next
    case False
    then show ?thesis using sB that by (auto simp: visible_def slot_page_def c)
  qed
  show "anchored c f"
  proof (cases "fst bB = 0")
    case False
    have "\<exists>m<2048. visible f m \<and> f ! m = fst bB \<and> snd bB = m"
      using sA sB False by (auto simp: visible_def slot_page_def)
    then show ?thesis using False by (auto simp: anchored_def c)
  qed (simp add: anchored_def c)
qed

section \<open>The reservation survives\<close>

lemma erase_words_length [simp]: "length (erase_words f p g) = length f"
  by (simp add: erase_words_def)

lemma flash_erase_length [simp]: "length (flash_erase r f p) = length f"
  by (cases "(r, f, p)" rule: flash_erase.cases) simp_all

lemma flash_erase_other:
  "k < length f \<Longrightarrow> \<not> (page_start p \<le> k \<and> k < page_start p + 1024) \<Longrightarrow> flash_erase r f p ! k = f ! k"
  by (cases "(r, f, p)" rule: flash_erase.cases) (auto simp: erase_words_def)

lemma flash_write_length [simp]: "length (flash_write r f s c) = length f"
  by (cases "(r, f, s, c)" rule: flash_write.cases) simp_all

lemma flash_write_other: "k \<noteq> s \<Longrightarrow> flash_write r f s c ! k = f ! k"
  by (cases "(r, f, s, c)" rule: flash_write.cases) simp_all

lemma slot_next_cases:
  "m < 2048 \<Longrightarrow> slot_next m < 2048 \<and>
     (page_started (slot_next m) = None \<and> slot_next m = m + 1 \<and> slot_page (m + 1) = slot_page m
    \<or> page_started (slot_next m) = Some (slot_page (slot_next m)) \<and> slot_page (slot_next m) \<noteq> slot_page m
       \<and> page_start (slot_page (slot_next m)) = slot_next m)"
  by (auto simp: slot_next_def page_started_def slot_page_def mod_if)

lemma erase_if_started_length [simp]: "length (snd (erase_if_started env n f)) = length f"
  by (simp add: erase_if_started_def split: option.split)

text \<open>Whatever happens to an erase and a write at the next slot, the slots up to the last
  checkpoint keep their content.\<close>

lemma erase_keeps:
  assumes "m < 2048" "length f = 2048" "page_start (slot_page m) \<le> k" "k \<le> m"
  shows "snd (erase_if_started env (slot_next m) f) ! k = f ! k"
    "flash_write r g (slot_next m) c ! k = g ! k"
proof -
  have k: "k < 2048" "slot_page k = slot_page m"
    using assms slot_page_iff [of m "slot_page m"] slot_page_iff [of k "slot_page m"] by auto
  show "snd (erase_if_started env (slot_next m) f) ! k = f ! k"
  proof (cases "page_started (slot_next m)")
    case (Some p)
    then have "p \<noteq> slot_page k" using slot_next_cases [OF assms(1)] k by auto
    then have "\<not> (page_start p \<le> k \<and> k < page_start p + 1024)"
      using slot_page_iff [OF k(1), of p] by auto
    then show ?thesis
      using Some k assms by (simp add: erase_if_started_def flash_erase_other)
  qed (simp add: erase_if_started_def)
  have "k \<noteq> slot_next m"
    using slot_next_cases [OF assms(1)] assms k by auto
  then show "flash_write r g (slot_next m) c ! k = g ! k"
    by (rule flash_write_other)
qed

lemma write_visible:
  assumes "m < 2048" "length f = 2048" "visible f m" and g: "g = snd (erase_if_started env (slot_next m) f)"
  shows "visible g m \<and> g ! m = f ! m"
    and "visible (flash_write r g (slot_next m) c) m \<and> flash_write r g (slot_next m) c ! m = f ! m"
proof -
  have m: "page_start (slot_page m) \<le> m" using slot_page_iff [OF assms(1)] by blast
  have k: "g ! k = f ! k" "flash_write r g (slot_next m) c ! k = f ! k"
    if "page_start (slot_page m) \<le> k" "k \<le> m" for k
    using erase_keeps(1) [OF assms(1,2) that] erase_keeps(2) [OF assms(1,2) that, of r g c]
    by (simp_all add: g)
  show "visible g m \<and> g ! m = f ! m"
    using assms(3) k(1) m by (auto simp: visible_def valid_from_def)
  show "visible (flash_write r g (slot_next m) c) m \<and> flash_write r g (slot_next m) c ! m = f ! m"
    using assms(3) k(2) m by (auto simp: visible_def valid_from_def)
qed

lemma advance_flash:
  "snd (advance_reservation env c f) = snd (erase_if_started env (next_slot c) f)
   \<or> snd (advance_reservation env c f)
      = flash_write (on_write env) (snd (erase_if_started env (next_slot c) f)) (next_slot c)
          (reserved_until c + RESERVATION_BLOCK)"
  by (auto simp: advance_reservation_def Let_def split: prod.split option.split)

lemma advance_keeps:
  assumes "length f = 2048" "m < 2048" "visible f m" "next_slot c = slot_next m"
  shows "visible (snd (advance_reservation env c f)) m \<and> snd (advance_reservation env c f) ! m = f ! m"
  using advance_flash [of env c f] write_visible [OF assms(2,1,3) refl] assms(4) by metis

lemma advance_length: "length (snd (advance_reservation env c f)) = length f"
  using advance_flash [of env c f] by auto

lemma multiple_of_block: "r mod 1024 = (0 :: u32) \<longleftrightarrow> unat r mod 1024 = 0"
  using unat_mod_distrib [of r 1024] unsigned_eq_0_iff [of "r mod 1024", where ?'a = nat] by simp

lemma new_ceiling_valid:
  assumes "r mod 1024 = (0 :: u32)" "r \<noteq> 0xFFFFFC00"
  shows "is_valid_record (r + RESERVATION_BLOCK)" "r < r + RESERVATION_BLOCK"
    "(r + RESERVATION_BLOCK) mod 1024 = 0"
proof -
  have z: "unat r mod 1024 = 0" using assms(1) by (simp only: multiple_of_block)
  then obtain q where q: "unat r = 1024 * q" by (metis mod_eq_0_iff_dvd dvdE)
  moreover have "unat r \<noteq> 4294966272"
    using assms(2) by (simp add: word_unat_eq_iff)
  moreover have "unat r < 4294967296" using unsigned_less [of r] by simp
  ultimately have "q \<noteq> 4194303" "q < 4194304" by simp_all
  then have lt: "unat r + 1024 < 4294967296" using q by simp
  then have u: "unat (r + RESERVATION_BLOCK) = unat r + 1024"
    by (simp add: RESERVATION_BLOCK_def unat_word_ariths)
  then show "(r + RESERVATION_BLOCK) mod 1024 = 0"
    using z by (simp add: multiple_of_block)
  moreover show "r < r + RESERVATION_BLOCK"
    using u by (simp add: word_less_nat_alt)
  ultimately show "is_valid_record (r + RESERVATION_BLOCK)"
    by (auto simp: is_valid_record_def RESERVATION_BLOCK_def)
qed

section \<open>The lifetime invariant\<close>

fun seq_inv :: "device \<times> u32 list \<Rightarrow> bool" where
  "seq_inv (Running c f, h) \<longleftrightarrow>
     length f = 2048 \<and> next_slot c < 2048 \<and> next_seq c \<le> reserved_until c \<and> reserved_until c mod 1024 = 0
     \<and> anchored c f \<and> (\<forall>s\<in>set h. s < next_seq c) \<and> sorted_wrt (>) h"
| "seq_inv (Off f, h) \<longleftrightarrow>
     length f = 2048 \<and> (\<forall>s\<in>set h. \<exists>m<2048. visible f m \<and> s < f ! m) \<and> sorted_wrt (>) h"

lemma anchored_off:
  assumes "anchored c f" "next_seq c \<le> reserved_until c" "s < next_seq c"
  shows "\<exists>m<2048. visible f m \<and> s < f ! m"
proof -
  have "s < reserved_until c" using assms by (meson less_le_trans)
  then show ?thesis using assms(1) by (auto simp: anchored_def)
qed

lemma anchored_advance:
  assumes "anchored c f" "length f = 2048"
  shows "anchored c (snd (advance_reservation env c f))"
  using assms advance_keeps [of f] unfolding anchored_def by metis

lemma seq_next_flash:
  assumes "seq_next env c f = (r, c', f')"
  shows "f' = f \<or> f' = snd (advance_reservation env c f)"
  using assms by (auto simp: seq_next_def split: if_splits prod.splits sum.splits)

lemma seq_next_Inl: "seq_next env c f = (Inl a, c', f') \<Longrightarrow> c' = c"
  by (auto simp: seq_next_def split: if_splits prod.splits sum.splits)

lemma seq_next_keeps:
  assumes "anchored c f" "length f = 2048" "seq_next env c f = (r, c', f')"
  shows "anchored c f'" "length f' = 2048"
  using seq_next_flash [OF assms(3)] anchored_advance [OF assms(1,2), of env]
    advance_length [of env c f] assms(1,2) by auto

lemma advance_Inr:
  assumes "advance_reservation env c f = (Inr c', f')"
  shows "c' = c\<lparr>reserved_until := reserved_until c + RESERVATION_BLOCK, next_slot := slot_next (next_slot c)\<rparr>"
    "f' ! next_slot c = reserved_until c + RESERVATION_BLOCK"
  using assms
  by (auto simp: advance_reservation_def Let_def split: if_splits prod.splits option.splits)

lemma word_less_add_1: "(a :: u32) < b \<Longrightarrow> a < a + 1"
  using unsigned_less [of b, where ?'a = nat] by (simp add: word_less_nat_alt unat_word_ariths)

lemma visible_valid: "m < 2048 \<Longrightarrow> visible f m \<Longrightarrow> is_valid_record (f ! m)"
  using slot_page_iff [of m "slot_page m"] by (simp add: visible_def valid_from_def)

lemma visible_step:
  assumes "n < 2048" "is_valid_record (f ! n)"
    and "page_started n = None \<Longrightarrow> \<exists>m. n = m + 1 \<and> slot_page n = slot_page m \<and> visible f m"
  shows "visible f n"
proof (cases "page_started n")
  case None
  then obtain m where "n = m + 1" "slot_page n = slot_page m" "visible f m"
    using assms(3) by blast
  then show ?thesis
    using assms(2) by (auto simp: visible_def valid_from_def le_Suc_eq)
next
  case (Some p)
  then have "page_start (slot_page n) = n" by (auto simp: page_started_def split: if_splits)
  then show ?thesis using assms(2) by (auto simp: visible_def valid_from_def dest: le_antisym)
qed

lemma advance_anchored:
  assumes "anchored c f" "length f = 2048" "next_slot c < 2048" "reserved_until c mod 1024 = 0"
    and "reserved_until c \<noteq> 0xFFFFFC00" "advance_reservation env c f = (Inr c', f')"
  shows "anchored c' f'" "next_slot c' < 2048" "reserved_until c < reserved_until c'"
    "reserved_until c' mod 1024 = 0" "next_seq c' = next_seq c"
proof -
  note c' = advance_Inr [OF assms(6)] and v = new_ceiling_valid [OF assms(4,5)]
  have f': "f' = snd (advance_reservation env c f)" using assms(6) by simp
  have "\<exists>m. next_slot c = m + 1 \<and> slot_page (next_slot c) = slot_page m \<and> visible f' m"
    if none: "page_started (next_slot c) = None"
  proof -
    have "page_started 0 \<noteq> None" by (simp add: page_started_def slot_page_def)
    then have "next_slot c \<noteq> 0" using none by metis
    then obtain m where m: "m < 2048" "visible f m" "next_slot c = slot_next m"
      using assms(1) by (auto simp: anchored_def)
    then show ?thesis
      using slot_next_cases [of m] none advance_keeps [OF assms(2) m] unfolding f' by force
  qed
  then have "visible f' (next_slot c)"
    using assms(3) v(1) c'(2) by (intro visible_step) auto
  then show "anchored c' f'"
    using c' assms(3) by (auto simp: anchored_def)
  show "next_slot c' < 2048" using c'(1) by (simp add: slot_next_def)
  show "reserved_until c < reserved_until c'" "reserved_until c' mod 1024 = 0" "next_seq c' = next_seq c"
    using c'(1) v by simp_all
qed

lemma seq_inv_issue:
  assumes inv: "seq_inv (Running c f, h)" and nx: "seq_next env c f = (Inr s, c', f')"
    and room: "\<not> exhausted c"
  shows "seq_inv (Running c' f', s # h)"
proof (cases "next_seq c \<ge> reserved_until c")
  case False
  then have "s = next_seq c" "c' = c\<lparr>next_seq := next_seq c + 1\<rparr>" "f' = f" and lt: "next_seq c < reserved_until c"
    using nx by (auto simp: seq_next_def)
  moreover have "next_seq c + 1 \<le> reserved_until c" "next_seq c < next_seq c + 1"
    using lt inc_le word_less_add_1 by blast+
  ultimately show ?thesis
    using inv by (auto simp: anchored_def intro: less_trans)
next
  case True
  then obtain c1 where a: "advance_reservation env c f = (Inr c1, f')"
    and s: "s = next_seq c1" and c': "c' = c1\<lparr>next_seq := next_seq c1 + 1\<rparr>"
    using nx by (auto simp: seq_next_def split: prod.splits sum.splits)
  have eq: "next_seq c = reserved_until c" "reserved_until c \<noteq> 0xFFFFFC00"
    using True inv room by (auto simp: exhausted_def)
  note adv = advance_anchored [OF _ _ _ _ eq(2) a]
  have A: "anchored c1 f'" "next_slot c1 < 2048" "reserved_until c < reserved_until c1"
    "reserved_until c1 mod 1024 = 0" "next_seq c1 = next_seq c"
    using inv adv by auto
  have "length f' = 2048" using a inv advance_length [of env c f] by simp
  moreover have "s < s + 1" "s + 1 \<le> reserved_until c1"
    using A eq s inc_le word_less_add_1 by metis+
  ultimately show ?thesis
    using inv A s eq by (auto simp: c' anchored_def intro: less_trans)
qed

lemma seq_inv_step: "seq_step x y \<Longrightarrow> seq_inv x \<Longrightarrow> seq_inv y"
proof (induction rule: seq_step.induct)
  case (boot f c h)
  note L = seq_load_spec [OF boot.hyps]
  have "s < next_seq c" if "s \<in> set h" for s
    using that boot.prems L(1,3) by (fastforce intro: less_le_trans)
  moreover have "next_slot c < 2048"
    using L(2) slot_next_cases by (auto simp: anchored_def)
  moreover have "reserved_until c mod 1024 = 0"
  proof -
    consider "reserved_until c = 0" | m where "m < 2048" "visible f m" "f ! m = reserved_until c"
      using L(2) by (auto simp: anchored_def)
    then show ?thesis
    proof cases
      case (2 m)
      then have "is_valid_record (reserved_until c)" using visible_valid by metis
      then show ?thesis by (simp add: is_valid_record_def RESERVATION_BLOCK_def)
    qed simp
  qed
  ultimately show ?case using boot.prems L(1,2) by simp
next
  case (issue env c f s c' f' h)
  then show ?case using seq_inv_issue by blast
next
  case (fault env c f e c' f' h)
  then show ?case
    using seq_next_keeps [OF _ _ fault.hyps(1)] seq_next_Inl [OF fault.hyps(1)] by auto
next
  case (crash env c f a c' f' h)
  then have "anchored c f'" "length f' = 2048"
    using seq_next_keeps [OF _ _ crash.hyps(1)] by auto
  then show ?case using crash.prems anchored_off by auto
next
  case (power_loss c f h)
  then show ?case using anchored_off by auto
qed

lemma seq_inv_reachable: "seq_reachable f0 x \<Longrightarrow> length f0 = 2048 \<Longrightarrow> seq_inv x"
  by (induction rule: seq_reachable.induct) (auto intro: seq_inv_step)

section \<open>Repair and exhaustion\<close>

text \<open>Hardware that does what it is told.\<close>

definition working :: "unit flash_env" where
  "working = \<lparr>on_erase = (OpOk, \<lambda>_. 0), on_write = (OpOk, 0), on_read = OpOk\<rparr>"

text \<open>The next slot can still be programmed to the next ceiling.\<close>

definition writable :: "seq_counter \<Rightarrow> u32 list \<Rightarrow> bool" where
  "writable c f = (page_started (next_slot c) \<noteq> None
     \<or> and (f ! next_slot c) (reserved_until c + RESERVATION_BLOCK) = reserved_until c + RESERVATION_BLOCK)"

lemma and_ones: "and (0xFFFFFFFF :: u32) c = c"
proof -
  have "(0xFFFFFFFF :: u32) = - 1" by simp
  then show ?thesis by (simp only: and.left_neutral)
qed

lemma erase_started_word:
  assumes "next_slot c < 2048" "length f = 2048" "writable c f"
  shows "erase_if_started working (next_slot c) f
      = (None, snd (erase_if_started working (next_slot c) f))"
    "and (snd (erase_if_started working (next_slot c) f) ! next_slot c) (reserved_until c + RESERVATION_BLOCK)
      = reserved_until c + RESERVATION_BLOCK"
proof -
  show "erase_if_started working (next_slot c) f = (None, snd (erase_if_started working (next_slot c) f))"
    by (simp add: erase_if_started_def working_def split: option.split)
  show "and (snd (erase_if_started working (next_slot c) f) ! next_slot c) (reserved_until c + RESERVATION_BLOCK)
      = reserved_until c + RESERVATION_BLOCK"
  proof (cases "page_started (next_slot c)")
    case None
    then show ?thesis using assms by (simp add: erase_if_started_def writable_def)
  next
    case (Some p)
    then have "p = slot_page (next_slot c)" by (auto simp: page_started_def split: if_splits)
    then have "page_start p \<le> next_slot c \<and> next_slot c < page_start p + 1024"
      using slot_page_iff [OF assms(1)] by blast
    then show ?thesis
      using Some assms by (simp add: erase_if_started_def working_def erase_words_def and_ones)
  qed
qed

lemma advance_working:
  assumes "next_slot c < 2048" "length f = 2048" "writable c f"
  shows "\<exists>f'. advance_reservation working c f
    = (Inr (c\<lparr>reserved_until := reserved_until c + RESERVATION_BLOCK, next_slot := slot_next (next_slot c)\<rparr>), f')"
proof -
  have w: "on_write working = (OpOk, 0)" "on_read working = OpOk" by (simp_all add: working_def)
  note e = erase_started_word [OF assms]
  show ?thesis
    using assms e(2) by (subst advance_reservation_def, subst e(1)) (simp add: w Let_def)
qed

lemma and_or_absorb: "and (and w (or c m)) c = and w (c :: u32)"
  by (rule bit_word_eqI) (auto simp: bit_simps)

text \<open>A write cut short, or reported as failed, leaves a slot the retry can complete.\<close>

lemma advance_failed_writable:
  assumes "next_slot c < length f" "writable c f" "advance_reservation env c f = (Inl a, f')"
  shows "writable c f'"
proof (cases "page_started (next_slot c)")
  case None
  then have e: "erase_if_started env (next_slot c) f = (None, f)"
    by (simp add: erase_if_started_def)
  let ?c = "reserved_until c + RESERVATION_BLOCK"
  have f': "f' = flash_write (on_write env) f (next_slot c) ?c"
    using assms(3) by (auto simp: advance_reservation_def e Let_def split: option.splits if_splits)
  have "and (f ! next_slot c) ?c = ?c"
    using assms(2) None by (simp add: writable_def)
  then have "and (f' ! next_slot c) ?c = ?c"
    using assms(1) unfolding f'
    by (cases "(on_write env, f, next_slot c, ?c)" rule: flash_write.cases) (auto simp: and_or_absorb and.assoc)
  then show ?thesis by (simp add: writable_def)
qed (simp add: writable_def)

definition blank_flash :: "u32 list" where "blank_flash = replicate 2048 0xFFFFFFFF"

lemma page_started_simps: "page_started 0 = Some PageA" "page_started 1024 = Some PageB"
  "page_started (Suc 0) = None"
  by (simp_all add: page_started_def slot_page_def)

section \<open>Properties\<close>

text \<open>C4: Over any run of the sensor - boots, issued numbers, flash operations that fail or are cut
  by a power loss at any point with any bits left behind, panics, reboots - from any content of
  the two pages, the numbers issued are strictly increasing, so none is used twice, as long as the
  counter has not reserved the last block below \<open>2 ^ 32\<close>.\<close>

theorem seq_never_repeats:
  assumes "seq_reachable f0 (d, issued)" "length f0 = TOTAL_SLOTS"
  shows "sorted_wrt (>) issued \<and> distinct issued"
proof -
  have "seq_inv (d, issued)" using seq_inv_reachable [OF assms(1)] assms(2) by simp
  then have "sorted_wrt (>) issued" by (cases d) simp_all
  moreover have "sorted_wrt (>) xs \<Longrightarrow> distinct xs" for xs :: "u32 list" by (induction xs) auto
  ultimately show ?thesis by blast
qed

lemma blank_boot:
  "seq_load (\<lambda>s. Inr (blank_flash ! s) :: unit + u32) = Inr \<lparr>next_seq = 0, reserved_until = 0, next_slot = 0\<rparr>"
  by (simp add: seq_load_def scan_page_def scan_slots.simps blank_flash_def
    is_valid_record_def RESERVATION_BLOCK_def slot_next_def)

theorem seq_never_repeats_witness:
  "\<exists>d s. seq_reachable blank_flash (d, [s]) \<and> sorted_wrt (>) [s] \<and> distinct [s]"
proof -
  let ?c = "\<lparr>next_seq = 0, reserved_until = 0, next_slot = 0\<rparr> :: seq_counter"
  have "writable ?c blank_flash" by (simp add: writable_def page_started_simps)
  then obtain f' where a: "advance_reservation working ?c blank_flash
      = (Inr (?c\<lparr>reserved_until := 1024, next_slot := slot_next 0\<rparr>), f')"
    using advance_working [of ?c blank_flash] by (auto simp: blank_flash_def RESERVATION_BLOCK_def)
  have n: "seq_next working ?c blank_flash = (Inr 0, ?c\<lparr>reserved_until := 1024, next_slot := slot_next 0, next_seq := 1\<rparr>, f')"
    by (simp add: seq_next_def a)
  have "seq_reachable blank_flash (Running ?c blank_flash, [])"
    by (rule seq_reachable.step [OF seq_reachable.initial seq_step.boot [OF blank_boot]])
  then have r: "seq_reachable blank_flash
      (Running (?c\<lparr>reserved_until := 1024, next_slot := slot_next 0, next_seq := 1\<rparr>) f', [0])"
    by (rule seq_reachable.step) (rule seq_step.issue [OF n], simp add: exhausted_def)
  have "length blank_flash = TOTAL_SLOTS" by (simp add: blank_flash_def)
  then show ?thesis using seq_never_repeats [OF r] r by blast
qed


definition torn_env :: "unit flash_env" where
  "torn_env = \<lparr>on_erase = (OpOk, \<lambda>_. 0), on_write = (PowerCut, 0xFF00), on_read = OpOk\<rparr>"


text \<open>At the end of the counter's range the promise fails: with \<open>0xFFFFFC00\<close> as the newest record
  - the last ceiling that a 32 bit number can hold - the counter issues \<open>0xFFFFFC00\<close>, having
  reserved a ceiling that wrapped to zero and is no valid record, and after a reboot it loads the
  same state and will issue the same number again.\<close>

theorem seq_wraps_when_exhausted:
  "\<exists>c c' f'. seq_load (\<lambda>s. Inr (blank_flash[0 := 0xFFFFFC00] ! s) :: unit + u32) = Inr c
     \<and> exhausted c \<and> seq_next working c (blank_flash[0 := 0xFFFFFC00]) = (Inr 0xFFFFFC00, c', f')
     \<and> seq_load (\<lambda>s. Inr (f' ! s) :: unit + u32) = Inr c"
proof -
  let ?f = "blank_flash[0 := 0xFFFFFC00]"
  let ?c = "\<lparr>next_seq = 0xFFFFFC00, reserved_until = 0xFFFFFC00, next_slot = 1\<rparr> :: seq_counter"
  have l: "seq_load (\<lambda>s. Inr (?f ! s) :: unit + u32) = Inr ?c"
    by (simp add: seq_load_def scan_page_def scan_slots.simps blank_flash_def
      is_valid_record_def RESERVATION_BLOCK_def slot_next_def)
  have n: "seq_next working ?c ?f
     = (Inr 0xFFFFFC00, \<lparr>next_seq = 0xFFFFFC01, reserved_until = 0, next_slot = 2\<rparr>, ?f[1 := 0])"
    by (simp add: seq_next_def advance_reservation_def erase_if_started_def page_started_simps
       RESERVATION_BLOCK_def working_def blank_flash_def slot_next_def Let_def)
  have l2: "seq_load (\<lambda>s. Inr (?f[1 := 0] ! s) :: unit + u32) = Inr ?c"
    by (simp add: seq_load_def scan_page_def scan_slots.simps blank_flash_def
      is_valid_record_def RESERVATION_BLOCK_def slot_next_def)
  have x: "exhausted ?c" by (simp add: exhausted_def)
  show ?thesis using l n l2 x by blast
qed

end
