(* ===== verification/LruCache.thy ===== *)
theory LruCache
  imports Prelude
begin

text \<open>\<open>src/firmware/receiver/src/lru_cache.rs\<close>: the fixed-capacity least-recently-used cache,
  and the contract of a bounded map that its client relies on, stated as a locale.\<close>

section \<open>The cache\<close>

record 'v lru_item =
  last_tick :: u64
  item_value :: 'v

text \<open>\<open>N\<close> is the length of \<open>slots\<close>.\<close>

record ('k, 'v) lru_cache =
  slots :: "('k \<times> 'v lru_item) option list"
  used :: nat
  tick :: u64

definition lru_new :: "nat \<Rightarrow> ('k, 'v) lru_cache" where
  "lru_new n = \<lparr>slots = replicate n None, used = 0, tick = 0\<rparr>"

text \<open>\<open>find_item_mut\<close>: the slot of the item, searched in \<open>cache[..len]\<close>.\<close>

definition find_item :: "('k, 'v) lru_cache \<Rightarrow> 'k \<Rightarrow> nat option" where
  "find_item c key =
     List.find (\<lambda>i. case slots c ! i of Some (k, _) \<Rightarrow> k = key | None \<Rightarrow> False) [0..<used c]"

text \<open>\<open>min_by_key\<close>: the first of the minimal elements.\<close>

fun min_by_tick :: "(nat \<times> u64) list \<Rightarrow> (nat \<times> u64) option" where
  "min_by_tick [] = None"
| "min_by_tick (x # xs) =
     (case min_by_tick xs of
        None \<Rightarrow> Some x
      | Some y \<Rightarrow> if snd y < snd x then Some y else Some x)"

definition slot_ticks :: "('k, 'v) lru_cache \<Rightarrow> (nat \<times> u64) list" where
  "slot_ticks c =
     List.map_filter (\<lambda>i. map_option (\<lambda>(_, item). (i, last_tick item)) (slots c ! i)) [0..<length (slots c)]"

definition victim :: "('k, 'v) lru_cache \<Rightarrow> nat" where
  "victim c = (case min_by_tick (slot_ticks c) of Some (i, _) \<Rightarrow> i | None \<Rightarrow> 0)"

definition lru_insert :: "('k, 'v) lru_cache \<Rightarrow> 'k \<Rightarrow> 'v \<Rightarrow> 'v option \<times> ('k, 'v) lru_cache" where
  "lru_insert c0 key v =
     (let c = c0\<lparr>tick := tick c0 + 1\<rparr>; t = tick c in
      case find_item c key of
        Some i \<Rightarrow>
          (case slots c ! i of
             Some (k, item) \<Rightarrow>
               (Some (item_value item),
                c\<lparr>slots := (slots c)[i := Some (k, \<lparr>last_tick = t, item_value = v\<rparr>)]\<rparr>)
           | None \<Rightarrow> (None, c))
      | None \<Rightarrow>
          (let (index, c') = (if used c \<ge> length (slots c) then (victim c, c)
                              else (used c, c\<lparr>used := used c + 1\<rparr>))
           in (None, c'\<lparr>slots := (slots c')[index := Some (key, \<lparr>last_tick = t, item_value = v\<rparr>)]\<rparr>)))"

definition lru_get :: "('k, 'v) lru_cache \<Rightarrow> 'k \<Rightarrow> 'v option \<times> ('k, 'v) lru_cache" where
  "lru_get c0 key =
     (let c = c0\<lparr>tick := tick c0 + 1\<rparr>; t = tick c in
      case find_item c key of
        None \<Rightarrow> (None, c)
      | Some i \<Rightarrow>
          (case slots c ! i of
             Some (k, item) \<Rightarrow>
               (Some (item_value item), c\<lparr>slots := (slots c)[i := Some (k, item\<lparr>last_tick := t\<rparr>)]\<rparr>)
           | None \<Rightarrow> (None, c)))"

section \<open>Invariant and abstraction\<close>

definition key_at :: "('k, 'v) lru_cache \<Rightarrow> nat \<Rightarrow> 'k" where
  "key_at c i = fst (the (slots c ! i))"

definition tick_at :: "('k, 'v) lru_cache \<Rightarrow> nat \<Rightarrow> u64" where
  "tick_at c i = last_tick (snd (the (slots c ! i)))"

definition value_at :: "('k, 'v) lru_cache \<Rightarrow> nat \<Rightarrow> 'v" where
  "value_at c i = item_value (snd (the (slots c ! i)))"

text \<open>Occupied slots are packed at the front, keys are distinct, and ticks are distinct and not in
  the future.\<close>

definition lru_inv :: "('k, 'v) lru_cache \<Rightarrow> bool" where
  "lru_inv c \<longleftrightarrow>
     used c \<le> length (slots c)
   \<and> (\<forall>i<length (slots c). slots c ! i \<noteq> None \<longleftrightarrow> i < used c)
   \<and> (\<forall>i<used c. \<forall>j<used c. i \<noteq> j \<longrightarrow> key_at c i \<noteq> key_at c j \<and> tick_at c i \<noteq> tick_at c j)
   \<and> (\<forall>i<used c. tick_at c i \<le> tick c)"

definition lru_lookup :: "('k, 'v) lru_cache \<Rightarrow> 'k \<Rightarrow> 'v option" where
  "lru_lookup c key = map_option (value_at c) (find_item c key)"

text \<open>The keys used more recently than a given key.\<close>

definition newer_than :: "('k, 'v) lru_cache \<Rightarrow> u64 \<Rightarrow> 'k set" where
  "newer_than c t = {key_at c i | i. i < used c \<and> t < tick_at c i}"

lemma slot_Some:
  "lru_inv c \<Longrightarrow> i < used c \<Longrightarrow>
     slots c ! i = Some (key_at c i, \<lparr>last_tick = tick_at c i, item_value = value_at c i\<rparr>)"
proof -
  assume "lru_inv c" "i < used c"
  then have "slots c ! i \<noteq> None" by (auto simp: lru_inv_def)
  then obtain k item where "slots c ! i = Some (k, item)" by auto
  then show ?thesis by (simp add: key_at_def tick_at_def value_at_def)
qed

lemma find_item_Some:
  assumes "lru_inv c"
  shows "find_item c key = Some i \<longleftrightarrow> i < used c \<and> key_at c i = key"
proof -
  have eq: "(case slots c ! j of Some (k, _) \<Rightarrow> k = key | None \<Rightarrow> False) \<longleftrightarrow> key_at c j = key" if "j < used c" for j
    using slot_Some [OF assms that] by simp
  have "find_item c key = List.find (\<lambda>i. key_at c i = key) [0..<used c]"
    unfolding find_item_def by (rule find_cong) (auto simp: eq)
  then show ?thesis
    using assms by (auto simp: find_Some_iff lru_inv_def)
qed

lemma find_item_None:
  assumes "lru_inv c"
  shows "find_item c key = None \<longleftrightarrow> (\<forall>i<used c. key_at c i \<noteq> key)"
  using find_item_Some [OF assms, of key] by (metis not_None_eq)

lemma lru_inv_new [simp]: "lru_inv (lru_new n)"
  by (simp add: lru_inv_def lru_new_def)

lemma lru_lookup_new [simp]: "lru_lookup (lru_new n) k = None"
  by (simp add: lru_lookup_def find_item_def lru_new_def)

lemma lookup_Some_iff:
  "lru_inv c \<Longrightarrow> lru_lookup c k = Some v \<longleftrightarrow> (\<exists>i<used c. key_at c i = k \<and> value_at c i = v)"
  by (auto simp: lru_lookup_def find_item_Some)

text \<open>Putting a fresh entry in a slot.\<close>

definition put_slot :: "('k, 'v) lru_cache \<Rightarrow> nat \<Rightarrow> 'k \<Rightarrow> 'v \<Rightarrow> u64 \<Rightarrow> ('k, 'v) lru_cache" where
  "put_slot c i k v t =
     c\<lparr>slots := (slots c)[i := Some (k, \<lparr>last_tick = t, item_value = v\<rparr>)], tick := t,
       used := max (used c) (i + 1)\<rparr>"

lemma put_slot_at:
  assumes "i < length (slots c)" "j < length (slots c)"
  shows "key_at (put_slot c i k v t) j = (if j = i then k else key_at c j)"
    "tick_at (put_slot c i k v t) j = (if j = i then t else tick_at c j)"
    "value_at (put_slot c i k v t) j = (if j = i then v else value_at c j)"
  using assms by (auto simp: put_slot_def key_at_def tick_at_def value_at_def)

lemma put_slot_simps [simp]:
  "used (put_slot c i k v t) = max (used c) (i + 1)" "tick (put_slot c i k v t) = t"
  "length (slots (put_slot c i k v t)) = length (slots c)"
  by (simp_all add: put_slot_def)

lemma lru_inv_put_slot:
  assumes "lru_inv c" "i < length (slots c)" "i \<le> used c" "tick c < t"
    and "\<And>j. j < used c \<Longrightarrow> j \<noteq> i \<Longrightarrow> key_at c j \<noteq> k"
  shows "lru_inv (put_slot c i k v t)"
proof -
  have u: "used c \<le> length (slots c)" using assms(1) by (simp add: lru_inv_def)
  have old: "tick_at c j < t" if "j < used c" for j
    using assms(1,4) that by (meson lru_inv_def le_less_trans)
  have "slots (put_slot c i k v t) ! j \<noteq> None \<longleftrightarrow> j < max (used c) (i + 1)" if "j < length (slots c)" for j
    using assms(1-3) that by (auto simp: put_slot_def lru_inv_def nth_list_update)
  moreover have "key_at (put_slot c i k v t) x \<noteq> key_at (put_slot c i k v t) y
      \<and> tick_at (put_slot c i k v t) x \<noteq> tick_at (put_slot c i k v t) y"
    if xy: "x < max (used c) (i + 1)" "y < max (used c) (i + 1)" "x \<noteq> y" for x y
  proof -
    have l: "x < length (slots c)" "y < length (slots c)"
      using xy u assms(2) by auto
    have "x \<noteq> i \<Longrightarrow> x < used c" "y \<noteq> i \<Longrightarrow> y < used c" using xy assms(3) by auto
    then show ?thesis
      using assms(1,5) old xy(3) put_slot_at [OF assms(2) l(1)] put_slot_at [OF assms(2) l(2)]
      by (auto simp: lru_inv_def)
  qed
  moreover have "tick_at (put_slot c i k v t) x \<le> t" if "x < max (used c) (i + 1)" for x
  proof -
    have "x < length (slots c)" "x \<noteq> i \<Longrightarrow> x < used c" using that u assms(2,3) by auto
    then show ?thesis
      using old put_slot_at [OF assms(2), of x] by (auto intro: less_imp_le)
  qed
  ultimately show ?thesis using u assms(2) by (auto simp: lru_inv_def)
qed

lemma lookup_put_slot:
  assumes "lru_inv c" "i < length (slots c)" "i \<le> used c" "tick c < t"
    and "\<And>j. j < used c \<Longrightarrow> j \<noteq> i \<Longrightarrow> key_at c j \<noteq> k"
  shows "lru_lookup (put_slot c i k v t) k' =
     (if k' = k then Some v
      else if i < used c \<and> key_at c i = k' then None
      else lru_lookup c k')"
proof -
  have inv': "lru_inv (put_slot c i k v t)" by (rule lru_inv_put_slot [OF assms])
  have u: "used c \<le> length (slots c)" using assms(1) by (simp add: lru_inv_def)
  have hit: "lru_lookup (put_slot c i k v t) k' = Some w \<longleftrightarrow>
      (\<exists>j<max (used c) (i + 1). (if j = i then k = k' \<and> v = w else key_at c j = k' \<and> value_at c j = w))" for w
    using u assms(2) by (auto simp: lookup_Some_iff [OF inv'] put_slot_at)
  show ?thesis
  proof (cases "k' = k")
    case True
    then show ?thesis using hit [of v] by (auto intro!: exI [of _ i])
  next
    case False
    have other: "lru_lookup (put_slot c i k v t) k' = Some w \<longleftrightarrow>
        (\<exists>j<used c. j \<noteq> i \<and> key_at c j = k' \<and> value_at c j = w)" for w
    proof -
      have "j < max (used c) (i + 1) \<and> j \<noteq> i \<longleftrightarrow> j < used c \<and> j \<noteq> i" for j
        using assms(3) by auto
      then show ?thesis using hit [of w] False by (metis (no_types, lifting))
    qed
    show ?thesis
    proof (cases "i < used c \<and> key_at c i = k'")
      case True
      then have "\<not> (\<exists>j<used c. j \<noteq> i \<and> key_at c j = k' \<and> value_at c j = w)" for w
        using assms(1) unfolding lru_inv_def by metis
      then show ?thesis using other True False by (metis not_None_eq)
    next
      case no: False
      have "(\<exists>j<used c. j \<noteq> i \<and> key_at c j = k' \<and> value_at c j = w) \<longleftrightarrow> lru_lookup c k' = Some w" for w
        using no unfolding lookup_Some_iff [OF assms(1)] by metis
      then show ?thesis using other no False by (metis not_None_eq)
    qed
  qed
qed

section \<open>The operations as updates of one slot\<close>

lemma min_by_tick_None: "min_by_tick xs = None \<longleftrightarrow> xs = []"
  by (cases xs) (auto split: option.splits)

lemma min_by_tick_spec:
  "min_by_tick xs = Some y \<Longrightarrow> y \<in> set xs \<and> (\<forall>z\<in>set xs. snd y \<le> snd z)"
proof (induction xs arbitrary: y)
  case (Cons x xs)
  show ?case
  proof (cases "min_by_tick xs")
    case None
    then show ?thesis using Cons.prems by (simp add: min_by_tick_None)
  next
    case (Some m)
    note m = Cons.IH [OF Some]
    show ?thesis
    proof (cases "snd m < snd x")
      case True
      then show ?thesis using Cons.prems Some m by auto
    next
      case False
      then have "snd x \<le> snd m" by simp
      then have "\<forall>z\<in>set xs. snd x \<le> snd z" using m order_trans by blast
      then show ?thesis using Cons.prems Some False by simp
    qed
  qed
qed simp

lemma slot_None: "lru_inv c \<Longrightarrow> i < length (slots c) \<Longrightarrow> \<not> i < used c \<Longrightarrow> slots c ! i = None"
  unfolding lru_inv_def by blast

lemma set_slot_ticks:
  assumes "lru_inv c"
  shows "set (slot_ticks c) = {(i, tick_at c i) | i. i < used c}"
proof -
  let ?f = "\<lambda>i. map_option (\<lambda>(_, item). (i, last_tick item)) (slots c ! i)"
  have eq: "?f i = (if i < used c then Some (i, tick_at c i) else None)" if "i < length (slots c)" for i
    using slot_Some [OF assms, of i] slot_None [OF assms that] by simp
  have "List.map_filter ?f [0..<length (slots c)]
      = map (\<lambda>i. (i, tick_at c i)) (filter (\<lambda>i. i < used c) [0..<length (slots c)])"
  proof -
    have "filter (\<lambda>i. ?f i \<noteq> None) [0..<length (slots c)] = filter (\<lambda>i. i < used c) [0..<length (slots c)]"
      by (rule filter_cong) (auto simp only: set_upt atLeastLessThan_iff eq split: if_splits)
    then show ?thesis
      unfolding List.map_filter_def by (auto simp del: map_option_eq_Some simp: eq)
  qed
  moreover have "used c \<le> length (slots c)" using assms by (simp add: lru_inv_def)
  ultimately show ?thesis
    by (auto simp: slot_ticks_def)
qed

lemma victim_spec:
  assumes "lru_inv c" "0 < used c"
  shows "victim c < used c \<and> (\<forall>j<used c. tick_at c (victim c) \<le> tick_at c j)"
proof -
  have "slot_ticks c \<noteq> []" using set_slot_ticks [OF assms(1)] assms(2) by force
  then obtain i m where im: "min_by_tick (slot_ticks c) = Some (i, m)"
    using min_by_tick_None by (metis option.exhaust surj_pair)
  then show ?thesis
    using min_by_tick_spec [OF im] set_slot_ticks [OF assms(1)] by (force simp: victim_def)
qed

text \<open>Room for \<open>n\<close> more operations before the tick counter wraps.\<close>

definition lru_ready :: "nat \<Rightarrow> ('k, 'v) lru_cache \<Rightarrow> bool" where
  "lru_ready n c = (lru_inv c \<and> slots c \<noteq> [] \<and> unat (tick c) + n < 2 ^ 64)"

lemma tick_less: "lru_ready (Suc n) c \<Longrightarrow> tick c < tick c + 1"
  by (simp add: lru_ready_def word_less_nat_alt unat_word_ariths)

lemma tick_unat: "lru_ready (Suc n) c \<Longrightarrow> unat (tick c + 1) = unat (tick c) + 1"
  by (simp add: lru_ready_def unat_word_ariths)

lemma find_item_tick [simp]: "find_item (c\<lparr>tick := t\<rparr>) k = find_item c k"
  by (simp add: find_item_def)

lemma lru_get_found:
  assumes "lru_inv c" "find_item c k = Some i"
  shows "lru_get c k = (Some (value_at c i), put_slot c i k (value_at c i) (tick c + 1))"
  using assms slot_Some [OF assms(1), of i] find_item_Some [OF assms(1), of k i]
  by (simp add: lru_get_def Let_def put_slot_def max_def)

lemma lru_get_missing: "find_item c k = None \<Longrightarrow> lru_get c k = (None, c\<lparr>tick := tick c + 1\<rparr>)"
  by (simp add: lru_get_def Let_def)

text \<open>The slot an insertion uses.\<close>

definition insert_slot :: "('k, 'v) lru_cache \<Rightarrow> 'k \<Rightarrow> nat" where
  "insert_slot c k =
     (case find_item c k of
        Some i \<Rightarrow> i
      | None \<Rightarrow> if used c \<ge> length (slots c) then victim c else used c)"

lemma victim_tick [simp]: "victim (c\<lparr>tick := t\<rparr>) = victim c"
  by (simp add: victim_def slot_ticks_def)

lemma insert_slot_bounds:
  assumes "lru_inv c" "slots c \<noteq> []"
  shows "insert_slot c k < length (slots c)" "insert_slot c k \<le> used c"
    "\<And>j. j < used c \<Longrightarrow> j \<noteq> insert_slot c k \<Longrightarrow> key_at c j \<noteq> k"
proof -
  have u: "used c \<le> length (slots c)" using assms(1) by (simp add: lru_inv_def)
  have v: "used c \<ge> length (slots c) \<Longrightarrow> victim c < used c"
    using victim_spec [OF assms(1)] assms(2) by (cases "used c") auto
  have "insert_slot c k < length (slots c) \<and> insert_slot c k \<le> used c"
  proof (cases "find_item c k")
    case (Some i)
    then show ?thesis using u find_item_Some [OF assms(1), of k i] by (simp add: insert_slot_def)
  next
    case None
    then show ?thesis using u v by (cases "used c \<ge> length (slots c)") (simp_all add: insert_slot_def)
  qed
  then show "insert_slot c k < length (slots c)" "insert_slot c k \<le> used c" by blast+
  show "key_at c j \<noteq> k" if "j < used c" "j \<noteq> insert_slot c k" for j
  proof (cases "find_item c k")
    case None
    then show ?thesis using find_item_None [OF assms(1)] that by blast
  next
    case (Some i)
    then have "i < used c" "key_at c i = k" "insert_slot c k = i"
      using find_item_Some [OF assms(1), of k i] by (auto simp: insert_slot_def)
    then show ?thesis using assms(1) that unfolding lru_inv_def by metis
  qed
qed

lemma lru_insert_eq:
  assumes "lru_inv c" "slots c \<noteq> []"
  shows "lru_insert c k v = (lru_lookup c k, put_slot c (insert_slot c k) k v (tick c + 1))"
proof (cases "find_item c k")
  case (Some i)
  then show ?thesis
    using slot_Some [OF assms(1), of i] find_item_Some [OF assms(1), of k i]
    by (simp add: lru_insert_def Let_def put_slot_def max_def insert_slot_def lru_lookup_def)
next
  case None
  have "used c \<ge> length (slots c) \<Longrightarrow> victim c < used c"
    using victim_spec [OF assms(1)] assms(2) by (cases "used c") auto
  then show ?thesis
    using None
    by (cases "used c \<ge> length (slots c)")
       (simp_all add: lru_insert_def Let_def put_slot_def max_def insert_slot_def lru_lookup_def)
qed

section \<open>The contract of the cache\<close>

text \<open>What a client of a bounded cache may rely on while \<open>ready n\<close> promises \<open>n\<close> more
  operations: reads are exact, a written key is there, and other keys keep their value or are
  evicted.\<close>

locale bounded_cache =
  fixes ready :: "nat \<Rightarrow> 'c \<Rightarrow> bool"
    and lookup :: "'c \<Rightarrow> 'k \<Rightarrow> 'v option"
    and get :: "'c \<Rightarrow> 'k \<Rightarrow> 'v option \<times> 'c"
    and insert :: "'c \<Rightarrow> 'k \<Rightarrow> 'v \<Rightarrow> 'v option \<times> 'c"
  assumes get_value: "ready (Suc n) c \<Longrightarrow> fst (get c k) = lookup c k"
    and get_keeps: "ready (Suc n) c \<Longrightarrow> lookup (snd (get c k)) k' = lookup c k'"
    and get_ready: "ready (Suc n) c \<Longrightarrow> ready n (snd (get c k))"
    and insert_ready: "ready (Suc n) c \<Longrightarrow> ready n (snd (insert c k v))"
    and insert_same: "ready (Suc n) c \<Longrightarrow> lookup (snd (insert c k v)) k = Some v"
    and insert_other: "ready (Suc n) c \<Longrightarrow> k' \<noteq> k \<Longrightarrow>
          lookup (snd (insert c k v)) k' = lookup c k' \<or> lookup (snd (insert c k v)) k' = None"
begin

text \<open>Check for the value, and record it when it is not there.\<close>

definition check_and_record :: "'c \<Rightarrow> 'k \<Rightarrow> 'v \<Rightarrow> bool \<times> 'c" where
  "check_and_record c k v =
     (case get c k of (r, c1) \<Rightarrow> if r = Some v then (True, c1) else (False, snd (insert c1 k v)))"

lemma check_result: "ready (Suc (Suc n)) c \<Longrightarrow> fst (check_and_record c k v) \<longleftrightarrow> lookup c k = Some v"
  using get_value [of "Suc n" c k] by (cases "get c k") (auto simp: check_and_record_def)

lemma check_recorded:
  assumes "ready (Suc (Suc n)) c"
  shows "lookup (snd (check_and_record c k v)) k = Some v"
proof (cases "get c k")
  case (Pair r c1)
  then show ?thesis
    using get_value [OF assms, of k] get_keeps [OF assms, of k k] get_ready [OF assms, of k]
      insert_same [of n c1 k v]
    by (auto simp: check_and_record_def)
qed

lemma check_other:
  assumes "ready (Suc (Suc n)) c" "k' \<noteq> k"
  shows "lookup (snd (check_and_record c k v)) k' \<in> {lookup c k', None}"
proof (cases "get c k")
  case (Pair r c1)
  then show ?thesis
    using get_keeps [OF assms(1), of k k'] get_ready [OF assms(1), of k]
      insert_other [of n c1 k' k v] assms(2)
    by (auto simp: check_and_record_def)
qed

lemma check_ready:
  assumes "ready (Suc (Suc n)) c"
  shows "ready n (snd (check_and_record c k v)) \<or> ready (Suc n) (snd (check_and_record c k v))"
proof (cases "get c k")
  case (Pair r c1)
  then show ?thesis
    using get_ready [OF assms, of k] insert_ready [of n c1 k v] by (auto simp: check_and_record_def)
qed

end

lemma put_slot_ready:
  assumes "lru_ready (Suc n) c" "i < length (slots c)" "i \<le> used c"
    and "\<And>j. j < used c \<Longrightarrow> j \<noteq> i \<Longrightarrow> key_at c j \<noteq> k"
  shows "lru_ready n (put_slot c i k v (tick c + 1))"
proof -
  have "lru_inv (put_slot c i k v (tick c + 1))"
    using assms tick_less [OF assms(1)] by (intro lru_inv_put_slot) (auto simp: lru_ready_def)
  moreover have "slots (put_slot c i k v (tick c + 1)) \<noteq> []"
    using assms(2) by (auto simp: put_slot_def)
  ultimately show ?thesis
    using assms(1) tick_unat [OF assms(1)] by (simp add: lru_ready_def)
qed

lemma tick_only:
  assumes "lru_ready (Suc n) c"
  shows "lru_ready n (c\<lparr>tick := tick c + 1\<rparr>)" "lru_lookup (c\<lparr>tick := t\<rparr>) k = lru_lookup c k"
proof -
  have "tick_at c i \<le> tick c + 1" if "i < used c" for i
    using assms that tick_less [OF assms] unfolding lru_ready_def lru_inv_def by (meson less_imp_le order_trans)
  then show "lru_ready n (c\<lparr>tick := tick c + 1\<rparr>)"
    using assms tick_unat [OF assms]
    by (simp add: lru_ready_def lru_inv_def key_at_def tick_at_def)
  have "value_at (c\<lparr>tick := t\<rparr>) = value_at c"
    by (rule ext) (simp add: value_at_def)
  then show "lru_lookup (c\<lparr>tick := t\<rparr>) k = lru_lookup c k"
    by (simp add: lru_lookup_def)
qed

lemma get_slot_bounds:
  assumes "lru_inv c" "find_item c k = Some i"
  shows "i < length (slots c)" "i \<le> used c" "\<And>j. j < used c \<Longrightarrow> j \<noteq> i \<Longrightarrow> key_at c j \<noteq> k" "key_at c i = k" "i < used c"
  using assms find_item_Some [OF assms(1), of k i] by (auto simp: lru_inv_def)

interpretation lru: bounded_cache lru_ready lru_lookup lru_get lru_insert
proof
  fix n and c :: "('a, 'b) lru_cache" and k k' :: 'a and v :: 'b
  assume r: "lru_ready (Suc n) c"
  then have inv: "lru_inv c" "slots c \<noteq> []" by (simp_all add: lru_ready_def)
  note t = tick_less [OF r]
  show "fst (lru_get c k) = lru_lookup c k"
    by (cases "find_item c k") (simp_all add: lru_get_missing lru_get_found [OF inv(1)] lru_lookup_def)
  show "lru_lookup (snd (lru_get c k)) k' = lru_lookup c k'"
  proof (cases "find_item c k")
    case (Some i)
    note g = get_slot_bounds [OF inv(1) Some]
    show ?thesis
      using g Some by (simp add: lru_get_found [OF inv(1) Some] lookup_put_slot [OF inv(1) g(1,2) t g(3)])
        (auto simp: lru_lookup_def)
  qed (simp add: lru_get_missing tick_only(2) [OF r])
  show "lru_ready n (snd (lru_get c k))"
  proof (cases "find_item c k")
    case (Some i)
    note g = get_slot_bounds [OF inv(1) Some]
    show ?thesis by (simp add: lru_get_found [OF inv(1) Some] put_slot_ready [OF r g(1,2,3)])
  qed (simp add: lru_get_missing tick_only(1) [OF r])
  note b = insert_slot_bounds [OF inv, where k = k]
  show "lru_ready n (snd (lru_insert c k v))"
    by (simp add: lru_insert_eq [OF inv] put_slot_ready [OF r b])
  show "lru_lookup (snd (lru_insert c k v)) k = Some v"
    by (simp add: lru_insert_eq [OF inv] lookup_put_slot [OF inv(1) b(1,2) t b(3)])
  show "k' \<noteq> k \<Longrightarrow> lru_lookup (snd (lru_insert c k v)) k' = lru_lookup c k'
      \<or> lru_lookup (snd (lru_insert c k v)) k' = None"
    by (simp add: lru_insert_eq [OF inv] lookup_put_slot [OF inv(1) b(1,2) t b(3)])
qed

section \<open>Which entry is evicted\<close>

text \<open>An entry survives as long as fewer keys than there are slots have been touched since: \<open>S\<close>
  bounds the keys with a younger tick.\<close>

definition kept :: "('k, 'v) lru_cache \<Rightarrow> 'k \<Rightarrow> 'v \<Rightarrow> 'k set \<Rightarrow> bool" where
  "kept c k v S \<longleftrightarrow>
     (\<exists>i<used c. key_at c i = k \<and> value_at c i = v
        \<and> (\<forall>j<used c. tick_at c i < tick_at c j \<longrightarrow> key_at c j \<in> S))"

lemma kept_lookup: "lru_inv c \<Longrightarrow> kept c k v S \<Longrightarrow> lru_lookup c k = Some v"
  by (auto simp: kept_def lookup_Some_iff)

lemma kept_put_slot:
  assumes "lru_ready (Suc n) c" "kept c k v S" "k' \<in> S" "k' \<noteq> k"
    and i: "i < length (slots c)" "i \<le> used c" "i < used c \<Longrightarrow> key_at c i \<noteq> k"
  shows "kept (put_slot c i k' w (tick c + 1)) k v S"
proof -
  obtain a where a: "a < used c" "key_at c a = k" "value_at c a = v"
    "\<And>j. j < used c \<Longrightarrow> tick_at c a < tick_at c j \<Longrightarrow> key_at c j \<in> S"
    using assms(2) by (auto simp: kept_def)
  have inv: "lru_inv c" using assms(1) by (simp add: lru_ready_def)
  then have u: "used c \<le> length (slots c)" by (simp add: lru_inv_def)
  have ai: "a \<noteq> i" using a(1,2) i(3) by auto
  have at_a: "key_at (put_slot c i k' w (tick c + 1)) a = k" "value_at (put_slot c i k' w (tick c + 1)) a = v"
    "tick_at (put_slot c i k' w (tick c + 1)) a = tick_at c a"
    using put_slot_at [OF i(1), of a] a ai u by simp_all
  have "key_at (put_slot c i k' w (tick c + 1)) j \<in> S"
    if "j < max (used c) (i + 1)" "tick_at c a < tick_at (put_slot c i k' w (tick c + 1)) j" for j
  proof (cases "j = i")
    case True
    then show ?thesis using put_slot_at [OF i(1) i(1)] assms(3) by simp
  next
    case False
    then have "j < used c" using that i(2) by auto
    then show ?thesis using put_slot_at [OF i(1), of j] that False a(4) [of j] u by simp
  qed
  then show ?thesis
    unfolding kept_def using a(1) at_a by (intro exI [of _ a]) simp
qed

lemma victim_not_kept:
  assumes "lru_inv c" "kept c k v S" "finite S" "card S < length (slots c)" "k \<notin> S"
    and "used c \<ge> length (slots c)" "find_item c k' = None" "k' \<in> S"
  shows "key_at c (victim c) \<noteq> k"
proof
  assume vk: "key_at c (victim c) = k"
  have u: "used c = length (slots c)" using assms(1,6) by (auto simp: lru_inv_def)
  then have pos: "0 < used c" using assms(4) by linarith
  note v = victim_spec [OF assms(1) pos]
  obtain a where a: "a < used c" "key_at c a = k"
    "\<And>j. j < used c \<Longrightarrow> tick_at c a < tick_at c j \<Longrightarrow> key_at c j \<in> S"
    using assms(2) by (auto simp: kept_def)
  have av: "a = victim c" using a v vk assms(1) unfolding lru_inv_def by metis
  have "key_at c j \<in> S - {k'}" if "j < used c" "j \<noteq> a" for j
  proof -
    have "tick_at c a < tick_at c j"
      using v av that a(1) assms(1) unfolding lru_inv_def by (metis le_neq_trans)
    moreover have "key_at c j \<noteq> k'" using assms(7) find_item_None [OF assms(1)] that by blast
    ultimately show ?thesis using a(3) that by blast
  qed
  then have sub: "key_at c ` ({..<used c} - {a}) \<subseteq> S - {k'}" by auto
  have "inj_on (key_at c) ({..<used c} - {a})"
    using assms(1) by (auto simp: inj_on_def lru_inv_def)
  then have "card ({..<used c} - {a}) \<le> card (S - {k'})"
    using sub assms(3) by (metis card_image card_mono finite_Diff)
  then have "used c - 1 \<le> card S - 1"
    using a(1) assms(3,8) by simp
  moreover have "0 < card S" using assms(3,8) by (auto simp: card_gt_0_iff)
  ultimately show False using u assms(4) pos by simp
qed

lemma kept_get:
  assumes "lru_ready (Suc n) c" "kept c k v S" "k' \<in> S" "k' \<noteq> k"
  shows "kept (snd (lru_get c k')) k v S"
proof (cases "find_item c k'")
  case (Some i)
  have inv: "lru_inv c" using assms(1) by (simp add: lru_ready_def)
  note g = get_slot_bounds [OF inv Some]
  show ?thesis
    using kept_put_slot [OF assms g(1,2)] g(4) assms(4) by (simp add: lru_get_found [OF inv Some])
next
  case None
  then show ?thesis
    using assms(2) by (simp add: lru_get_missing kept_def key_at_def value_at_def tick_at_def)
qed

lemma kept_insert:
  assumes "lru_ready (Suc n) c" "kept c k v S" "k' \<in> S" "k' \<noteq> k"
    and "finite S" "card S < length (slots c)" "k \<notin> S"
  shows "kept (snd (lru_insert c k' w)) k v S"
proof -
  have inv: "lru_inv c" "slots c \<noteq> []" using assms(1) by (simp_all add: lru_ready_def)
  note b = insert_slot_bounds [OF inv, where k = k']
  have "key_at c (insert_slot c k') \<noteq> k" if "insert_slot c k' < used c"
  proof (cases "find_item c k'")
    case (Some i)
    then show ?thesis using get_slot_bounds [OF inv(1) Some] assms(4) by (simp add: insert_slot_def)
  next
    case None
    then show ?thesis
      using victim_not_kept [OF inv(1) assms(2,5,6,7) _ None assms(3)] that
      by (auto simp: insert_slot_def split: if_splits)
  qed
  then show ?thesis
    using kept_put_slot [OF assms(1-4) b(1,2)] by (simp add: lru_insert_eq [OF inv])
qed

lemma kept_after_insert:
  assumes "lru_ready (Suc n) c"
  shows "kept (snd (lru_insert c k v)) k v {}"
proof -
  have inv: "lru_inv c" "slots c \<noteq> []" using assms by (simp_all add: lru_ready_def)
  note b = insert_slot_bounds [OF inv, where k = k]
  have u: "used c \<le> length (slots c)" using inv by (simp add: lru_inv_def)
  let ?c = "put_slot c (insert_slot c k) k v (tick c + 1)"
  have "lru_inv ?c" using put_slot_ready [OF assms b] by (simp add: lru_ready_def)
  then have "\<not> tick c + 1 < tick_at ?c j" if "j < used ?c" for j
    using that by (metis lru_inv_def not_less put_slot_simps(2))
  then show ?thesis
    using put_slot_at [OF b(1) b(1)]
    by (auto simp: lru_insert_eq [OF inv] kept_def intro!: exI [of _ "insert_slot c k"])
qed

lemma kept_after_get:
  assumes "lru_ready (Suc n) c" "lru_lookup c k = Some v"
  shows "kept (snd (lru_get c k)) k v {}"
proof -
  have inv: "lru_inv c" using assms by (simp add: lru_ready_def)
  obtain i where i: "find_item c k = Some i" "value_at c i = v"
    using assms(2) by (auto simp: lru_lookup_def)
  note g = get_slot_bounds [OF inv i(1)]
  let ?c = "put_slot c i k v (tick c + 1)"
  have "lru_inv ?c" using put_slot_ready [OF assms(1) g(1,2,3)] by (simp add: lru_ready_def)
  then have "\<not> tick c + 1 < tick_at ?c j" if "j < used ?c" for j
    using that by (metis lru_inv_def not_less put_slot_simps(2))
  then show ?thesis
    using put_slot_at [OF g(1) g(1)] i
    by (auto simp: lru_get_found [OF inv i(1)] kept_def intro!: exI [of _ i])
qed

lemma kept_mono: "kept c k v S \<Longrightarrow> S \<subseteq> T \<Longrightarrow> kept c k v T"
  by (auto simp: kept_def)

lemma lru_slots_length [simp]:
  "length (slots (snd (lru_get c k))) = length (slots c)"
  "length (slots (snd (lru_insert c k v))) = length (slots c)"
  by (auto simp: lru_get_def lru_insert_def Let_def split: option.split)

end
