(* ===== verification/Receiver.thy ===== *)
theory Receiver
  imports LruCache Observation
begin

text \<open>\<open>src/firmware/receiver/src/ble_scan.rs\<close>, \<open>scanned_packet.rs\<close> and \<open>main.rs\<close>: the
  receiver's path from an advertising report to USB packets. The Bluetooth stack delivers
  decoded advertising structures; the clock is a number of milliseconds.\<close>

section \<open>From reports to the channel\<close>

definition SEQ_CACHE_SIZE :: nat where "SEQ_CACHE_SIZE = 32"
definition CHANNEL_SIZE :: nat where "CHANNEL_SIZE = 512"
definition COMPANY_ID :: u16 where "COMPANY_ID = 0xFFFF"

record scanned_packet =
  sp_addr :: device_addr
  sp_captured_at :: nat
  sp_rssi :: dbm
  sp_packet :: bytes

datatype ad_structure =
    ManufacturerSpecificData u16 bytes
  | OtherAd
  | InvalidAd

record adv_report =
  report_addr :: device_addr
  report_rssi :: i8
  report_data :: "ad_structure list"

record packet_handler =
  seq_cache :: "(device_addr, u32) lru_cache"
  channel :: "scanned_packet list"

definition handler_new :: packet_handler where
  "handler_new = \<lparr>seq_cache = lru_new SEQ_CACHE_SIZE, channel = []\<rparr>"

text \<open>\<open>is_full\<close>, \<open>try_receive\<close> (drop the oldest) and \<open>try_send\<close>.\<close>

definition channel_push :: "scanned_packet list \<Rightarrow> scanned_packet \<Rightarrow> scanned_packet list" where
  "channel_push ch sp =
     (let ch' = (if length ch \<ge> CHANNEL_SIZE then tl ch else ch)
      in if length ch' < CHANNEL_SIZE then ch' @ [sp] else ch')"

definition handle_payload ::
  "nat \<Rightarrow> device_addr \<Rightarrow> i8 \<Rightarrow> bytes \<Rightarrow> packet_handler \<Rightarrow> packet_handler" where
  "handle_payload now addr rssi payload h =
     (case strip_air_magic payload of
        Inl _ \<Rightarrow> h
      | Inr pkt \<Rightarrow>
         (case packet_parse pkt of
            Inl _ \<Rightarrow> h
          | Inr p \<Rightarrow>
             (case lru_get (seq_cache h) addr of
                (cached, cache1) \<Rightarrow>
                  if cached = Some (pkt_seq p) then h\<lparr>seq_cache := cache1\<rparr>
                  else
                    (let h1 = h\<lparr>seq_cache := snd (lru_insert cache1 addr (pkt_seq p))\<rparr> in
                     if MAX_WIRE_LEN < length pkt then h1
                     else h1\<lparr>channel := channel_push (channel h1)
                            \<lparr>sp_addr = addr, sp_captured_at = now, sp_rssi = Dbm rssi, sp_packet = pkt\<rparr>\<rparr>))))"

definition handle_ad :: "nat \<Rightarrow> adv_report \<Rightarrow> ad_structure \<Rightarrow> packet_handler \<Rightarrow> packet_handler" where
  "handle_ad now report ad h =
     (case ad of
        ManufacturerSpecificData company payload \<Rightarrow>
          if company = COMPANY_ID then handle_payload now (report_addr report) (report_rssi report) payload h
          else h
      | _ \<Rightarrow> h)"

text \<open>A report the stack could not decode is \<open>None\<close>.\<close>

fun on_ext_adv_reports :: "nat \<Rightarrow> adv_report option list \<Rightarrow> packet_handler \<Rightarrow> packet_handler" where
  "on_ext_adv_reports now [] h = h"
| "on_ext_adv_reports now (None # reports) h = on_ext_adv_reports now reports h"
| "on_ext_adv_reports now (Some report # reports) h =
     on_ext_adv_reports now reports (fold (handle_ad now report) (report_data report) h)"

section \<open>From the channel to USB\<close>

definition age_ms_of :: "nat \<Rightarrow> nat \<Rightarrow> u32" where
  "age_ms_of now captured_at =
     (let elapsed = now - captured_at in if elapsed < 2 ^ 32 then of_nat elapsed else 0xFFFFFFFF)"

definition observation_of :: "nat \<Rightarrow> scanned_packet \<Rightarrow> sensor_observation" where
  "observation_of now sp =
     \<lparr>obs_addr = sp_addr sp, obs_age_ms = age_ms_of now (sp_captured_at sp), obs_rssi = sp_rssi sp,
      obs_packet = sp_packet sp\<rparr>"

text \<open>The USB packets one frame is written as: full packets, and an empty one when the last was
  full, so that the host sees the end of the transfer.\<close>

definition usb_packets :: "nat \<Rightarrow> bytes \<Rightarrow> bytes list" where
  "usb_packets max_packet_size frame =
     slice_chunks max_packet_size frame @ (if length frame mod max_packet_size = 0 then [[]] else [])"

definition write_frame :: "(bytes \<Rightarrow> u16) \<Rightarrow> nat \<Rightarrow> nat \<Rightarrow> scanned_packet \<Rightarrow> buffer_too_small + bytes list" where
  "write_frame crc max_packet_size now sp =
     (case frame_encode crc observation_encode (replicate MAX_LEN 0) (observation_of now sp) of
        (Inl e, _) \<Rightarrow> Inl e
      | (Inr frame_len, buf) \<Rightarrow> Inr (usb_packets max_packet_size (take frame_len buf)))"

section \<open>The LED\<close>

datatype blink_event = Inc | Dec

record blinker =
  led_lit :: bool
  lit_since :: nat
  ref_count :: u32

definition MIN_BLINK_TIME_MS :: nat where "MIN_BLINK_TIME_MS = 15"

text \<open>One turn of the loop. \<open>now\<close> is the time of the event; \<open>preempted\<close> tells whether another
  event arrives before the rest of the minimal blink time has passed.\<close>

definition blinker_step :: "nat \<Rightarrow> bool \<Rightarrow> blink_event \<Rightarrow> blinker \<Rightarrow> blinker" where
  "blinker_step now preempted event b =
     (case event of
        Inc \<Rightarrow>
          (let b1 = b\<lparr>ref_count := (if ref_count b = 0xFFFFFFFF then ref_count b else ref_count b + 1)\<rparr> in
           if ref_count b1 = 1 \<and> \<not> led_lit b1 then b1\<lparr>led_lit := True, lit_since := now\<rparr> else b1)
      | Dec \<Rightarrow>
          (let b1 = b\<lparr>ref_count := (if ref_count b = 0 then 0 else ref_count b - 1)\<rparr> in
           if ref_count b1 = 0 \<and> led_lit b1
           then (if now - lit_since b1 < MIN_BLINK_TIME_MS \<and> preempted then b1 else b1\<lparr>led_lit := False\<rparr>)
           else b1))"

section \<open>Facts\<close>


lemma channel_push_length: "length ch \<le> CHANNEL_SIZE \<Longrightarrow> length (channel_push ch sp) \<le> CHANNEL_SIZE"
  by (auto simp: channel_push_def CHANNEL_SIZE_def)

lemma channel_push_last: "length ch \<le> CHANNEL_SIZE \<Longrightarrow> last (channel_push ch sp) = sp \<and> channel_push ch sp \<noteq> []"
  by (auto simp: channel_push_def CHANNEL_SIZE_def Let_def)

section \<open>Deduplication\<close>

text \<open>The packet a payload carries, when it is one of ours.\<close>

definition payload_packet :: "bytes \<Rightarrow> (bytes \<times> sensor_packet) option" where
  "payload_packet payload =
     (case strip_air_magic payload of
        Inl _ \<Rightarrow> None
      | Inr pkt \<Rightarrow> (case packet_parse pkt of Inl _ \<Rightarrow> None | Inr p \<Rightarrow> Some (pkt, p)))"

lemma handle_payload_none: "payload_packet payload = None \<Longrightarrow> handle_payload now a r payload h = h"
  by (auto simp: payload_packet_def handle_payload_def split: sum.splits)

lemma handle_payload_some:
  assumes "payload_packet payload = Some (pkt, p)"
  shows "handle_payload now a r payload h =
     (case lru.check_and_record (seq_cache h) a (pkt_seq p) of
        (known, cache) \<Rightarrow>
          \<lparr>seq_cache = cache,
           channel = (if known \<or> MAX_WIRE_LEN < length pkt then channel h
                      else channel_push (channel h)
                        \<lparr>sp_addr = a, sp_captured_at = now, sp_rssi = Dbm r, sp_packet = pkt\<rparr>)\<rparr>)"
  using assms
  by (auto simp: payload_packet_def handle_payload_def lru.check_and_record_def Let_def
      split: sum.splits prod.splits)

lemma handle_payload_effects:
  assumes "payload_packet payload = Some (pkt, p)"
  shows "seq_cache (handle_payload now a r payload h) = snd (lru.check_and_record (seq_cache h) a (pkt_seq p))"
    "channel (handle_payload now a r payload h) =
       (if fst (lru.check_and_record (seq_cache h) a (pkt_seq p)) \<or> MAX_WIRE_LEN < length pkt then channel h
        else channel_push (channel h) \<lparr>sp_addr = a, sp_captured_at = now, sp_rssi = Dbm r, sp_packet = pkt\<rparr>)"
  by (simp_all add: handle_payload_some [OF assms] split: prod.split)

definition handler_ok :: "nat \<Rightarrow> packet_handler \<Rightarrow> bool" where
  "handler_ok n h \<longleftrightarrow>
     lru_ready (2 * n) (seq_cache h) \<and> length (slots (seq_cache h)) = SEQ_CACHE_SIZE
   \<and> length (channel h) \<le> CHANNEL_SIZE \<and> (\<forall>sp\<in>set (channel h). length (sp_packet sp) \<le> MAX_WIRE_LEN)"

lemma handler_ok_new: "n < 2 ^ 62 \<Longrightarrow> handler_ok n handler_new"
  by (simp add: handler_ok_def handler_new_def lru_ready_def)
     (simp add: lru_new_def SEQ_CACHE_SIZE_def CHANNEL_SIZE_def)

lemma lru_ready_less: "lru_ready m c \<Longrightarrow> n \<le> m \<Longrightarrow> lru_ready n c"
  by (auto simp: lru_ready_def)

lemma check_and_record_slots:
  "length (slots (snd (lru.check_and_record c k v))) = length (slots c)"
  by (auto simp: lru.check_and_record_def split: prod.split)
     (metis lru_slots_length fst_conv snd_conv)+

lemma set_channel_push: "set (channel_push ch sp) \<subseteq> insert sp (set ch)"
  by (cases ch) (auto simp: channel_push_def Let_def)

lemma handler_ok_payload:
  assumes "handler_ok (Suc n) h"
  shows "handler_ok n (handle_payload now a r payload h)"
proof (cases "payload_packet payload")
  case None
  then show ?thesis
    using assms by (auto simp: handle_payload_none handler_ok_def intro: lru_ready_less)
next
  case (Some x)
  obtain pkt p where x: "payload_packet payload = Some (pkt, p)" using Some by (cases x) auto
  note e = handle_payload_effects [OF x, of now a r h]
  have r: "lru_ready (Suc (Suc (2 * n))) (seq_cache h)" using assms by (simp add: handler_ok_def)
  have "lru_ready (2 * n) (seq_cache (handle_payload now a r payload h))"
    using lru.check_ready [OF r, of a "pkt_seq p"] unfolding e by (auto intro: lru_ready_less)
  moreover have "length (slots (seq_cache (handle_payload now a r payload h))) = SEQ_CACHE_SIZE"
    using assms unfolding e by (simp add: check_and_record_slots handler_ok_def)
  moreover have "length (channel (handle_payload now a r payload h)) \<le> CHANNEL_SIZE"
    using assms channel_push_length unfolding e by (simp add: handler_ok_def)
  moreover have "length (sp_packet sp) \<le> MAX_WIRE_LEN"
    if "sp \<in> set (channel (handle_payload now a r payload h))" for sp
  proof (cases "sp \<in> set (channel h)")
    case True
    then show ?thesis using assms by (simp add: handler_ok_def)
  next
    case False
    then show ?thesis using that set_channel_push unfolding e by (fastforce split: if_splits)
  qed
  ultimately show ?thesis by (simp add: handler_ok_def)
qed

lemma check_known: "lru_ready (Suc (Suc n)) c \<Longrightarrow> lru_lookup c k = Some v \<Longrightarrow> fst (lru.check_and_record c k v)"
  by (erule lru.check_result [THEN iffD2])

lemma kept_check_same:
  assumes "lru_ready (Suc (Suc n)) c"
  shows "kept (snd (lru.check_and_record c k v)) k v {}"
proof (cases "lru_get c k")
  case (Pair r c1)
  then have r: "r = lru_lookup c k" "lru_ready (Suc n) c1"
    using lru.get_value [OF assms, of k] lru.get_ready [OF assms, of k] by auto
  show ?thesis
  proof (cases "r = Some v")
    case True
    then show ?thesis
      using kept_after_get [OF assms, of k v] Pair r by (simp add: lru.check_and_record_def)
  next
    case False
    then show ?thesis
      using kept_after_insert [OF r(2), of k v] Pair by (simp add: lru.check_and_record_def)
  qed
qed

lemma kept_check_other:
  assumes "lru_ready (Suc (Suc n)) c" "kept c k v S" "k' \<in> S" "finite S" "card S < length (slots c)" "k \<notin> S"
  shows "kept (snd (lru.check_and_record c k' w)) k v S"
proof (cases "lru_get c k'")
  case (Pair r c1)
  have ne: "k' \<noteq> k" using assms(3,6) by auto
  have c1: "kept c1 k v S" "lru_ready (Suc n) c1" "length (slots c1) = length (slots c)"
    using kept_get [OF assms(1-3) ne] lru.get_ready [OF assms(1), of k'] lru_slots_length(1) [of c k'] Pair
    by auto
  then show ?thesis
    using kept_insert [OF c1(2,1) assms(3) ne assms(4) _ assms(6)] assms(5) Pair
    by (simp add: lru.check_and_record_def)
qed

text \<open>A run of payloads from other devices.\<close>

definition handle_all :: "(nat \<times> device_addr \<times> i8 \<times> bytes) list \<Rightarrow> packet_handler \<Rightarrow> packet_handler" where
  "handle_all xs h = fold (\<lambda>(now, a, r, payload). handle_payload now a r payload) xs h"

lemma handler_ok_all: "handler_ok (length xs + n) h \<Longrightarrow> handler_ok n (handle_all xs h)"
proof (induction xs arbitrary: h)
  case (Cons x xs)
  obtain now a r p where x: "x = (now, a, r, p)" by (cases x)
  show ?case
    using Cons.IH [OF handler_ok_payload [of "length xs + n" h now a r p]] Cons.prems
    by (simp add: handle_all_def x)
qed (simp add: handle_all_def)

lemma kept_handle_all:
  assumes "handler_ok (length xs + n) h" "kept (seq_cache h) k v S"
    and "finite S" "card S < SEQ_CACHE_SIZE" "k \<notin> S" "\<forall>(now, a, r, p)\<in>set xs. a \<in> S"
  shows "kept (seq_cache (handle_all xs h)) k v S"
  using assms
proof (induction xs arbitrary: h)
  case (Cons x xs)
  obtain now a r p where x: "x = (now, a, r, p)" by (cases x)
  let ?h = "handle_payload now a r p h"
  have ok: "handler_ok (length xs + n) ?h"
    using handler_ok_payload [of "length xs + n" h] Cons.prems(1) by simp
  have "kept (seq_cache ?h) k v S"
  proof (cases "payload_packet p")
    case None
    then show ?thesis using Cons.prems(2) by (simp add: handle_payload_none)
  next
    case (Some y)
    then obtain pkt q where y: "payload_packet p = Some (pkt, q)" by (cases y) auto
    have c: "lru_ready (Suc (Suc (2 * (length xs + n)))) (seq_cache h)" "a \<in> S"
      "card S < length (slots (seq_cache h))"
      using Cons.prems(1,4,6) by (auto simp: handler_ok_def x)
    have "kept (snd (lru.check_and_record (seq_cache h) a (pkt_seq q))) k v S"
      by (rule kept_check_other [OF c(1) Cons.prems(2) c(2) Cons.prems(3) c(3) Cons.prems(5)])
    then show ?thesis by (simp only: handle_payload_effects [OF y])
  qed
  moreover have "\<forall>(now, a, r, p)\<in>set xs. a \<in> S" using Cons.prems(6) by auto
  ultimately have "kept (seq_cache (handle_all xs ?h)) k v S"
    by (rule Cons.IH [OF ok _ Cons.prems(3-5)])
  then show ?case by (simp add: handle_all_def x)
qed (simp add: handle_all_def)

lemma dedup_window:
  assumes "payload_packet payload = Some (pkt, p)" "payload_packet payload' = Some (pkt', p')"
    and "pkt_seq p' = pkt_seq p" "handler_ok (length xs + 2) h"
    and "finite S" "card S < SEQ_CACHE_SIZE" "a \<notin> S" "\<forall>(now, b, r, q)\<in>set xs. b \<in> S"
  shows "channel (handle_payload now' a r' payload' (handle_all xs (handle_payload now a r payload h)))
     = channel (handle_all xs (handle_payload now a r payload h))"
proof -
  let ?h1 = "handle_payload now a r payload h"
  let ?h2 = "handle_all xs ?h1"
  have ok: "handler_ok (length xs + 1) ?h1" "handler_ok 1 ?h2"
    using handler_ok_payload [of "length xs + 1" h] handler_ok_all [of xs 1 ?h1] assms(4) by auto
  have "lru_ready (Suc (Suc 0)) (seq_cache h)"
    using assms(4) by (auto simp: handler_ok_def intro: lru_ready_less)
  then have "kept (seq_cache ?h1) a (pkt_seq p) {}"
    using kept_check_same by (simp only: handle_payload_effects [OF assms(1)])
  then have "kept (seq_cache ?h1) a (pkt_seq p) S" by (rule kept_mono) simp
  then have k: "kept (seq_cache ?h2) a (pkt_seq p) S"
    by (rule kept_handle_all [OF ok(1) _ assms(5-8)])
  have r2: "lru_ready (Suc (Suc 0)) (seq_cache ?h2)" using ok(2) by (simp add: handler_ok_def numeral_2_eq_2)
  then have "lru_lookup (seq_cache ?h2) a = Some (pkt_seq p)"
    using kept_lookup [OF _ k] by (simp add: lru_ready_def)
  then have "fst (lru.check_and_record (seq_cache ?h2) a (pkt_seq p))"
    by (rule check_known [OF r2])
  then show ?thesis
    by (simp add: handle_payload_effects [OF assms(2)] assms(3))
qed

lemma write_frame_bytes:
  assumes "observation_ok (observation_of now sp)" "0 < mps"
  shows "\<exists>ps. write_frame crc mps now sp = Inr ps
    \<and> concat ps = frame_bytes crc (observation_image (observation_of now sp))
    \<and> (\<forall>p\<in>set ps. length p \<le> mps) \<and> ps \<noteq> [] \<and> length (last ps) < mps"
proof -
  let ?ob = "observation_of now sp" and ?f = "frame_bytes crc (observation_image (observation_of now sp))"
  have fits: "OVERHEAD + length (observation_image ?ob) \<le> length (replicate MAX_LEN (0 :: byte))"
    using observation.img_max [OF assms(1)] observation_fits_frame by (simp add: MAX_LEN_def)
  have "frame_encode crc observation_encode (replicate MAX_LEN 0) ?ob = (Inr (length ?f), put_at 0 ?f (replicate MAX_LEN 0))"
    using observation.frame_encode_fits [OF assms(1) observation_fits_frame fits, of crc] by simp
  then have w: "write_frame crc mps now sp = Inr (usb_packets mps ?f)"
    using take_put_at_0 [of ?f "replicate MAX_LEN 0"] by (simp add: write_frame_def)
  have ne: "?f \<noteq> []" by (simp add: frame_bytes_def MAGIC_BYTES_def)
  have "concat (usb_packets mps ?f) = ?f" "\<forall>p\<in>set (usb_packets mps ?f). length p \<le> mps"
    using assms(2) slice_chunks_length [of _ mps ?f] by (auto simp: usb_packets_def)
  moreover have "usb_packets mps ?f \<noteq> [] \<and> length (last (usb_packets mps ?f)) < mps"
  proof (cases "length ?f mod mps = 0")
    case True
    then show ?thesis using assms(2) by (simp add: usb_packets_def)
  next
    case False
    moreover have "slice_chunks mps ?f \<noteq> []" using ne assms(2) by (subst slice_chunks.simps) simp
    ultimately show ?thesis using slice_chunks_last [OF assms(2) ne] assms(2) by (simp add: usb_packets_def)
  qed
  ultimately show ?thesis using w by blast
qed

section \<open>Properties\<close>

text \<open>C27: The receiver drops a repeat: once a packet of a device has been handled, a later packet with
  the same address and sequence number changes nothing in the channel, as long as in between fewer
  than 32 other devices were heard, however often.\<close>

theorem repeats_within_window_dropped:
  assumes "payload_packet payload = Some (pkt, p)" "payload_packet payload' = Some (pkt', p')"
    and "pkt_seq p' = pkt_seq p" "handler_ok (length xs + 2) h"
    and "finite others" "card others < SEQ_CACHE_SIZE" "a \<notin> others" "\<forall>(now, b, r, q)\<in>set xs. b \<in> others"
  shows "channel (handle_payload now' a r' payload' (handle_all xs (handle_payload now a r payload h)))
     = channel (handle_all xs (handle_payload now a r payload h))"
  by (rule dedup_window [OF assms])

definition sample_payload :: bytes where
  "sample_payload = AIR_MAGIC @ 1 # u32_to_le 9 @ [0xAA]"

lemma sample_payload_packet:
  "payload_packet sample_payload = Some (1 # u32_to_le 9 @ [0xAA], \<lparr>pkt_ver = 1, pkt_seq = 9, pkt_body = [0xAA]\<rparr>)"
proof -
  have s: "strip_air_magic sample_payload = Inr (1 # u32_to_le 9 @ [0xAA])"
    by (simp add: strip_air_magic_Inr_iff sample_payload_def)
  have "packet_parse (1 # u32_to_le 9 @ [0xAA]) = Inr \<lparr>pkt_ver = 1, pkt_seq = 9, pkt_body = [0xAA]\<rparr>"
    by (simp add: packet_parse_Inr_iff)
  with s show ?thesis by (simp add: payload_packet_def)
qed

theorem repeats_within_window_dropped_witness:
  "channel (handle_payload 30 (DeviceAddr 1 2 3 4 5 6) 0 sample_payload
      (handle_all [(20, DeviceAddr 9 9 9 9 9 9, 0, sample_payload)]
        (handle_payload 10 (DeviceAddr 1 2 3 4 5 6) 0 sample_payload handler_new)))
   = channel (handle_all [(20, DeviceAddr 9 9 9 9 9 9, 0, sample_payload)]
        (handle_payload 10 (DeviceAddr 1 2 3 4 5 6) 0 sample_payload handler_new))"
  by (rule repeats_within_window_dropped [OF sample_payload_packet sample_payload_packet refl,
        where others = "{DeviceAddr 9 9 9 9 9 9}"])
     (simp_all add: handler_ok_new SEQ_CACHE_SIZE_def)

text \<open>Whatever is received, the channel never holds more than 512 packets, and every packet in it
  is sent completely: it fits the frame buffer, the USB packets written for it concatenate to
  exactly its frame, none is longer than the endpoint allows, and the last one is short, which is
  how the host sees the end of the transfer.\<close>

theorem queued_packets_are_sent:
  assumes "length xs < 2 ^ 60" "0 < mps"
  shows "length (channel (handle_all xs handler_new)) \<le> CHANNEL_SIZE
    \<and> (\<forall>sp\<in>set (channel (handle_all xs handler_new)). \<exists>ps. write_frame crc mps now sp = Inr ps
        \<and> concat ps = frame_bytes crc (observation_image (observation_of now sp))
        \<and> (\<forall>p\<in>set ps. length p \<le> mps) \<and> ps \<noteq> [] \<and> length (last ps) < mps)"
proof -
  have ok: "handler_ok 0 (handle_all xs handler_new)"
    using handler_ok_all [of xs 0 handler_new] handler_ok_new [of "length xs"] assms(1) by simp
  have "observation_ok (observation_of now sp)" if "sp \<in> set (channel (handle_all xs handler_new))" for sp
    using ok that by (simp add: handler_ok_def observation_ok_def observation_of_def)
  then have "\<forall>sp\<in>set (channel (handle_all xs handler_new)). \<exists>ps. write_frame crc mps now sp = Inr ps
        \<and> concat ps = frame_bytes crc (observation_image (observation_of now sp))
        \<and> (\<forall>p\<in>set ps. length p \<le> mps) \<and> ps \<noteq> [] \<and> length (last ps) < mps"
    using write_frame_bytes [OF _ assms(2)] by blast
  then show ?thesis using ok by (simp add: handler_ok_def)
qed

theorem queued_packets_are_sent_witness:
  "length (channel (handle_all [(10, DeviceAddr 1 2 3 4 5 6, 0, sample_payload)] handler_new)) \<le> CHANNEL_SIZE"
  using queued_packets_are_sent [of "[(10, DeviceAddr 1 2 3 4 5 6, 0, sample_payload)]" 64 "\<lambda>_. 0" 12] by simp

end
