(* ===== verification/Sensor.thy ===== *)
theory Sensor
  imports SeqCounter Observation
begin

text \<open>\<open>src/firmware/sensor/src/packet_builder.rs\<close>, \<open>sensors.rs\<close>, \<open>sensors/battery.rs\<close> and
  \<open>sensors/sht4x.rs\<close>: from the analogue readings to the advertised packet.\<close>

section \<open>Battery\<close>

text \<open>The arithmetic is that of \<open>u32\<close>; \<open>raw\<close> is the sample of the converter, \<open>as u16\<close> truncates.\<close>

definition battery_measure :: "i16 \<Rightarrow> u32 \<Rightarrow> millivolts" where
  "battery_measure sample battery_divider_ratio =
     (let raw = (if sint sample < 0 then 0 else ucast sample) :: u32;
          battery_mv = raw * (3600 * battery_divider_ratio) div 4096
      in Millivolts (ucast battery_mv))"

lemma sint_16: "sint (w :: i16) = (uint w + 32768) mod 65536 - 32768"
  using int_word_sint [of "uint w", where ?'a = 16] by simp

lemma sint_of_int_32: "- 2147483648 \<le> x \<Longrightarrow> x < 2147483648 \<Longrightarrow> sint (word_of_int x :: 32 word) = x"
  using int_word_sint [of x, where ?'a = 32] by simp

lemma sint_of_int_16: "- 32768 \<le> x \<Longrightarrow> x < 32768 \<Longrightarrow> sint (word_of_int x :: i16) = x"
  using int_word_sint [of x, where ?'a = 16] by simp

lemma sint_nonneg_16:
  assumes "0 \<le> sint (w :: i16)"
  shows "int (unat w) = sint w"
proof -
  have u: "uint w < 65536" "0 \<le> uint w" using uint_bounded [of w] by simp_all
  have "uint w < 32768"
  proof (rule ccontr)
    assume "\<not> uint w < 32768"
    then have "(uint w + 32768) mod 65536 = uint w - 32768"
      using mod_add_self2 [of "uint w - 32768" 65536] u by (simp add: mod_pos_pos_trivial add.commute)
    then show False using assms u unfolding sint_16 by simp
  qed
  then show ?thesis using u unfolding sint_16 by (simp add: mod_pos_pos_trivial)
qed

lemma battery_measure_exact:
  assumes "0 \<le> sint sample" "sint sample \<le> 4095" "unat ratio \<le> 5"
  shows "\<exists>mv. battery_measure sample ratio = Millivolts mv
     \<and> unat mv = nat (sint sample) * (3600 * unat ratio) div 4096 \<and> unat mv \<le> 18000"
proof -
  let ?raw = "ucast sample :: u32"
  have s: "unat sample = nat (sint sample)" "unat sample \<le> 4095"
    using sint_nonneg_16 [OF assms(1)] assms(2) by (metis nat_int, linarith)
  have raw: "unat ?raw = unat sample"
    using s by (simp add: unsigned_ucast_eq take_bit_nat_eq_self)
  have m1: "3600 * unat ratio \<le> 18000" using assms(3) by simp
  then have r: "unat (3600 * ratio) = 3600 * unat ratio"
    by (simp add: unat_word_ariths)
  have m2: "unat sample * (3600 * unat ratio) \<le> 4095 * 18000"
    using s(2) m1 by (rule mult_le_mono)
  then have p: "unat (?raw * (3600 * ratio)) = unat sample * (3600 * unat ratio)"
    unfolding unat_word_ariths(2) [of ?raw] raw r by simp
  then have d: "unat (?raw * (3600 * ratio) div 4096) = unat sample * (3600 * unat ratio) div 4096"
    by (simp add: unat_div_distrib)
  have le: "unat sample * (3600 * unat ratio) div 4096 \<le> 18000"
    using div_le_mono [OF m2, of 4096] by simp
  have "unat (ucast (?raw * (3600 * ratio) div 4096) :: u16) = unat sample * (3600 * unat ratio) div 4096"
    using le by (simp add: unsigned_ucast_eq take_bit_nat_eq_self d)
  then show ?thesis
    using assms(1) s le by (simp add: battery_measure_def Let_def not_less)
qed

section \<open>Temperature and humidity\<close>

text \<open>What the \<open>sht4x\<close> driver's measurement converts to: milli-degrees and milli-percent, \<open>i32\<close>.
  \<open>i32\<close> arithmetic wraps; division truncates towards zero.\<close>

definition i32_div :: "32 word \<Rightarrow> int \<Rightarrow> 32 word" where
  "i32_div a b = word_of_int (sint a sdiv b)"

definition clamp :: "int \<Rightarrow> int \<Rightarrow> int \<Rightarrow> int" where
  "clamp lo hi x = (if x < lo then lo else if x > hi then hi else x)"

record readings =
  r_temperature :: centi_celsius
  r_relative_humidity :: centi_percent

definition readings_from :: "32 word \<Rightarrow> 32 word \<Rightarrow> readings" where
  "readings_from milli_celsius milli_percent =
     (let t = i32_div (if 0 \<le> sint milli_celsius then milli_celsius + 5 else milli_celsius - 5) 10;
          temp_cdegc = word_of_int (clamp (- 4500) 13000 (sint t)) :: i16;
          rh = i32_div (word_of_int (clamp 0 100000 (sint milli_percent)) + 5) 10;
          rh_cpercent = ucast rh :: u16
      in \<lparr>r_temperature = CentiCelsius temp_cdegc, r_relative_humidity = CentiPercent rh_cpercent\<rparr>)"

lemma sdiv_10: "x sdiv 10 = (if x < 0 then - ((- x) div 10) else x div (10 :: int))"
  by (auto simp: signed_divide_int_def sgn_if)

lemma i32_div_small:
  "- 2147483648 \<le> x \<Longrightarrow> x < 2147483648 \<Longrightarrow> sint (i32_div (word_of_int x) 10) = x sdiv 10"
  by (simp add: i32_div_def sint_of_int_32, subst sint_of_int_32) (auto simp: sdiv_10)

lemma word_of_int_5: "word_of_int x + 5 = (word_of_int (x + 5) :: 32 word)"
  "word_of_int x - 5 = (word_of_int (x - 5) :: 32 word)"
  by (simp_all add: wi_hom_syms)

lemma sint_word_of_sint: "word_of_int (sint (w :: 32 word)) = w"
  by simp

text \<open>Rounding to centi-degrees is to the nearest, half away from zero, for every reading the
  \<open>i32\<close> can round without overflow; the result is clamped to the sensor's range.\<close>

lemma temperature_rounded:
  assumes "- 2147483643 \<le> sint mc" "sint mc \<le> 2147483642"
  shows "\<exists>t. r_temperature (readings_from mc mp) = CentiCelsius t
     \<and> sint t = clamp (- 4500) 13000 (if 0 \<le> sint mc then (sint mc + 5) div 10 else - ((5 - sint mc) div 10))"
proof -
  define x where "x = sint mc"
  have mc: "mc + 5 = word_of_int (x + 5)" "mc - 5 = word_of_int (x - 5)"
    by (simp_all add: x_def)
  have x: "- 2147483643 \<le> x" "x \<le> 2147483642" using assms by (simp_all add: x_def)
  have "sint (i32_div (if 0 \<le> x then mc + 5 else mc - 5) 10)
      = (if 0 \<le> x then (x + 5) div 10 else - ((5 - x) div 10))"
    using x unfolding mc by (auto simp: i32_div_small sdiv_10 simp del: of_int_add of_int_diff)
  moreover have "sint (word_of_int (clamp (- 4500) 13000 y) :: i16) = clamp (- 4500) 13000 y" for y
    by (rule sint_of_int_16) (auto simp: clamp_def)
  ultimately show ?thesis
    by (simp add: readings_from_def Let_def x_def)
qed

lemma humidity_rounded:
  "\<exists>rh. r_relative_humidity (readings_from mc mp) = CentiPercent rh
     \<and> uint rh = (clamp 0 100000 (sint mp) + 5) div 10 \<and> uint rh \<le> 10000"
proof -
  define h where "h = clamp 0 100000 (sint mp)"
  have h: "0 \<le> h" "h \<le> 100000" by (auto simp: h_def clamp_def)
  have "i32_div (word_of_int h + 5) 10 = word_of_int ((h + 5) div 10)"
    using h unfolding word_of_int_5 i32_div_def by (simp add: sint_of_int_32 sdiv_10 del: of_int_add)
  moreover have "uint (ucast (word_of_int ((h + 5) div 10) :: 32 word) :: u16) = (h + 5) div 10"
    using h by (simp add: unsigned_ucast_eq uint_word_of_int take_bit_int_eq_self)
  ultimately show ?thesis
    using h by (simp add: readings_from_def Let_def h_def [symmetric])
qed

section \<open>One measurement cycle\<close>

text \<open>The sensor rail as the drop guard drives it: the pin's level during the cycle and after.\<close>

datatype sht_error = Bus | Timeout

record rail =
  rail_pin :: "bool option"

definition rail_enable :: "rail \<Rightarrow> rail" where
  "rail_enable r = r\<lparr>rail_pin := map_option (\<lambda>_. True) (rail_pin r)\<rparr>"

definition rail_drop :: "rail \<Rightarrow> rail" where
  "rail_drop r = r\<lparr>rail_pin := map_option (\<lambda>_. False) (rail_pin r)\<rparr>"

text \<open>\<open>settle\<close>: the time to wait for, when there is a rail.\<close>

definition rail_settle :: "rail \<Rightarrow> nat \<Rightarrow> nat \<Rightarrow> nat option" where
  "rail_settle r enabled_at duration =
     (case rail_pin r of None \<Rightarrow> None | Some _ \<Rightarrow> Some (enabled_at + duration))"

definition SHT4X_POWER_UP_MS :: nat where "SHT4X_POWER_UP_MS = 10"

text \<open>The measurements of a cycle, from the battery sample and the outcome of the bus transfer; the
  rail is high while \<open>sample\<close> and \<open>sht\<close> read it.\<close>

definition measure_sensors ::
  "(rail \<Rightarrow> i16) \<Rightarrow> u32 \<Rightarrow> (rail \<Rightarrow> sht_error + (32 word \<times> 32 word)) \<Rightarrow> rail \<Rightarrow> measurement list \<times> rail" where
  "measure_sensors sample ratio sht pwr =
     (let rail_on = rail_enable pwr;
          battery = Battery (battery_measure (sample rail_on) ratio);
          ms = (case sht rail_on of
                  Inr (mc, mp) \<Rightarrow>
                    (let r = readings_from mc mp in
                     [battery, Temperature (r_temperature r), Humidity (r_relative_humidity r)])
                | Inl _ \<Rightarrow> [battery])
      in (ms, rail_drop rail_on))"

lemma measure_kinds:
  "distinct (map kind (fst (measure_sensors sample ratio sht pwr)))"
  "fst (measure_sensors sample ratio sht pwr) \<noteq> []"
  "length (fst (measure_sensors sample ratio sht pwr)) \<le> VARIANT_COUNT"
  by (auto simp: measure_sensors_def Let_def VARIANT_COUNT_def split: sum.splits)

section \<open>The packet builder\<close>

record packet_builder =
  pb_counter :: seq_counter
  pb_cipher :: packet_cipher

datatype 'e builder_error = BuilderFlash "'e abort" | BuilderEncode packet_encode_error

definition build_packet ::
  "aead \<Rightarrow> 'e flash_env \<Rightarrow> measurement list \<Rightarrow> packet_builder \<Rightarrow> u32 list
     \<Rightarrow> ('e builder_error + bytes) \<times> packet_builder \<times> u32 list" where
  "build_packet A env ms b f =
     (let buffer = replicate MAX_AIR_LEN 0 in
      case seq_next env (pb_counter b) f of
        (Inl a, c', f') \<Rightarrow> (Inl (BuilderFlash a), b\<lparr>pb_counter := c'\<rparr>, f')
      | (Inr seq, c', f') \<Rightarrow>
         (case packet_encode_air A seq ms buffer (pb_cipher b) of
            (Inl e, _) \<Rightarrow> (Inl (BuilderEncode e), b\<lparr>pb_counter := c'\<rparr>, f')
          | (Inr buffer_len, buffer') \<Rightarrow> (Inr (take buffer_len buffer'), b\<lparr>pb_counter := c'\<rparr>, f')))"

lemma encode_air_fits:
  assumes "aead_ok A" "length ms \<le> 3"
  shows "\<exists>ct tag. sealed_body A c seq (body_image ms) = Some (ct, tag)
     \<and> (\<exists>buf. packet_encode_air A seq ms (replicate MAX_AIR_LEN 0) c = (Inr (23 + 3 * length ms), buf)
          \<and> take (23 + 3 * length ms) buf = AIR_MAGIC @ packet_bytes V1_VERSION seq ct tag)"
proof -
  obtain ct tag where s: "sealed_body A c seq (body_image ms) = Some (ct, tag)"
    using aead_seal_small [OF assms(1), of "body_image ms"] assms(2) unfolding sealed_body_def by fastforce
  note l = sealed_body_lengths [OF assms(1) s]
  have len: "length (packet_bytes V1_VERSION seq ct tag) = 21 + 3 * length ms"
    using l by (simp add: packet_bytes_def)
  have fits: "21 + 3 * length ms \<le> length (replicate 30 (0 :: byte))" using assms(2) by simp
  have "packet_encode_air A seq ms (replicate MAX_AIR_LEN 0) c
      = (Inr (23 + 3 * length ms), AIR_MAGIC @ put_at 0 (packet_bytes V1_VERSION seq ct tag) (replicate 30 0))"
    using packet_encode_fits [OF assms(1) fits s]
    by (simp add: packet_encode_air_def packet_consts split_chunk_def)
  then show ?thesis
    using s len by (auto simp: AIR_MAGIC_def put_at_def numeral_eq_Suc)
qed

lemma build_packet_Inr:
  assumes "aead_ok A" "length ms \<le> 3" "seq_next env (pb_counter b) f = (Inr seq, c', f')"
  shows "\<exists>ct tag. sealed_body A (pb_cipher b) seq (body_image ms) = Some (ct, tag)
     \<and> build_packet A env ms b f
         = (Inr (AIR_MAGIC @ packet_bytes V1_VERSION seq ct tag), b\<lparr>pb_counter := c'\<rparr>, f')"
  using encode_air_fits [OF assms(1,2), of "pb_cipher b" seq] assms(3)
  by (auto simp: build_packet_def Let_def)

lemma cycle_packet:
  assumes "aead_ok A" "seq_next env (pb_counter b) f = (Inr seq, c', f')"
    and "measure_sensors sample ratio sht pwr = (ms, pwr')"
  shows "\<exists>bs p body. build_packet A env ms b f = (Inr bs, b\<lparr>pb_counter := c'\<rparr>, f')
    \<and> length bs \<le> MAX_AIR_LEN \<and> strip_air_magic bs = Inr body \<and> packet_parse body = Inr p \<and> pkt_seq p = seq
    \<and> packet_decode A (pb_cipher b) p = Inr (metrics_of ms)"
proof -
  have k: "distinct (map kind ms)" "ms \<noteq> []"
    using measure_kinds(1,2) [of sample ratio sht pwr] assms(3) by simp_all
  have l: "length ms \<le> 3" using k(1) by (rule distinct_kinds_length)
  obtain ct tag where s: "sealed_body A (pb_cipher b) seq (body_image ms) = Some (ct, tag)"
    and e: "build_packet A env ms b f = (Inr (AIR_MAGIC @ packet_bytes V1_VERSION seq ct tag), b\<lparr>pb_counter := c'\<rparr>, f')"
    using build_packet_Inr [OF assms(1) l assms(2)] by blast
  have p: "packet_parse (packet_bytes V1_VERSION seq ct tag) = Inr \<lparr>pkt_ver = V1_VERSION, pkt_seq = seq, pkt_body = ct @ tag\<rparr>"
    by (simp add: packet_parse_Inr_iff packet_bytes_def)
  have len: "length (AIR_MAGIC @ packet_bytes V1_VERSION seq ct tag) \<le> MAX_AIR_LEN"
    using sealed_body_lengths [OF assms(1) s] l by (simp add: packet_bytes_def packet_consts)
  show ?thesis
    using e p len packet_decode_sealed [OF assms(1) s k(2,1)] by (auto simp: strip_air_magic_Inr_iff)
qed

section \<open>Properties\<close>

text \<open>For a converter sample within its 12 bit range and a divider ratio of at most 5, the battery
  voltage is the exact quotient: no intermediate value of the \<open>u32\<close> arithmetic overflows and the
  result fits its 16 bits; a negative sample reads as zero.\<close>

theorem battery_voltage_exact:
  assumes "sint sample \<le> 4095" "unat ratio \<le> 5"
  shows "\<exists>mv. battery_measure sample ratio = Millivolts mv
    \<and> unat mv = nat (sint sample) * (3600 * unat ratio) div 4096 \<and> unat mv \<le> 18000"
proof (cases "0 \<le> sint sample")
  case True
  then show ?thesis using battery_measure_exact [OF _ assms] by simp
next
  case False
  then show ?thesis by (simp add: battery_measure_def)
qed

theorem battery_voltage_exact_witness:
  "\<exists>mv. battery_measure 3413 1 = Millivolts mv \<and> unat mv = 2999 \<and> unat mv \<le> 18000"
  using battery_voltage_exact [of 3413 1] by simp

text \<open>Temperature and humidity are rounded to hundredths, half away from zero, and clamped to the
  sensor's range, for every reading that rounding does not overflow.\<close>

theorem readings_rounded:
  assumes "- 2147483643 \<le> sint mc" "sint mc \<le> 2147483642"
  shows "\<exists>t rh. readings_from mc mp = \<lparr>r_temperature = CentiCelsius t, r_relative_humidity = CentiPercent rh\<rparr>
    \<and> sint t = clamp (- 4500) 13000 (if 0 \<le> sint mc then (sint mc + 5) div 10 else - ((5 - sint mc) div 10))
    \<and> uint rh = (clamp 0 100000 (sint mp) + 5) div 10 \<and> uint rh \<le> 10000"
  using temperature_rounded [OF assms, of mp] humidity_rounded [of mc mp]
  by (cases "readings_from mc mp") auto

theorem readings_rounded_witness:
  "\<exists>t rh. readings_from (- 15) 45678 = \<lparr>r_temperature = CentiCelsius t, r_relative_humidity = CentiPercent rh\<rparr>
    \<and> sint t = - 2 \<and> uint rh = 4568 \<and> uint rh \<le> 10000"
  using readings_rounded [of "- 15" 45678] by (simp add: clamp_def)

text \<open>Every measurement cycle in which a sequence number is issued yields a packet: the buffer is
  never too small and the cipher never refuses, whether the sensor on the bus answers or not. The
  packet parses, carries that number, decodes under the builder's cipher to the measurements taken,
  and the sensor rail is low again afterwards.\<close>

theorem cycle_yields_packet:
  assumes "aead_ok A" "seq_next env (pb_counter b) f = (Inr seq, c', f')"
    and "measure_sensors sample ratio sht pwr = (ms, pwr')"
  shows "\<exists>bs p body. build_packet A env ms b f = (Inr bs, b\<lparr>pb_counter := c'\<rparr>, f')
    \<and> length bs \<le> MAX_AIR_LEN \<and> strip_air_magic bs = Inr body \<and> packet_parse body = Inr p \<and> pkt_seq p = seq
    \<and> packet_decode A (pb_cipher b) p = Inr (metrics_of ms)
    \<and> (rail_pin pwr' = Some False \<or> rail_pin pwr = None)"
proof -
  have r: "rail_pin pwr' = Some False \<or> rail_pin pwr = None"
    using assms(3) by (cases "rail_pin pwr") (auto simp: measure_sensors_def Let_def rail_drop_def rail_enable_def)
  show ?thesis using cycle_packet [OF assms] r by blast
qed

definition sample_builder :: packet_builder where
  "sample_builder = \<lparr>pb_counter = \<lparr>next_seq = 5, reserved_until = 1024, next_slot = 1\<rparr>,
     pb_cipher = cipher_new (DeviceKey (replicate 32 1)) (DeviceAddr 1 2 3 4 5 6)\<rparr>"

text \<open>The sample builder issues number 5 from its reservation; a sensor that does not answer leaves the battery.\<close>

lemma sample_next:
  "seq_next working (pb_counter sample_builder) blank_flash
     = (Inr 5, \<lparr>next_seq = 6, reserved_until = 1024, next_slot = 1\<rparr>, blank_flash)"
  by (simp add: seq_next_def sample_builder_def)

lemma battery_alone:
  "measure_sensors (\<lambda>_. 3413) 1 (\<lambda>_. Inl Bus) \<lparr>rail_pin = None\<rparr> = ([Battery (battery_measure 3413 1)], \<lparr>rail_pin = None\<rparr>)"
  by (simp add: measure_sensors_def Let_def rail_enable_def rail_drop_def)

theorem cycle_yields_packet_witness:
  "\<exists>bs p body. build_packet clear_aead working [Battery (battery_measure 3413 1)] sample_builder blank_flash
        = (Inr bs, sample_builder\<lparr>pb_counter := \<lparr>next_seq = 6, reserved_until = 1024, next_slot = 1\<rparr>\<rparr>, blank_flash)
    \<and> length bs \<le> MAX_AIR_LEN \<and> strip_air_magic bs = Inr body \<and> packet_parse body = Inr p \<and> pkt_seq p = 5
    \<and> packet_decode clear_aead (pb_cipher sample_builder) p = Inr (metrics_of [Battery (battery_measure 3413 1)])"
  using cycle_yields_packet [OF clear_aead_ok sample_next battery_alone] by blast

end
