(* ===== verification/HostUtil.thy ===== *)
theory HostUtil
  imports Text_Util
begin

text \<open>\<open>src/host-util/src/env.rs\<close> and \<open>mqtt.rs\<close>, and the configuration records the host
  programs read through them (\<open>src/gateway/src/config.rs\<close>, \<open>src/api/src/config.rs\<close>). An
  \<open>anyhow\<close> error is its chain of messages, outermost first. The environment and the file system
  are functions of the model's arguments.\<close>

type_synonym anyhow = "string list"

section \<open>Environment variables\<close>

datatype var = Present string | NotPresent | NotUnicode

type_synonym environment = "string \<Rightarrow> var"

text \<open>\<open>parse\<close> is the target type's \<open>FromStr\<close>, its error rendered.\<close>

definition env_var_opt :: "(string \<Rightarrow> string + 'a) \<Rightarrow> environment \<Rightarrow> string \<Rightarrow> anyhow + 'a option" where
  "env_var_opt parse env key =
     (case env key of
        Present val \<Rightarrow>
          (case parse val of
             Inr x \<Rightarrow> Inr (Some x)
           | Inl e \<Rightarrow> Inl [key @ '' has invalid value'', e])
      | NotPresent \<Rightarrow> Inr None
      | NotUnicode \<Rightarrow> Inl [key @ '' is not valid unicode''])"

definition env_var_or :: "(string \<Rightarrow> string + 'a) \<Rightarrow> environment \<Rightarrow> string \<Rightarrow> 'a \<Rightarrow> anyhow + 'a" where
  "env_var_or parse env key dflt =
     map_ok (\<lambda>x. case x of Some v \<Rightarrow> v | None \<Rightarrow> dflt) (env_var_opt parse env key)"

definition env_var :: "(string \<Rightarrow> string + 'a) \<Rightarrow> environment \<Rightarrow> string \<Rightarrow> anyhow + 'a" where
  "env_var parse env key =
     bind_result (env_var_opt parse env key) (ok_or [key @ '' not provided''])"

definition parse_string :: "string \<Rightarrow> string + string" where "parse_string s = Inr s"

section \<open>MQTT settings\<close>

record mqtt_credentials =
  cred_username :: string
  cred_password :: string

record mqtt_config =
  mqtt_host :: string
  mqtt_port :: nat
  mqtt_client_id :: string
  mqtt_credentials :: "mqtt_credentials option"

text \<open>A path is its text; \<open>fs\<close> maps it to the file's content, or to the reason it cannot be
  read.\<close>

type_synonym file_system = "string \<Rightarrow> string + string"

definition first_line :: "string \<Rightarrow> string option" where
  "first_line contents = (case str_lines contents of [] \<Rightarrow> None | l # _ \<Rightarrow> Some l)"

definition read_password :: "file_system \<Rightarrow> string \<Rightarrow> anyhow + string" where
  "read_password fs path =
     (case fs path of
        Inl e \<Rightarrow> Inl [''couldn't read MQTT password file: '' @ path, e]
      | Inr contents \<Rightarrow>
          (let password = trim (case first_line contents of Some l \<Rightarrow> l | None \<Rightarrow> []) in
           if password = [] then Inl [''MQTT password file `'' @ path @ ''` is empty'']
           else Inr password))"

definition resolve_credentials ::
  "file_system \<Rightarrow> string option \<Rightarrow> string option \<Rightarrow> anyhow + mqtt_credentials option" where
  "resolve_credentials fs username password_path =
     (case (username, password_path) of
        (None, None) \<Rightarrow> Inr None
      | (Some user, Some path) \<Rightarrow>
          if user = [] then Inl [''MQTT_USERNAME is empty'']
          else if path = [] then Inl [''MQTT_PASSWORD_PATH is empty'']
          else map_ok (\<lambda>p. Some \<lparr>cred_username = user, cred_password = p\<rparr>) (read_password fs path)
      | (Some _, None) \<Rightarrow> Inl [''MQTT_USERNAME is set but MQTT_PASSWORD_PATH is not'']
      | (None, Some _) \<Rightarrow> Inl [''MQTT_PASSWORD_PATH is set but MQTT_USERNAME is not''])"

definition parse_u16 :: "string \<Rightarrow> string + nat" where
  "parse_u16 s = ok_or ''invalid digit found in string'' (parse_uint 65536 s)"

definition mqtt_from_env :: "file_system \<Rightarrow> environment \<Rightarrow> string \<Rightarrow> anyhow + mqtt_config" where
  "mqtt_from_env fs env default_client_id =
     bind_result (env_var parse_string env ''MQTT_HOST'') (\<lambda>host.
     bind_result (env_var_or parse_u16 env ''MQTT_PORT'' 1883) (\<lambda>port.
     bind_result (env_var_or parse_string env ''MQTT_CLIENT_ID'' default_client_id) (\<lambda>client_id.
     bind_result (env_var_opt parse_string env ''MQTT_USERNAME'') (\<lambda>username.
     bind_result (env_var_opt parse_string env ''MQTT_PASSWORD_PATH'') (\<lambda>path.
     bind_result (resolve_credentials fs username path) (\<lambda>credentials.
     Inr \<lparr>mqtt_host = host, mqtt_port = port, mqtt_client_id = client_id,
          mqtt_credentials = credentials\<rparr>))))))"

section \<open>Facts\<close>

lemma resolve_credentials_anonymous:
  "resolve_credentials fs u p = Inr None \<longleftrightarrow> u = None \<and> p = None"
  by (auto simp: resolve_credentials_def split: option.splits)

lemma read_password_Inr:
  "read_password fs path = Inr pw \<Longrightarrow> pw \<noteq> []
     \<and> (\<exists>contents. fs path = Inr contents \<and> pw = trim (case first_line contents of Some l \<Rightarrow> l | None \<Rightarrow> []))"
  by (auto simp: read_password_def Let_def split: sum.splits if_splits)

lemma resolve_credentials_Some:
  "resolve_credentials fs u p = Inr (Some c) \<longleftrightarrow>
     (\<exists>path. u = Some (cred_username c) \<and> p = Some path \<and> cred_username c \<noteq> [] \<and> path \<noteq> []
        \<and> read_password fs path = Inr (cred_password c))"
  by (cases c) (auto simp: resolve_credentials_def split: option.splits)

lemma env_var_opt_None: "env_var_opt parse env key = Inr None \<longleftrightarrow> env key = NotPresent"
  by (auto simp: env_var_opt_def split: var.splits sum.splits)

end
