(* ===== verification/Gateway.thy ===== *)
theory Gateway
  imports HostUtil Topic Observation
begin

text \<open>\<open>src/gateway/src/main.rs\<close> and \<open>config.rs\<close>: from the bytes of the serial port to the
  messages handed to the MQTT client. The JSON rendering of an envelope (\<open>serde_json\<close>) is the
  parameter \<open>to_json\<close>.\<close>

record gateway_config =
  gw_site :: site
  gw_mqtt :: mqtt_config
  gw_receiver_path :: string

definition parse_site :: "string \<Rightarrow> string + site" where
  "parse_site s = map_err site_parse_error_display (site_from_str s)"

definition gateway_from_env :: "file_system \<Rightarrow> environment \<Rightarrow> anyhow + gateway_config" where
  "gateway_from_env fs env =
     bind_result (env_var parse_site env ''SITE'') (\<lambda>site.
     bind_result (mqtt_from_env fs env (''homescope-gateway-'' @ site_str site)) (\<lambda>mqtt.
     bind_result (env_var_or parse_string env ''RECEIVER_PATH'' ''/dev/homescope-receiver'') (\<lambda>path.
     Inr \<lparr>gw_site = site, gw_mqtt = mqtt, gw_receiver_path = path\<rparr>)))"

text \<open>The body of the loop over frames: a payload that is not an observation is skipped.\<close>

definition envelope_of_frame :: "int \<Rightarrow> bytes \<Rightarrow> observation_envelope option" where
  "envelope_of_frame now observation_bytes =
     (case observation_parse observation_bytes of
        Inl _ \<Rightarrow> None
      | Inr ob \<Rightarrow> Some (from_observation ob now))"

text \<open>\<open>mqtt_envelope_sender\<close>: topic and payload of a publish, \<open>QoS 1\<close>, not retained.\<close>

definition publish_of ::
  "(observation_envelope \<Rightarrow> string + bytes) \<Rightarrow> site \<Rightarrow> observation_envelope \<Rightarrow> (string \<times> bytes) option" where
  "publish_of to_json site envelope =
     (let topic = \<lparr>topic_site = site, topic_addr = env_addr envelope\<rparr> in
      case to_json envelope of
        Inl _ \<Rightarrow> None
      | Inr bs \<Rightarrow> Some (topic_display topic, bs))"

text \<open>The frames of a stream read in chunks, each handled at its own time \<open>clock i\<close>.\<close>

definition gateway_envelopes :: "(bytes \<Rightarrow> u16) \<Rightarrow> (nat \<Rightarrow> int) \<Rightarrow> bytes list \<Rightarrow> observation_envelope list" where
  "gateway_envelopes crc clock stream_chunks =
     List.map_filter (\<lambda>(i, payload). envelope_of_frame (clock i) payload)
       (enumerate 0 (fst (feed crc ([], []) stream_chunks)))"

definition gateway_publishes ::
  "(bytes \<Rightarrow> u16) \<Rightarrow> (observation_envelope \<Rightarrow> string + bytes) \<Rightarrow> site \<Rightarrow> (nat \<Rightarrow> int) \<Rightarrow> bytes list
     \<Rightarrow> (string \<times> bytes) list" where
  "gateway_publishes crc to_json site clock stream_chunks =
     List.map_filter (publish_of to_json site) (gateway_envelopes crc clock stream_chunks)"

section \<open>Facts\<close>

lemma envelope_of_image: "envelope_of_frame now (observation_image ob) = Some (from_observation ob now)"
  by (simp add: envelope_of_frame_def observation_parse_image)

lemma decode_all_Nil: "decode_all crc [] = ([], [])"
  by (simp add: decode_all_Incomplete)

lemma feed_frames:
  assumes "concat stream_chunks = concat (map (frame_bytes crc) ps)"
    and "\<forall>p\<in>set ps. length p \<le> MAX_PAYLOAD_LEN"
  shows "feed crc ([], []) stream_chunks = (ps, [])"
  using feed_concat [of crc "[]" "[]" stream_chunks] decode_all_frames [OF assms(2), of crc "[]"]
  by (simp add: assms(1) decode_all_Nil)

lemma map_filter_Some: "(\<And>x. x \<in> set xs \<Longrightarrow> f x = Some (g x)) \<Longrightarrow> List.map_filter f xs = map g xs"
  by (induction xs) (simp_all add: List.map_filter_simps)

lemma gateway_envelopes_payloads:
  assumes "fst (feed crc ([], []) stream_chunks) = map observation_image obs"
  shows "gateway_envelopes crc clock stream_chunks
     = map (\<lambda>(i, ob). from_observation ob (clock i)) (enumerate 0 obs)"
proof -
  have e: "enumerate 0 (map observation_image obs) = map (\<lambda>(i, ob). (i, observation_image ob)) (enumerate 0 obs)"
    by (simp add: enumerate_map_upt enumerate_eq_zip zip_map2)
  show ?thesis
    unfolding gateway_envelopes_def assms e
    by (simp add: List.map_filter_def comp_def case_prod_beta envelope_of_image)
qed

lemma gateway_envelopes_of:
  assumes "concat stream_chunks = concat (map (\<lambda>ob. frame_bytes crc (observation_image ob)) obs)"
    and "\<forall>ob\<in>set obs. observation_ok ob"
  shows "gateway_envelopes crc clock stream_chunks
     = map (\<lambda>(i, ob). from_observation ob (clock i)) (enumerate 0 obs)"
proof (rule gateway_envelopes_payloads)
  have "\<forall>p\<in>set (map observation_image obs). length p \<le> MAX_PAYLOAD_LEN"
    using assms(2) observation.img_max observation_fits_frame by (auto intro: order_trans)
  then show "fst (feed crc ([], []) stream_chunks) = map observation_image obs"
    using assms(1) feed_frames [of stream_chunks crc "map observation_image obs"] by (simp add: comp_def)
qed

section \<open>Properties\<close>

text \<open>The gateway publishes one envelope per frame of an observation, in order, at the topic of its
  site and of the observation's device, with the signal strength and packet unchanged and the
  time of reception set back by the observation's age - however the serial port splits the
  stream.\<close>

theorem gateway_forwards_observations:
  assumes "concat stream_chunks = concat (map (\<lambda>ob. frame_bytes crc (observation_image ob)) obs)"
    and "\<forall>ob\<in>set obs. observation_ok ob" and "\<And>e. to_json e = Inr (render e)"
  shows "gateway_publishes crc to_json site clock stream_chunks
     = map (\<lambda>(i, ob).
         (topic_display \<lparr>topic_site = site, topic_addr = obs_addr ob\<rparr>,
          render \<lparr>env_addr = obs_addr ob, env_rssi = obs_rssi ob,
                  env_received_at = clock i - uint (obs_age_ms ob) * 1000000, env_packet = obs_packet ob\<rparr>))
         (enumerate 0 obs)"
  unfolding gateway_publishes_def gateway_envelopes_of [OF assms(1,2)]
  by (simp add: List.map_filter_def publish_of_def assms(3) from_observation_def comp_def case_prod_beta)

theorem gateway_forwards_observations_witness:
  "gateway_publishes (\<lambda>_. 0) (\<lambda>e. Inr (env_packet e)) (Site ''home'') (\<lambda>_. 9000000)
      [take 3 (frame_bytes (\<lambda>_. 0) (observation_image sample_observation)),
       drop 3 (frame_bytes (\<lambda>_. 0) (observation_image sample_observation))]
   = [(topic_display \<lparr>topic_site = Site ''home'', topic_addr = DeviceAddr 1 2 3 4 5 6\<rparr>, [1, 0, 0, 0, 0])]"
  using gateway_forwards_observations [of "[take 3 (frame_bytes (\<lambda>_. 0) (observation_image sample_observation)),
       drop 3 (frame_bytes (\<lambda>_. 0) (observation_image sample_observation))]" "\<lambda>_. 0" "[sample_observation]"
       "\<lambda>e. Inr (env_packet e)" env_packet "Site ''home''" "\<lambda>_. 9000000"]
  by (simp add: observation_ok_def sample_observation_def MAX_WIRE_LEN_def)

end
