(* ===== verification/ApiKeys.thy ===== *)
theory ApiKeys
  imports HostUtil DeviceAddr DeviceKey
begin

text \<open>\<open>src/api/src/devices/keys.rs\<close>: device keys sealed under a key-encryption key for the
  database, and the file the keys are loaded from. XChaCha20-Poly1305 of the
  \<open>chacha20poly1305\<close> crate is the parameter \<open>xaead\<close>.\<close>

section \<open>Layout\<close>

definition NONCE_SIZE :: nat where "NONCE_SIZE = 24"
definition SEALED_SIZE :: nat where "SEALED_SIZE = DEVICE_KEY_SIZE + 16"
definition VER_OFFSET :: nat where "VER_OFFSET = 0"
definition KEK_VER_OFFSET :: nat where "KEK_VER_OFFSET = VER_OFFSET + 1"
definition NONCE_START :: nat where "NONCE_START = KEK_VER_OFFSET + 1"
definition NONCE_END :: nat where "NONCE_END = NONCE_START + NONCE_SIZE"
definition SEALED_END :: nat where "SEALED_END = NONCE_END + SEALED_SIZE"
definition SEALED_KEY_VERSION :: byte where "SEALED_KEY_VERSION = 1"

lemmas sealed_consts = NONCE_SIZE_def SEALED_SIZE_def VER_OFFSET_def KEK_VER_OFFSET_def NONCE_START_def
  NONCE_END_def SEALED_END_def SEALED_KEY_VERSION_def DEVICE_KEY_SIZE_def

lemma SEALED_END_eq: "SEALED_END = 74" by (simp add: sealed_consts)

section \<open>The cipher the crate provides\<close>

record xaead =
  x_encrypt :: "bytes \<Rightarrow> bytes \<Rightarrow> bytes \<Rightarrow> bytes \<Rightarrow> bytes option"
  x_decrypt :: "bytes \<Rightarrow> bytes \<Rightarrow> bytes \<Rightarrow> bytes \<Rightarrow> bytes option"

text \<open>Documented behaviour: key, nonce, associated data, message; the output is the ciphertext
  followed by a 16 byte tag, and decryption accepts exactly such outputs.\<close>

definition xaead_ok :: "xaead \<Rightarrow> bool" where
  "xaead_ok X \<longleftrightarrow>
     (\<forall>k n a m. length m \<le> 65536 \<longrightarrow> x_encrypt X k n a m \<noteq> None)
   \<and> (\<forall>k n a m c. x_encrypt X k n a m = Some c \<longrightarrow> length c = length m + 16 \<and> x_decrypt X k n a c = Some m)
   \<and> (\<forall>k n a m c. x_decrypt X k n a c = Some m \<longrightarrow> x_encrypt X k n a m = Some c)"

section \<open>Key-encryption keys\<close>

datatype kek = Kek (kek_bytes: bytes)

datatype kek_parse_error = KekInvalidLen nat | InvlidChar

fun kek_parse_error_display :: "kek_parse_error \<Rightarrow> string" where
  "kek_parse_error_display (KekInvalidLen n) =
     ''invalid key length: '' @ show_nat n @ '', should be: '' @ show_nat 32"
| "kek_parse_error_display InvlidChar = ''invalid key format, should be hexadecimal string''"

text \<open>The loop over the two-byte chunks.\<close>

fun kek_pairs :: "string \<Rightarrow> kek_parse_error + bytes" where
  "kek_pairs (h # l # rest) =
     (case from_str_radix_16 256 [h, l] of
        None \<Rightarrow> Inl InvlidChar
      | Some b \<Rightarrow> map_ok (\<lambda>bs. of_nat b # bs) (kek_pairs rest))"
| "kek_pairs _ = Inr []"

definition kek_try_from :: "string \<Rightarrow> kek_parse_error + kek" where
  "kek_try_from value =
     (if length value \<noteq> 64 then Inl (KekInvalidLen (length value)) else map_ok Kek (kek_pairs value))"

record kek_ring =
  ring_keys :: "byte \<Rightarrow> kek option"
  ring_current :: byte

text \<open>One line of the file, comments and blanks removed.\<close>

definition kek_line :: "string \<Rightarrow> string" where
  "kek_line line = trim (case split_once CHR ''#'' line of None \<Rightarrow> line | Some (before, _) \<Rightarrow> before)"

definition parse_u8 :: "string \<Rightarrow> byte option" where
  "parse_u8 s = map_option of_nat (parse_uint 256 s)"

definition at_line :: "nat \<Rightarrow> string" where "at_line n = '' at line: '' @ show_nat n"

text \<open>One turn of the loop: the version and the keys read so far.\<close>

definition kek_ring_line ::
  "nat \<Rightarrow> string \<Rightarrow> byte option \<times> (byte \<Rightarrow> kek option) \<Rightarrow> anyhow + byte option \<times> (byte \<Rightarrow> kek option)" where
  "kek_ring_line line_num raw acc =
     (case acc of (current_ver, keys) \<Rightarrow>
      let line = kek_line raw in
      if line = [] then Inr acc
      else case split_once CHR ''='' line of
        None \<Rightarrow> Inl [''invalid syntax'' @ at_line line_num]
      | Some (key0, val0) \<Rightarrow>
         (let key = trim key0; val = trim val0 in
          if key = ''current'' then
            (if current_ver \<noteq> None
             then Inl [''`current` version defined more than once'' @ at_line line_num]
             else case parse_u8 val of
                    None \<Rightarrow> Inl [''invalid version: `'' @ val @ ''`, should be a proper number'' @ at_line line_num,
                                 ''invalid digit found in string'']
                  | Some version \<Rightarrow> Inr (Some version, keys))
          else
            (case parse_u8 key of
               None \<Rightarrow> Inl [''invalid kek version `'' @ key @ ''`'' @ at_line line_num,
                            ''invalid digit found in string'']
             | Some kek_ver \<Rightarrow>
                (case kek_try_from val of
                   Inl e \<Rightarrow> Inl [''invalid kek'' @ at_line line_num, kek_parse_error_display e]
                 | Inr kek \<Rightarrow>
                     if keys kek_ver \<noteq> None
                     then Inl [''duplicate kek generation '' @ show_nat (unat kek_ver) @ at_line line_num]
                     else Inr (current_ver, keys(kek_ver \<mapsto> kek))))))"

fun kek_ring_lines ::
  "nat \<Rightarrow> string list \<Rightarrow> byte option \<times> (byte \<Rightarrow> kek option) \<Rightarrow> anyhow + byte option \<times> (byte \<Rightarrow> kek option)" where
  "kek_ring_lines line_num [] acc = Inr acc"
| "kek_ring_lines line_num (l # ls) acc =
     (case kek_ring_line line_num l acc of
        Inl e \<Rightarrow> Inl e
      | Inr acc' \<Rightarrow> kek_ring_lines (line_num + 1) ls acc')"

definition kek_ring_parse :: "string \<Rightarrow> anyhow + kek_ring" where
  "kek_ring_parse content =
     (case kek_ring_lines 1 (str_lines content) (None, Map.empty) of
        Inl e \<Rightarrow> Inl e
      | Inr (None, _) \<Rightarrow> Inl [''current version not found in kek file'']
      | Inr (Some current_ver, keys) \<Rightarrow>
          if keys current_ver = None
          then Inl [''there is no key for `current = '' @ show_nat (unat current_ver) @ ''`'']
          else Inr \<lparr>ring_keys = keys, ring_current = current_ver\<rparr>)"

definition kek_ring_load :: "file_system \<Rightarrow> string \<Rightarrow> anyhow + kek_ring" where
  "kek_ring_load fs kek_file =
     (case fs kek_file of
        Inl e \<Rightarrow> Inl [''couldn't load kek file: '' @ kek_file, e]
      | Inr content \<Rightarrow> map_err (\<lambda>e. (''invalid kek file: '' @ kek_file) # e) (kek_ring_parse content))"

definition kek_get :: "kek_ring \<Rightarrow> byte \<Rightarrow> kek option" where
  "kek_get ring v = ring_keys ring v"

text \<open>\<open>get_current\<close> panics when the current generation has no key; \<open>None\<close> here.\<close>

definition kek_get_current :: "kek_ring \<Rightarrow> (byte \<times> kek) option" where
  "kek_get_current ring = map_option (\<lambda>k. (ring_current ring, k)) (ring_keys ring (ring_current ring))"

section \<open>Sealed keys\<close>

datatype sealed_device_key = SealedDeviceKey (sealed_bytes: bytes)

definition sealed_ver :: "sealed_device_key \<Rightarrow> byte" where
  "sealed_ver s = sealed_bytes s ! VER_OFFSET"
definition sealed_kek_ver :: "sealed_device_key \<Rightarrow> byte" where
  "sealed_kek_ver s = sealed_bytes s ! KEK_VER_OFFSET"
definition sealed_nonce :: "sealed_device_key \<Rightarrow> bytes" where
  "sealed_nonce s = take NONCE_SIZE (drop NONCE_START (sealed_bytes s))"
definition sealed_region :: "sealed_device_key \<Rightarrow> bytes" where
  "sealed_region s = take SEALED_SIZE (drop NONCE_END (sealed_bytes s))"

definition sealed_aad :: "byte \<Rightarrow> byte \<Rightarrow> device_addr \<Rightarrow> bytes" where
  "sealed_aad v kek_ver addr = [v, kek_ver] @ addr_bytes addr"

text \<open>\<open>None\<close> is a panic of \<open>get_current\<close> or of \<open>encrypt\<close>.\<close>

definition seal_with_nonce ::
  "xaead \<Rightarrow> kek_ring \<Rightarrow> device_key \<Rightarrow> device_addr \<Rightarrow> bytes \<Rightarrow> sealed_device_key option" where
  "seal_with_nonce X ring dek addr nonce =
     (case kek_get_current ring of
        None \<Rightarrow> None
      | Some (kek_ver, kek) \<Rightarrow>
         (case x_encrypt X (kek_bytes kek) nonce (sealed_aad SEALED_KEY_VERSION kek_ver addr) (key_bytes dek) of
            None \<Rightarrow> None
          | Some sealed \<Rightarrow>
              (let buf = replicate SEALED_END 0;
                   buf = buf[VER_OFFSET := SEALED_KEY_VERSION];
                   buf = buf[KEK_VER_OFFSET := kek_ver];
                   buf = put_at NONCE_START nonce buf;
                   buf = put_at NONCE_END sealed buf
               in Some (SealedDeviceKey buf))))"

datatype open_error = OpenAuthentication | KekNotLoaded byte

definition sealed_open ::
  "xaead \<Rightarrow> sealed_device_key \<Rightarrow> kek_ring \<Rightarrow> device_addr \<Rightarrow> open_error + device_key" where
  "sealed_open X s ring addr =
     (let kek_ver = sealed_kek_ver s in
      case kek_get ring kek_ver of
        None \<Rightarrow> Inl (KekNotLoaded kek_ver)
      | Some kek \<Rightarrow>
         (case x_decrypt X (kek_bytes kek) (sealed_nonce s) (sealed_aad (sealed_ver s) kek_ver addr) (sealed_region s) of
            None \<Rightarrow> Inl OpenAuthentication
          | Some key \<Rightarrow> Inr (DeviceKey key)))"

datatype sealed_parse_error = SealedInvalidLen nat | SealedUnsupportedVersion byte

definition sealed_try_from :: "bytes \<Rightarrow> sealed_parse_error + sealed_device_key" where
  "sealed_try_from value =
     (if length value \<noteq> SEALED_END then Inl (SealedInvalidLen (length value))
      else let v = value ! VER_OFFSET in
        if v \<noteq> SEALED_KEY_VERSION then Inl (SealedUnsupportedVersion v) else Inr (SealedDeviceKey value))"

datatype key_fault =
    KeyMissing
  | KeyInvalid sealed_parse_error
  | KekUnavailable byte
  | Unopenable open_error

definition open_key_column ::
  "xaead \<Rightarrow> bytes option \<Rightarrow> device_addr \<Rightarrow> kek_ring \<Rightarrow> key_fault + device_key" where
  "open_key_column X column addr ring =
     (case column of
        None \<Rightarrow> Inl KeyMissing
      | Some raw_key \<Rightarrow>
         (case sealed_try_from raw_key of
            Inl e \<Rightarrow> Inl (KeyInvalid e)
          | Inr sealed \<Rightarrow>
              map_err (\<lambda>err. case err of KekNotLoaded v \<Rightarrow> KekUnavailable v
                                       | OpenAuthentication \<Rightarrow> Unopenable OpenAuthentication)
                (sealed_open X sealed ring addr)))"

section \<open>Facts\<close>

definition ring_ok :: "kek_ring \<Rightarrow> bool" where
  "ring_ok r = (ring_keys r (ring_current r) \<noteq> None \<and> (\<forall>v k. ring_keys r v = Some k \<longrightarrow> length (kek_bytes k) = 32))"

lemma kek_pairs_length: "kek_pairs s = Inr bs \<Longrightarrow> length bs = length s div 2"
  by (induction s arbitrary: bs rule: kek_pairs.induct) (auto split: option.splits)

lemma kek_try_from_length: "kek_try_from s = Inr k \<Longrightarrow> length (kek_bytes k) = 32"
  by (auto simp: kek_try_from_def dest: kek_pairs_length split: if_splits)

lemma kek_ring_line_keys:
  assumes "kek_ring_line n l (cur, keys) = Inr (cur', keys')"
    and "\<forall>v k. keys v = Some k \<longrightarrow> length (kek_bytes k) = 32"
  shows "\<forall>v k. keys' v = Some k \<longrightarrow> length (kek_bytes k) = 32"
  using assms kek_try_from_length
  by (auto simp: kek_ring_line_def Let_def split: if_splits option.splits prod.splits sum.splits)

lemma kek_ring_lines_keys:
  assumes "kek_ring_lines n ls (cur, keys) = Inr (cur', keys')"
    and "\<forall>v k. keys v = Some k \<longrightarrow> length (kek_bytes k) = 32"
  shows "\<forall>v k. keys' v = Some k \<longrightarrow> length (kek_bytes k) = 32"
  using assms
proof (induction ls arbitrary: n cur keys)
  case (Cons l ls)
  then obtain cur1 keys1 where l: "kek_ring_line n l (cur, keys) = Inr (cur1, keys1)"
    "kek_ring_lines (n + 1) ls (cur1, keys1) = Inr (cur', keys')"
    by (auto split: sum.splits)
  show ?case by (rule Cons.IH [OF l(2) kek_ring_line_keys [OF l(1) Cons.prems(2)]])
qed auto

lemma kek_ring_parse_ok: "kek_ring_parse content = Inr r \<Longrightarrow> ring_ok r"
  using kek_ring_lines_keys [of 1 "str_lines content" None Map.empty]
  by (auto simp: kek_ring_parse_def ring_ok_def split: sum.splits option.splits if_splits)

lemma xaead_laws:
  shows "xaead_ok X \<Longrightarrow> length m \<le> 65536 \<Longrightarrow> \<exists>c. x_encrypt X k n a m = Some c"
    and "xaead_ok X \<Longrightarrow> x_encrypt X k n a m = Some c \<Longrightarrow> length c = length m + 16"
    and "xaead_ok X \<Longrightarrow> x_encrypt X k n a m = Some c \<Longrightarrow> x_decrypt X k n a c = Some m"
    and "xaead_ok X \<Longrightarrow> x_decrypt X k n a c = Some m \<Longrightarrow> x_encrypt X k n a m = Some c"
  unfolding xaead_ok_def by blast+

lemma seal_bytes:
  assumes "xaead_ok X" "ring_ok ring" "key_ok dek" "length nonce = NONCE_SIZE"
  shows "\<exists>kek sealed. ring_keys ring (ring_current ring) = Some kek
     \<and> x_encrypt X (kek_bytes kek) nonce (sealed_aad SEALED_KEY_VERSION (ring_current ring) addr) (key_bytes dek) = Some sealed
     \<and> length sealed = 48
     \<and> seal_with_nonce X ring dek addr nonce
         = Some (SealedDeviceKey ([SEALED_KEY_VERSION, ring_current ring] @ nonce @ sealed))"
proof -
  obtain kek where kek: "ring_keys ring (ring_current ring) = Some kek"
    using assms(2) by (auto simp: ring_ok_def)
  have ld: "length (key_bytes dek) = 32" using assms(3) by (simp add: key_ok_def DEVICE_KEY_SIZE_def)
  then obtain sealed where s: "x_encrypt X (kek_bytes kek) nonce (sealed_aad SEALED_KEY_VERSION (ring_current ring) addr)
      (key_bytes dek) = Some sealed"
    using xaead_laws(1) [OF assms(1), of "key_bytes dek"] by fastforce
  then have ls: "length sealed = 48" using xaead_laws(2) [OF assms(1) s] ld by simp
  have "put_at NONCE_END sealed (put_at NONCE_START nonce
      ((replicate SEALED_END 0)[VER_OFFSET := SEALED_KEY_VERSION, KEK_VER_OFFSET := ring_current ring]))
     = [SEALED_KEY_VERSION, ring_current ring] @ nonce @ sealed"
    using assms(4) ls by (simp add: put_at_def sealed_consts numeral_eq_Suc)
  then show ?thesis
    using kek s ls by (simp add: seal_with_nonce_def kek_get_current_def Let_def)
qed

lemma sealed_parts:
  assumes "length nonce = NONCE_SIZE" "length sealed = 48"
  shows "sealed_ver (SealedDeviceKey ([v, w] @ nonce @ sealed)) = v"
    "sealed_kek_ver (SealedDeviceKey ([v, w] @ nonce @ sealed)) = w"
    "sealed_nonce (SealedDeviceKey ([v, w] @ nonce @ sealed)) = nonce"
    "sealed_region (SealedDeviceKey ([v, w] @ nonce @ sealed)) = sealed"
  using assms
  by (simp_all add: sealed_ver_def sealed_kek_ver_def sealed_nonce_def sealed_region_def sealed_consts
      numeral_eq_Suc)

lemma open_seal:
  assumes "xaead_ok X" "ring_ok ring" "key_ok dek" "length nonce = NONCE_SIZE"
    and "ring_keys ring' (ring_current ring) = ring_keys ring (ring_current ring)"
  shows "\<exists>s. seal_with_nonce X ring dek addr nonce = Some s
     \<and> sealed_try_from (sealed_bytes s) = Inr s \<and> sealed_open X s ring' addr = Inr dek"
proof -
  obtain kek sealed where k: "ring_keys ring (ring_current ring) = Some kek"
    "x_encrypt X (kek_bytes kek) nonce (sealed_aad SEALED_KEY_VERSION (ring_current ring) addr) (key_bytes dek) = Some sealed"
    "length sealed = 48"
    "seal_with_nonce X ring dek addr nonce
       = Some (SealedDeviceKey ([SEALED_KEY_VERSION, ring_current ring] @ nonce @ sealed))"
    using seal_bytes [OF assms(1-4)] by blast
  let ?s = "SealedDeviceKey ([SEALED_KEY_VERSION, ring_current ring] @ nonce @ sealed)"
  have "x_decrypt X (kek_bytes kek) nonce (sealed_aad SEALED_KEY_VERSION (ring_current ring) addr) sealed
      = Some (key_bytes dek)"
    by (rule xaead_laws(3) [OF assms(1) k(2)])
  then have "sealed_open X ?s ring' addr = Inr dek"
    using k(1) assms(5) by (simp add: sealed_open_def Let_def kek_get_def sealed_parts [OF assms(4) k(3)]
        del: append_Cons append_Nil)
  moreover have "sealed_try_from (sealed_bytes ?s) = Inr ?s"
    using assms(4) k(3) by (simp add: sealed_try_from_def sealed_consts)
  ultimately show ?thesis using k(4) by blast
qed

section \<open>Properties\<close>

text \<open>A cipher for the witnesses: the message in the clear, then sixteen zeros.\<close>

definition clear_xaead :: xaead where
  "clear_xaead = \<lparr>x_encrypt = \<lambda>k n a m. Some (m @ replicate 16 0),
     x_decrypt = \<lambda>k n a c. if 16 \<le> length c \<and> drop (length c - 16) c = replicate 16 0
                            then Some (take (length c - 16) c) else None\<rparr>"

lemma clear_xaead_ok: "xaead_ok clear_xaead"
proof -
  have "c = take (length c - 16) c @ replicate 16 0" if "drop (length c - 16) c = replicate 16 0" for c :: bytes
    using that by (metis append_take_drop_id)
  then show ?thesis
    by (auto simp: xaead_ok_def clear_xaead_def)
qed

text \<open>A key ring the parser accepts can seal: its current generation has a key, and every key in
  it is 32 bytes, so \<open>get_current\<close> never panics on a loaded ring.\<close>

theorem parsed_ring_can_seal:
  assumes "kek_ring_parse content = Inr ring" "xaead_ok X" "key_ok dek" "length iv = NONCE_SIZE"
  shows "(\<exists>kek. kek_get_current ring = Some (ring_current ring, kek) \<and> length (kek_bytes kek) = 32)
    \<and> (\<forall>v k. ring_keys ring v = Some k \<longrightarrow> length (kek_bytes k) = 32)
    \<and> (\<exists>s. seal_with_nonce X ring dek addr iv = Some s \<and> length (sealed_bytes s) = SEALED_END)"
proof -
  have ok: "ring_ok ring" using kek_ring_parse_ok [OF assms(1)] .
  obtain s where s: "seal_with_nonce X ring dek addr iv = Some s" "sealed_try_from (sealed_bytes s) = Inr s"
    using open_seal [OF assms(2) ok assms(3,4) refl] by blast
  have "length (sealed_bytes s) = SEALED_END" using s(2) by (simp add: sealed_try_from_def split: if_splits)
  then show ?thesis using ok s(1) by (auto simp: ring_ok_def kek_get_current_def)
qed

definition sample_ring_text :: string where
  "sample_ring_text = ''current = 1'' @ [CHR 0x0A] @ ''1 = '' @ replicate 64 CHR ''a''"

lemma sample_ring_parses: "\<exists>ring. kek_ring_parse sample_ring_text = Inr ring"
proof -
  define key where "key = replicate 64 CHR ''a''"
  have key: "graphic (hd key)" "graphic (last key)" "CHR ''='' \<notin> set key" "CHR ''#'' \<notin> set key" "CHR 0x0A \<notin> set key"
    "key \<noteq> []" by (simp_all add: key_def graphic_def)
  have "is_ok (kek_try_from key)" unfolding key_def by code_simp
  then obtain k where k: "kek_try_from key = Inr k" by (auto simp: is_ok_iff)
  have lines: "str_lines sample_ring_text = [''current = 1'', ''1 = '' @ key]"
    unfolding key_def by code_simp
  have "kek_line ''current = 1'' = ''current = 1''" "trim ''current '' = ''current''" "trim '' 1'' = ''1''"
    "parse_u8 ''1'' = Some 1" by code_simp+
  then have one: "kek_ring_line 1 ''current = 1'' (None, Map.empty) = Inr (Some 1, Map.empty)"
    by (simp add: kek_ring_line_def Let_def)
  have "kek_line (''1 = '' @ key) = ''1 = '' @ key"
    using key split_once_None [of "CHR ''#''" "''1 = '' @ key"] by (simp add: kek_line_def trim_graphic graphic_def)
  moreover have "split_once CHR ''='' (''1 = '' @ key) = Some (''1 '', '' '' @ key)" by simp
  moreover have "trim ''1 '' = ''1''" "parse_u8 ''1'' = Some 1" by code_simp+
  moreover have "trim ('' '' @ key) = key" using key by (simp add: trim_space trim_graphic)
  ultimately have "kek_ring_line 2 (''1 = '' @ key) (Some 1, Map.empty) = Inr (Some 1, [1 \<mapsto> k])"
    using k by (simp add: kek_ring_line_def Let_def)
  then show ?thesis using lines one
    by (simp add: kek_ring_parse_def numeral_2_eq_2)
qed
theorem parsed_ring_can_seal_witness:
  "\<exists>ring s. kek_ring_parse sample_ring_text = Inr ring
    \<and> seal_with_nonce clear_xaead ring (DeviceKey (replicate 32 3)) (DeviceAddr 1 2 3 4 5 6) (replicate 24 0) = Some s
    \<and> length (sealed_bytes s) = SEALED_END"
proof -
  obtain ring where r: "kek_ring_parse sample_ring_text = Inr ring" using sample_ring_parses by blast
  have k: "key_ok (DeviceKey (replicate 32 3))" "length (replicate 24 (0 :: byte)) = NONCE_SIZE"
    by (simp_all add: key_ok_def DEVICE_KEY_SIZE_def NONCE_SIZE_def)
  show ?thesis using parsed_ring_can_seal [OF r clear_xaead_ok k, of "DeviceAddr 1 2 3 4 5 6"] r by blast
qed

text \<open>C30: A device key sealed under the current generation of a ring is stored in 74 bytes that parse,
  and opens to itself for the same address under any ring that still holds that generation's key,
  whatever its current generation is; a ring without that generation reports which one is missing.\<close>

theorem sealed_key_opens:
  assumes "xaead_ok X" "ring_ok ring" "key_ok dek" "length iv = NONCE_SIZE"
  shows "\<exists>s. seal_with_nonce X ring dek addr iv = Some s \<and> length (sealed_bytes s) = 74
    \<and> (ring_keys ring' (ring_current ring) = ring_keys ring (ring_current ring)
         \<longrightarrow> open_key_column X (Some (sealed_bytes s)) addr ring' = Inr dek)
    \<and> (ring_keys ring' (ring_current ring) = None
         \<longrightarrow> open_key_column X (Some (sealed_bytes s)) addr ring' = Inl (KekUnavailable (ring_current ring)))"
proof -
  obtain s where s: "seal_with_nonce X ring dek addr iv = Some s" "sealed_try_from (sealed_bytes s) = Inr s"
    using open_seal [OF assms refl] by blast
  have len: "length (sealed_bytes s) = 74"
    using s(2) by (simp add: sealed_try_from_def SEALED_END_eq split: if_splits)
  have "open_key_column X (Some (sealed_bytes s)) addr ring' = Inr dek"
    if "ring_keys ring' (ring_current ring) = ring_keys ring (ring_current ring)"
    using open_seal [OF assms that, of addr] s by (auto simp: open_key_column_def)
  moreover have "sealed_kek_ver s = ring_current ring"
  proof -
    obtain kek sealed where k: "ring_keys ring (ring_current ring) = Some kek" "length sealed = 48"
      "x_encrypt X (kek_bytes kek) iv (sealed_aad SEALED_KEY_VERSION (ring_current ring) addr) (key_bytes dek) = Some sealed"
      using seal_bytes [OF assms] by blast
    have s': "seal_with_nonce X ring dek addr iv
        = Some (SealedDeviceKey ([SEALED_KEY_VERSION, ring_current ring] @ iv @ sealed))"
      using seal_bytes [OF assms, of addr] k by auto
    then show ?thesis using sealed_parts(2) [OF assms(4) k(2)] s(1) by simp
  qed
  then have "open_key_column X (Some (sealed_bytes s)) addr ring' = Inl (KekUnavailable (ring_current ring))"
    if "ring_keys ring' (ring_current ring) = None"
    using that s(2) by (simp add: open_key_column_def sealed_open_def kek_get_def Let_def)
  ultimately show ?thesis using s(1) len by (intro exI [of _ s] conjI impI)
qed

theorem sealed_key_opens_witness:
  "\<exists>s. seal_with_nonce clear_xaead \<lparr>ring_keys = [1 \<mapsto> Kek (replicate 32 9)], ring_current = 1\<rparr>
          (DeviceKey (replicate 32 3)) (DeviceAddr 1 2 3 4 5 6) (replicate 24 0) = Some s
    \<and> open_key_column clear_xaead (Some (sealed_bytes s)) (DeviceAddr 1 2 3 4 5 6)
        \<lparr>ring_keys = [1 \<mapsto> Kek (replicate 32 9), 2 \<mapsto> Kek (replicate 32 8)], ring_current = 2\<rparr>
        = Inr (DeviceKey (replicate 32 3))"
proof -
  let ?r = "\<lparr>ring_keys = [1 \<mapsto> Kek (replicate 32 9)], ring_current = 1\<rparr>"
  let ?r' = "\<lparr>ring_keys = [1 \<mapsto> Kek (replicate 32 9), 2 \<mapsto> Kek (replicate 32 8)], ring_current = 2\<rparr>"
  have k: "ring_ok ?r" "key_ok (DeviceKey (replicate 32 3))" "length (replicate 24 (0 :: byte)) = NONCE_SIZE"
    by (simp_all add: ring_ok_def key_ok_def DEVICE_KEY_SIZE_def NONCE_SIZE_def split: if_splits)
  show ?thesis
    using sealed_key_opens [OF clear_xaead_ok k, of "DeviceAddr 1 2 3 4 5 6" ?r'] by auto
qed

text \<open>The hexadecimal check of a key-encryption key is not strict: 32 pairs of a plus sign and one
  digit are accepted as a key.\<close>

theorem kek_accepts_signed_pairs:
  "kek_try_from (concat (replicate 32 ''+A'')) = Inr (Kek (replicate 32 0x0A))"
  by code_simp

end
