(* ===== verification/ApiStore.thy ===== *)
theory ApiStore
  imports ApiKeys Observation
begin

text \<open>\<open>src/api/src/devices/store.rs\<close>, \<open>summary.rs\<close>, \<open>db.rs\<close> and the DTOs of
  \<open>src/api-types/src/devices.rs\<close>: the two tables, the queries on them, and what the API says of
  a device. The queries are modelled by what their SQL says on the schema of
  \<open>src/api/migrations\<close>; a failing query is a fault given to the operation. A measurement column
  keeps the unit value whose \<open>as_f64\<close> the code stores.\<close>

section \<open>Tables\<close>

record device_row =
  row_addr :: i64
  row_name :: string
  row_key :: "bytes option"
  row_key_valid_from :: int

record reading_row =
  rr_time :: int
  rr_addr :: i64
  rr_seq :: i64
  rr_temp :: "centi_celsius option"
  rr_rh :: "centi_percent option"
  rr_battery :: "millivolts option"
  rr_rssi :: dbm

record database =
  devices_table :: "device_row list"
  readings_table :: "reading_row list"

record device_record =
  rec_addr :: device_addr
  rec_name :: string
  rec_key :: "bytes option"
  rec_key_valid_from :: int

text \<open>\<open>expect\<close> on a value the \<open>CHECK\<close> excludes is a panic: \<open>None\<close>.\<close>

definition device_addr_of :: "i64 \<Rightarrow> device_addr option" where
  "device_addr_of raw = (case addr_try_from_u64 raw of Inr a \<Rightarrow> Some a | Inl _ \<Rightarrow> None)"

definition record_of_row :: "device_row \<Rightarrow> device_record option" where
  "record_of_row row =
     map_option (\<lambda>a. \<lparr>rec_addr = a, rec_name = row_name row, rec_key = row_key row,
                      rec_key_valid_from = row_key_valid_from row\<rparr>) (device_addr_of (row_addr row))"

record device_activity =
  act_record :: device_record
  act_last_seen :: "int option"

text \<open>\<open>SELECT time ... WHERE device_addr = d.device_addr AND time > d.key_valid_from ORDER BY time
  DESC LIMIT 1\<close>.\<close>

definition newest_since :: "reading_row list \<Rightarrow> i64 \<Rightarrow> int \<Rightarrow> int option" where
  "newest_since readings addr since =
     (case map rr_time (filter (\<lambda>r. rr_addr r = addr \<and> rr_time r > since) readings) of
        [] \<Rightarrow> None
      | t # ts \<Rightarrow> Some (fold max ts t))"

definition activity_of_row :: "database \<Rightarrow> device_row \<Rightarrow> device_activity option" where
  "activity_of_row db row =
     map_option (\<lambda>r. \<lparr>act_record = r,
                      act_last_seen = newest_since (readings_table db) (row_addr row) (row_key_valid_from row)\<rparr>)
       (record_of_row row)"

fun all_some :: "'a option list \<Rightarrow> 'a list option" where
  "all_some [] = Some []"
| "all_some (None # xs) = None"
| "all_some (Some x # xs) = map_option (\<lambda>ys. x # ys) (all_some xs)"

definition all_records :: "database \<Rightarrow> device_record list option" where
  "all_records db = all_some (map record_of_row (devices_table db))"

definition all_activity :: "database \<Rightarrow> device_activity list option" where
  "all_activity db = all_some (map (activity_of_row db) (devices_table db))"

definition find_row :: "database \<Rightarrow> i64 \<Rightarrow> device_row option" where
  "find_row db addr = List.find (\<lambda>r. row_addr r = addr) (devices_table db)"

definition activity_by_addr :: "database \<Rightarrow> device_addr \<Rightarrow> device_activity option" where
  "activity_by_addr db addr =
     (case find_row db (addr_as_i64 addr) of None \<Rightarrow> None | Some row \<Rightarrow> activity_of_row db row)"

section \<open>Writes\<close>

text \<open>A database error: the name of the violated constraint, if it is one, and its text.\<close>

datatype sqlx_error = SqlxError (constraint_name: "string option") string | RowNotFound

definition DEVICE_ADDR_PRIMARY_KEY :: string where "DEVICE_ADDR_PRIMARY_KEY = ''devices_pkey''"

fun is_duplicate_device_addr :: "sqlx_error \<Rightarrow> bool" where
  "is_duplicate_device_addr (SqlxError c _) = (c = Some DEVICE_ADDR_PRIMARY_KEY)"
| "is_duplicate_device_addr RowNotFound = False"

datatype insert_device_error = DuplicateDeviceAddr string | InsertDb sqlx_error

record insert_device_args =
  ins_name :: string
  ins_addr :: device_addr
  ins_key :: sealed_device_key

text \<open>The \<open>INSERT\<close> on a table whose primary key is \<open>device_addr\<close>; \<open>now\<close> is the default of
  \<open>key_valid_from\<close>.\<close>

definition sql_insert_device ::
  "sqlx_error option \<Rightarrow> int \<Rightarrow> insert_device_args \<Rightarrow> database \<Rightarrow> (sqlx_error + device_row) \<times> database" where
  "sql_insert_device fault now d db =
     (case fault of
        Some e \<Rightarrow> (Inl e, db)
      | None \<Rightarrow>
         if find_row db (addr_as_i64 (ins_addr d)) \<noteq> None
         then (Inl (SqlxError (Some DEVICE_ADDR_PRIMARY_KEY) ''duplicate key''), db)
         else let row = \<lparr>row_addr = addr_as_i64 (ins_addr d), row_name = ins_name d,
                         row_key = Some (sealed_bytes (ins_key d)), row_key_valid_from = now\<rparr>
              in (Inr row, db\<lparr>devices_table := devices_table db @ [row]\<rparr>))"

text \<open>\<open>insert_device\<close>: between the failed insert and the look-up of the name other sessions may
  write; \<open>others\<close> is what they do. The outer \<open>None\<close> is a panic.\<close>

definition insert_device ::
  "sqlx_error option \<Rightarrow> sqlx_error option \<Rightarrow> (database \<Rightarrow> database) \<Rightarrow> int \<Rightarrow> insert_device_args \<Rightarrow> database
     \<Rightarrow> (insert_device_error + device_record) option \<times> database" where
  "insert_device fault1 fault2 others now d db =
     (case sql_insert_device fault1 now d db of
        (Inr row, db') \<Rightarrow> (map_option Inr (record_of_row row), db')
      | (Inl err, db') \<Rightarrow>
         if is_duplicate_device_addr err then
           (let db'' = others db' in
            case fault2 of
              Some e \<Rightarrow> (Some (Inl (InsertDb e)), db'')
            | None \<Rightarrow>
               (case find_row db'' (addr_as_i64 (ins_addr d)) of
                  None \<Rightarrow> (Some (Inl (InsertDb RowNotFound)), db'')
                | Some row \<Rightarrow> (Some (Inl (DuplicateDeviceAddr (row_name row))), db'')))
         else (Some (Inl (InsertDb err)), db'))"

definition update_key ::
  "sqlx_error option \<Rightarrow> int \<Rightarrow> device_addr \<Rightarrow> sealed_device_key \<Rightarrow> database
     \<Rightarrow> (sqlx_error + device_record option) option \<times> database" where
  "update_key fault now addr key db =
     (case fault of
        Some e \<Rightarrow> (Some (Inl e), db)
      | None \<Rightarrow>
         (case find_row db (addr_as_i64 addr) of
            None \<Rightarrow> (Some (Inr None), db)
          | Some row \<Rightarrow>
             (let row' = row\<lparr>row_key := Some (sealed_bytes key), row_key_valid_from := now\<rparr>;
                  db' = db\<lparr>devices_table := map (\<lambda>r. if row_addr r = addr_as_i64 addr then row' else r) (devices_table db)\<rparr>
              in (map_option (\<lambda>r. Inr (Some r)) (record_of_row row'), db'))))"

text \<open>\<open>INSERT INTO readings ... ON CONFLICT DO NOTHING\<close>, the conflict being that of
  \<open>UNIQUE (device_addr, seq, time)\<close>; \<open>seq as i64\<close> widens.\<close>

definition insert_reading :: "sqlx_error option \<Rightarrow> sensor_reading \<Rightarrow> device_addr \<Rightarrow> database
     \<Rightarrow> (sqlx_error + unit) \<times> database" where
  "insert_reading fault reading addr db =
     (case fault of
        Some e \<Rightarrow> (Inl e, db)
      | None \<Rightarrow>
         (let row = \<lparr>rr_time = rd_received_at reading, rr_addr = addr_as_i64 addr, rr_seq = ucast (rd_seq reading),
                     rr_temp = rd_temperature reading, rr_rh = rd_relative_humidity reading,
                     rr_battery = rd_battery reading, rr_rssi = rd_rssi reading\<rparr> in
          if \<exists>r\<in>set (readings_table db). rr_addr r = rr_addr row \<and> rr_seq r = rr_seq row \<and> rr_time r = rr_time row
          then (Inr (), db)
          else (Inr (), db\<lparr>readings_table := readings_table db @ [row]\<rparr>)))"

section \<open>Summaries\<close>

datatype device_key_status = StatusMissing | StatusInvalid | StatusKekUnavailable | StatusUnopenable | StatusOk | StatusUnknown

record device_summary =
  sum_addr :: device_addr
  sum_name :: string
  sum_key_status :: device_key_status
  sum_key_valid_from :: int
  sum_last_seen :: "int option"

fun status_of_fault :: "key_fault \<Rightarrow> device_key_status" where
  "status_of_fault KeyMissing = StatusMissing"
| "status_of_fault (KeyInvalid _) = StatusInvalid"
| "status_of_fault (KekUnavailable _) = StatusKekUnavailable"
| "status_of_fault (Unopenable _) = StatusUnopenable"

definition classify :: "xaead \<Rightarrow> device_activity \<Rightarrow> kek_ring \<Rightarrow> device_summary" where
  "classify X activity ring =
     (let r = act_record activity in
      \<lparr>sum_addr = rec_addr r, sum_name = rec_name r,
       sum_key_status = (case open_key_column X (rec_key r) (rec_addr r) ring of
                           Inr _ \<Rightarrow> StatusOk | Inl err \<Rightarrow> status_of_fault err),
       sum_key_valid_from = rec_key_valid_from r, sum_last_seen = act_last_seen activity\<rparr>)"

section \<open>Facts\<close>

text \<open>What the schema enforces.\<close>

definition db_ok :: "database \<Rightarrow> bool" where
  "db_ok db \<longleftrightarrow>
     distinct (map row_addr (devices_table db))
   \<and> (\<forall>r\<in>set (devices_table db). \<exists>a. row_addr r = addr_as_i64 a)
   \<and> distinct (map (\<lambda>r. (rr_addr r, rr_seq r, rr_time r)) (readings_table db))"

lemma device_addr_of_i64 [simp]: "device_addr_of (addr_as_i64 a) = Some a"
  by (simp add: device_addr_of_def addr_try_from_as_i64)

lemma find_row_Some: "find_row db a = Some r \<Longrightarrow> r \<in> set (devices_table db) \<and> row_addr r = a"
  by (auto simp: find_row_def find_Some_iff)

lemma find_row_None: "find_row db a = None \<longleftrightarrow> a \<notin> row_addr ` set (devices_table db)"
  by (auto simp: find_row_def find_None_iff)

lemma find_row_iff: "db_ok db \<Longrightarrow> find_row db a = Some r \<longleftrightarrow> r \<in> set (devices_table db) \<and> row_addr r = a"
proof
  assume ok: "db_ok db" and r: "r \<in> set (devices_table db) \<and> row_addr r = a"
  then obtain q where q: "find_row db a = Some q"
    using find_row_None [of db a] by (cases "find_row db a") auto
  then have "q = r" using find_row_Some [OF q] r ok by (auto simp: db_ok_def distinct_map inj_on_def)
  with q show "find_row db a = Some r" by simp
qed (rule find_row_Some)

lemma fold_max_ge: "m \<le> fold max ts m \<and> (\<forall>t\<in>set ts. t \<le> fold max ts (m :: int))
    \<and> (fold max ts m = m \<or> fold max ts m \<in> set ts)"
proof (induction ts arbitrary: m)
  case (Cons t ts)
  show ?case using Cons [of "max t m"] by (auto simp: max_def split: if_splits)
qed simp

lemma newest_since_None:
  "newest_since rs a s = None \<longleftrightarrow> (\<forall>r\<in>set rs. rr_addr r = a \<longrightarrow> rr_time r \<le> s)"
proof -
  define fs where "fs = filter (\<lambda>r. rr_addr r = a \<and> rr_time r > s) rs"
  have "newest_since rs a s = None \<longleftrightarrow> fs = []"
    unfolding newest_since_def fs_def [symmetric] by (cases fs) auto
  also have "\<dots> \<longleftrightarrow> (\<forall>r\<in>set rs. rr_addr r = a \<longrightarrow> rr_time r \<le> s)"
    unfolding fs_def filter_empty_conv by (auto simp: not_less)
  finally show ?thesis .
qed

lemma newest_since_Some:
  assumes "newest_since rs a s = Some t"
  shows "s < t \<and> (\<exists>r\<in>set rs. rr_addr r = a \<and> rr_time r = t) \<and> (\<forall>r\<in>set rs. rr_addr r = a \<longrightarrow> rr_time r \<le> t)"
proof -
  define ts where "ts = map rr_time (filter (\<lambda>r. rr_addr r = a \<and> rr_time r > s) rs)"
  obtain m ms where ts: "ts = m # ms" "t = fold max ms m"
    using assms by (auto simp: newest_since_def ts_def [symmetric] split: list.splits)
  have mem: "x \<in> set ts \<longleftrightarrow> (\<exists>r\<in>set rs. rr_addr r = a \<and> rr_time r = x) \<and> s < x" for x
    by (auto simp: ts_def)
  have t: "t \<in> set ts" "\<forall>x\<in>set ts. x \<le> t"
    using fold_max_ge [of m ms] by (auto simp: ts)
  then have st: "s < t" "\<exists>r\<in>set rs. rr_addr r = a \<and> rr_time r = t" using mem by auto
  moreover have "rr_time r \<le> t" if "r \<in> set rs" "rr_addr r = a" for r
    using that t(2) mem st(1) by (cases "s < rr_time r") auto
  ultimately show ?thesis by blast
qed

lemma db_ok_insert_reading: "db_ok db \<Longrightarrow> db_ok (snd (insert_reading fault rd addr db))"
  by (auto simp: insert_reading_def db_ok_def Let_def split: option.split)

lemma db_ok_update_key: "db_ok db \<Longrightarrow> db_ok (snd (update_key fault now addr key db))"
proof -
  assume ok: "db_ok db"
  have eq: "map row_addr (map (\<lambda>r. if row_addr r = addr_as_i64 addr then row' else r) rs) = map row_addr rs"
    if "row_addr row' = addr_as_i64 addr" for row' :: device_row and rs
    using that by (induction rs) auto
  show ?thesis
  proof (cases "fault = None \<and> find_row db (addr_as_i64 addr) \<noteq> None")
    case True
    then obtain row where row: "find_row db (addr_as_i64 addr) = Some row" by auto
    note r = find_row_Some [OF row]
    show ?thesis
      using True row r ok eq [of "row\<lparr>row_key := Some (sealed_bytes key), row_key_valid_from := now\<rparr>"]
      by (auto simp: update_key_def Let_def db_ok_def simp del: map_map)
  qed (use ok in \<open>auto simp: update_key_def split: option.splits\<close>)
qed

lemma db_ok_insert_device:
  "db_ok db \<Longrightarrow> db_ok (others db) \<Longrightarrow> db_ok (snd (insert_device fault1 fault2 others now d db))"
  using find_row_None [of db "addr_as_i64 (ins_addr d)"]
  by (auto simp: insert_device_def sql_insert_device_def Let_def db_ok_def image_iff split: option.split)

lemma find_row_update_key:
  assumes "db_ok db" "update_key None now addr key db = (Some (Inr (Some rc)), db')"
  shows "find_row db' (addr_as_i64 a) =
     (if a = addr then Some \<lparr>row_addr = addr_as_i64 addr, row_name = rec_name rc,
                             row_key = Some (sealed_bytes key), row_key_valid_from = now\<rparr>
      else find_row db (addr_as_i64 a))"
    "rc = \<lparr>rec_addr = addr, rec_name = rec_name rc, rec_key = Some (sealed_bytes key), rec_key_valid_from = now\<rparr>"
proof -
  obtain row where row: "find_row db (addr_as_i64 addr) = Some row"
    using assms(2) by (auto simp: update_key_def Let_def split: option.splits)
  note r = find_row_Some [OF row]
  let ?row = "row\<lparr>row_key := Some (sealed_bytes key), row_key_valid_from := now\<rparr>"
  have rc: "record_of_row ?row = Some rc"
    and db': "db' = db\<lparr>devices_table := map (\<lambda>r. if row_addr r = addr_as_i64 addr then ?row else r) (devices_table db)\<rparr>"
    using assms(2) row by (auto simp: update_key_def Let_def)
  show rc': "rc = \<lparr>rec_addr = addr, rec_name = rec_name rc, rec_key = Some (sealed_bytes key), rec_key_valid_from = now\<rparr>"
    using rc r by (auto simp: record_of_row_def)
  have name: "rec_name rc = row_name row" using rc r by (auto simp: record_of_row_def)
  have upd: "List.find (\<lambda>r. row_addr r = a) (map (\<lambda>r. if row_addr r = b then q else r) rs)
      = (if a = b then map_option (\<lambda>_. q) (List.find (\<lambda>r. row_addr r = b) rs) else List.find (\<lambda>r. row_addr r = a) rs)"
    if "row_addr q = b" for a b and q :: device_row and rs
    using that by (induction rs) auto
  show "find_row db' (addr_as_i64 a) =
     (if a = addr then Some \<lparr>row_addr = addr_as_i64 addr, row_name = rec_name rc,
                             row_key = Some (sealed_bytes key), row_key_valid_from = now\<rparr>
      else find_row db (addr_as_i64 a))"
    using row r upd [of ?row "addr_as_i64 addr" "addr_as_i64 a" "devices_table db"]
    by (auto simp: find_row_def db' name)
qed

section \<open>Properties\<close>

text \<open>What the API reports as \<open>last_seen\<close> of a device is the newest of its readings later than
  \<open>key_valid_from\<close>, and nothing exactly when there is none; the key status is \<open>Ok\<close> exactly when
  the stored key opens for that device.\<close>

theorem last_seen_newest_under_key:
  assumes "activity_by_addr db addr = Some act" "classify X act ring = s"
  shows "(case sum_last_seen s of
       None \<Rightarrow> \<forall>r\<in>set (readings_table db). rr_addr r = addr_as_i64 addr \<longrightarrow> rr_time r \<le> sum_key_valid_from s
     | Some t \<Rightarrow> sum_key_valid_from s < t
         \<and> (\<exists>r\<in>set (readings_table db). rr_addr r = addr_as_i64 addr \<and> rr_time r = t)
         \<and> (\<forall>r\<in>set (readings_table db). rr_addr r = addr_as_i64 addr \<longrightarrow> rr_time r \<le> t))
   \<and> (sum_key_status s = StatusOk \<longleftrightarrow> (\<exists>key. open_key_column X (rec_key (act_record act)) addr ring = Inr key))
   \<and> sum_addr s = addr"
proof -
  obtain row where row: "find_row db (addr_as_i64 addr) = Some row" and act: "activity_of_row db row = Some act"
    using assms(1) by (auto simp: activity_by_addr_def split: option.splits)
  have ra: "row_addr row = addr_as_i64 addr" using find_row_Some [OF row] by simp
  have r: "rec_addr (act_record act) = addr" "rec_key_valid_from (act_record act) = row_key_valid_from row"
    "act_last_seen act = newest_since (readings_table db) (addr_as_i64 addr) (row_key_valid_from row)"
    using act by (auto simp: activity_of_row_def record_of_row_def ra)
  have st: "sum_key_status s = StatusOk \<longleftrightarrow> (\<exists>key. open_key_column X (rec_key (act_record act)) addr ring = Inr key)"
  proof -
    have "status_of_fault e \<noteq> StatusOk" for e by (cases e) simp_all
    then show ?thesis
      using assms(2) r(1)
      by (cases "open_key_column X (rec_key (act_record act)) addr ring") (auto simp: classify_def Let_def)
  qed
  have s: "sum_last_seen s = act_last_seen act" "sum_key_valid_from s = row_key_valid_from row" "sum_addr s = addr"
    using assms(2) r by (auto simp: classify_def Let_def)
  show ?thesis
  proof (cases "act_last_seen act")
    case None
    then have "\<forall>q\<in>set (readings_table db). rr_addr q = addr_as_i64 addr \<longrightarrow> rr_time q \<le> row_key_valid_from row"
      using r(3) newest_since_None [of "readings_table db" "addr_as_i64 addr" "row_key_valid_from row"] by simp
    then show ?thesis using None s st by simp
  next
    case (Some t)
    then have "newest_since (readings_table db) (addr_as_i64 addr) (row_key_valid_from row) = Some t" using r(3) by simp
    note n = newest_since_Some [OF this]
    show ?thesis using n Some s st by simp
  qed
qed

definition sample_db :: database where
  "sample_db = \<lparr>devices_table = [\<lparr>row_addr = addr_as_i64 (DeviceAddr 1 2 3 4 5 6), row_name = ''attic'', row_key = None,
                                  row_key_valid_from = 100\<rparr>],
     readings_table = [\<lparr>rr_time = 90, rr_addr = addr_as_i64 (DeviceAddr 1 2 3 4 5 6), rr_seq = 1, rr_temp = None,
                        rr_rh = None, rr_battery = None, rr_rssi = Dbm 0\<rparr>]\<rparr>"

theorem last_seen_newest_under_key_witness:
  "\<exists>act. activity_by_addr sample_db (DeviceAddr 1 2 3 4 5 6) = Some act
     \<and> sum_last_seen (classify clear_xaead act \<lparr>ring_keys = Map.empty, ring_current = 1\<rparr>) = None \<and> sum_addr (classify clear_xaead act \<lparr>ring_keys = Map.empty, ring_current = 1\<rparr>) = DeviceAddr 1 2 3 4 5 6"
proof -
  have "\<exists>act. activity_by_addr sample_db (DeviceAddr 1 2 3 4 5 6) = Some act \<and> act_last_seen act = None"
    by (simp add: activity_by_addr_def find_row_def sample_db_def activity_of_row_def record_of_row_def newest_since_def)
  then obtain act where a: "activity_by_addr sample_db (DeviceAddr 1 2 3 4 5 6) = Some act" "act_last_seen act = None"
    by blast
  show ?thesis
    using last_seen_newest_under_key [OF a(1) refl, of clear_xaead "\<lparr>ring_keys = Map.empty, ring_current = 1\<rparr>"] a by (auto simp: classify_def Let_def)
qed

end
