(* ===== verification/ApiTypes.thy ===== *)
theory ApiTypes
  imports ApiStore
begin

text \<open>\<open>src/api-types/src/error.rs\<close>, the JSON forms of \<open>src/api-types/src/devices.rs\<close> the error
  body needs, and \<open>src/api/src/http/error.rs\<close>, \<open>http.rs\<close>, \<open>http/extract.rs\<close>: the error body, its
  code, its typed details, and the responses built from it. JSON values are the type \<open>json\<close>; what a
  derived \<open>Serialize\<close>/\<open>Deserialize\<close> does with a plain struct is written out.\<close>

datatype json = JNull | JBool bool | JNum int | JStr string | JArr "json list" | JObj "(string \<times> json) list"

section \<open>Codes\<close>

datatype api_error_code =
    InternalError | InvalidBody | InvalidParams | NotFound | MethodNotAllowed | Unauthorized
  | DeviceAlreadyExists | CodeDeviceNotFound | UnknownCode

fun code_wire :: "api_error_code \<Rightarrow> string" where
  "code_wire InternalError = ''internal_error''"
| "code_wire InvalidBody = ''invalid_body''"
| "code_wire InvalidParams = ''invalid_params''"
| "code_wire NotFound = ''not_found''"
| "code_wire MethodNotAllowed = ''method_not_allowed''"
| "code_wire Unauthorized = ''unauthorized''"
| "code_wire DeviceAlreadyExists = ''device_already_exists''"
| "code_wire CodeDeviceNotFound = ''device_not_found''"
| "code_wire UnknownCode = ''unknown''"

definition all_codes :: "api_error_code list" where
  "all_codes = [InternalError, InvalidBody, InvalidParams, NotFound, MethodNotAllowed, Unauthorized,
                DeviceAlreadyExists, CodeDeviceNotFound, UnknownCode]"

text \<open>\<open>#[serde(other)]\<close>: a string that names no variant lands on \<open>Unknown\<close>.\<close>

definition code_from_wire :: "string \<Rightarrow> api_error_code" where
  "code_from_wire s = (case List.find (\<lambda>c. code_wire c = s) all_codes of Some c \<Rightarrow> c | None \<Rightarrow> UnknownCode)"

lemma code_from_to_wire [codec_simps]: "code_from_wire (code_wire c) = c"
  by (cases c) (simp_all add: code_from_wire_def all_codes_def)

section \<open>The body\<close>

record api_error_body =
  body_code :: api_error_code
  body_message :: string
  body_details_raw :: "json option"

definition error_body_new :: "api_error_code \<Rightarrow> string \<Rightarrow> api_error_body" where
  "error_body_new code message = \<lparr>body_code = code, body_message = message, body_details_raw = None\<rparr>"

text \<open>A details type is its code, its \<open>Serialize\<close> and its \<open>Deserialize\<close>.\<close>

record 'd error_details =
  details_code :: api_error_code
  details_to :: "'d \<Rightarrow> json"
  details_from :: "json \<Rightarrow> 'd option"

definition error_body_with_details :: "'d error_details \<Rightarrow> string \<Rightarrow> 'd \<Rightarrow> api_error_body" where
  "error_body_with_details D message d =
     \<lparr>body_code = details_code D, body_message = message, body_details_raw = Some (details_to D d)\<rparr>"

definition error_body_details :: "'d error_details \<Rightarrow> api_error_body \<Rightarrow> 'd option" where
  "error_body_details D b =
     (if body_code b \<noteq> details_code D then None
      else case body_details_raw b of None \<Rightarrow> None | Some raw \<Rightarrow> details_from D raw)"

text \<open>\<open>DeviceAlreadyExistsDetails\<close>, with \<open>rename_all = camelCase\<close>. Unknown obj are ignored,
  a repeated field is an error, and \<open>serde_json::Value\<close> keeps the last of two equal keys, so an
  object has none.\<close>

record already_exists_details =
  aed_addr :: device_addr
  aed_name :: string

definition already_exists_to :: "already_exists_details \<Rightarrow> json" where
  "already_exists_to d = JObj [(''deviceAddr'', JStr (encode_hex (aed_addr d))), (''name'', JStr (aed_name d))]"

definition already_exists_from :: "json \<Rightarrow> already_exists_details option" where
  "already_exists_from j =
     (case j of
        JObj obj \<Rightarrow>
          (case (map_of obj ''deviceAddr'', map_of obj ''name'') of
             (Some (JStr a), Some (JStr n)) \<Rightarrow>
               (case addr_from_str a of
                  Inl _ \<Rightarrow> None
                | Inr addr \<Rightarrow> Some \<lparr>aed_addr = addr, aed_name = n\<rparr>)
           | _ \<Rightarrow> None)
      | JArr [JStr a, JStr n] \<Rightarrow>
          (case addr_from_str a of
             Inl _ \<Rightarrow> None
           | Inr addr \<Rightarrow> Some \<lparr>aed_addr = addr, aed_name = n\<rparr>)
      | _ \<Rightarrow> None)"

definition device_already_exists :: "already_exists_details error_details" where
  "device_already_exists = \<lparr>details_code = DeviceAlreadyExists, details_to = already_exists_to,
                            details_from = already_exists_from\<rparr>"

text \<open>The body as JSON: \<open>details\<close> is left out when there is none.\<close>

definition error_body_to_json :: "api_error_body \<Rightarrow> json" where
  "error_body_to_json b =
     JObj ([(''code'', JStr (code_wire (body_code b))), (''message'', JStr (body_message b))]
        @ (case body_details_raw b of None \<Rightarrow> [] | Some d \<Rightarrow> [(''details'', d)]))"

definition error_body_from_json :: "json \<Rightarrow> api_error_body option" where
  "error_body_from_json j =
     (case j of
        JObj obj \<Rightarrow>
          (case (map_of obj ''code'', map_of obj ''message'') of
             (Some (JStr c), Some (JStr m)) \<Rightarrow>
               Some \<lparr>body_code = code_from_wire c, body_message = m,
                     body_details_raw = (case map_of obj ''details'' of
                                           None \<Rightarrow> None | Some JNull \<Rightarrow> None | Some d \<Rightarrow> Some d)\<rparr>
           | _ \<Rightarrow> None)
      | _ \<Rightarrow> None)"

section \<open>Responses\<close>

record api_error =
  err_status :: nat
  err_body :: api_error_body
  err_headers :: "(string \<times> string) list"

definition api_error_new :: "nat \<Rightarrow> api_error_code \<Rightarrow> string \<Rightarrow> api_error" where
  "api_error_new status code message =
     \<lparr>err_status = status, err_body = error_body_new code message, err_headers = []\<rparr>"

definition api_error_with_details :: "nat \<Rightarrow> string \<Rightarrow> 'd error_details \<Rightarrow> 'd \<Rightarrow> api_error" where
  "api_error_with_details status message D d =
     \<lparr>err_status = status, err_body = error_body_with_details D message d, err_headers = []\<rparr>"

definition add_header :: "api_error \<Rightarrow> string \<Rightarrow> string \<Rightarrow> api_error" where
  "add_header e name val = e\<lparr>err_headers := err_headers e @ [(name, val)]\<rparr>"

definition api_error_internal :: api_error where
  "api_error_internal = api_error_new 500 InternalError ''internal server error''"

definition api_error_of_sqlx :: "sqlx_error \<Rightarrow> api_error" where
  "api_error_of_sqlx err = api_error_internal"

definition not_found :: api_error where
  "not_found = api_error_new 404 NotFound ''provided path not found''"

definition method_not_allowed :: api_error where
  "method_not_allowed = api_error_new 405 MethodNotAllowed ''http method is not available for that path''"

text \<open>The extractors: axum's verdict, its rejection rendered as \<open>body_text\<close>.\<close>

fun json_extract :: "string + 'a \<Rightarrow> api_error + 'a" where
  "json_extract (Inr v) = Inr v"
| "json_extract (Inl body_text) = Inl (api_error_new 400 InvalidBody body_text)"

fun path_extract :: "string + 'a \<Rightarrow> api_error + 'a" where
  "path_extract (Inr v) = Inr v"
| "path_extract (Inl body_text) = Inl (api_error_new 400 InvalidParams body_text)"

section \<open>Facts\<close>

lemma already_exists_round_trip [codec_simps]: "already_exists_from (already_exists_to d) = Some d"
  by (simp add: already_exists_from_def already_exists_to_def addr_from_encode_hex)

lemma already_exists_not_null: "already_exists_to d \<noteq> JNull"
  by (simp add: already_exists_to_def)

lemma error_body_json_round_trip [codec_simps]:
  "body_details_raw b \<noteq> Some JNull \<Longrightarrow> error_body_from_json (error_body_to_json b) = Some b"
  by (cases b; cases "body_details_raw b")
     (auto simp: error_body_from_json_def error_body_to_json_def code_from_to_wire split: json.split)

section \<open>Properties\<close>

text \<open>An error body with typed details survives its JSON form, its code is the one bound to the
  details' type, reading its details as that type gives them back, and reading them as any type
  bound to another code gives nothing; a code the client does not know is read as \<open>Unknown\<close>, with
  the message intact.\<close>

theorem error_details_round_trip:
  "error_body_from_json (error_body_to_json (error_body_with_details device_already_exists msg d))
     = Some (error_body_with_details device_already_exists msg d)
   \<and> error_body_details device_already_exists (error_body_with_details device_already_exists msg d) = Some d
   \<and> error_body_details D (error_body_with_details device_already_exists msg d)
       = (if details_code D = DeviceAlreadyExists then details_from D (already_exists_to d) else None)
   \<and> map_option body_message (error_body_from_json (JObj [(''code'', JStr c), (''message'', JStr msg)])) = Some msg
   \<and> map_option body_code (error_body_from_json (JObj [(''code'', JStr c), (''message'', JStr msg)]))
       = Some (if c \<in> code_wire ` set all_codes then code_from_wire c else UnknownCode)"
proof -
  have u: "code_from_wire c = UnknownCode" if "c \<notin> code_wire ` set all_codes"
  proof -
    have "List.find (\<lambda>k. code_wire k = c) all_codes = None"
      using that by (auto simp: find_None_iff image_iff)
    then show ?thesis by (simp add: code_from_wire_def)
  qed
  have "error_body_from_json (error_body_to_json (error_body_with_details device_already_exists msg d))
     = Some (error_body_with_details device_already_exists msg d)"
    by (rule error_body_json_round_trip)
       (simp add: error_body_with_details_def device_already_exists_def already_exists_not_null)
  then show ?thesis
    using u by (auto simp: error_body_details_def error_body_with_details_def device_already_exists_def
        already_exists_round_trip error_body_from_json_def)
qed

end
