(* ===== verification/ApiRegistry.thy ===== *)
theory ApiRegistry
  imports ApiTypes
begin

text \<open>\<open>src/api/src/devices/registry.rs\<close> and \<open>routes.rs\<close>: the in-memory registry in front of the
  devices table, and the handlers over it. Provisioning and rotation are two steps, the write of
  the database and then that of the cache, because other requests run between them. A poisoned
  lock (a panic elsewhere while it is held) is not modelled.\<close>

section \<open>State\<close>

record registered_device =
  reg_addr :: device_addr
  reg_name :: string
  reg_key_valid_from :: int
  reg_cipher :: packet_cipher

record device_registry =
  cache :: "device_addr \<Rightarrow> registered_device option"
  keyring :: kek_ring

datatype device_error =
    AlreadyExists device_addr string
  | DeviceNotFound
  | KeyGen string
  | DeviceDb sqlx_error

definition register :: "device_record \<Rightarrow> device_key \<Rightarrow> registered_device" where
  "register r key = \<lparr>reg_addr = rec_addr r, reg_name = rec_name r, reg_key_valid_from = rec_key_valid_from r,
                     reg_cipher = cipher_new key (rec_addr r)\<rparr>"

section \<open>Loading\<close>

definition load_entry :: "xaead \<Rightarrow> kek_ring \<Rightarrow> device_record \<Rightarrow> registered_device option" where
  "load_entry X ring r =
     (case open_key_column X (rec_key r) (rec_addr r) ring of
        Inl err \<Rightarrow> None
      | Inr key \<Rightarrow> Some (register r key))"

text \<open>The collected map, and the number of keys that could not be opened.\<close>

definition collect_devices ::
  "xaead \<Rightarrow> kek_ring \<Rightarrow> device_record list \<Rightarrow> (device_addr \<Rightarrow> registered_device option) \<times> nat" where
  "collect_devices X ring rs =
     fold (\<lambda>r (m, failures). case load_entry X ring r of
             None \<Rightarrow> (m, failures + 1)
           | Some d \<Rightarrow> (m(rec_addr r \<mapsto> d), failures)) rs (Map.empty, 0)"

definition registry_load ::
  "xaead \<Rightarrow> file_system \<Rightarrow> string \<Rightarrow> string option \<Rightarrow> database \<Rightarrow> (anyhow + device_registry) option" where
  "registry_load X fs kek_path fault db =
     (case kek_ring_load fs kek_path of
        Inl e \<Rightarrow> Some (Inl e)
      | Inr ring \<Rightarrow>
         (case fault of
            Some e \<Rightarrow> Some (Inl [e])
          | None \<Rightarrow> map_option (\<lambda>rs. Inr \<lparr>cache = fst (collect_devices X ring rs), keyring = ring\<rparr>)
                      (all_records db)))"

definition registry_get :: "device_registry \<Rightarrow> device_addr \<Rightarrow> registered_device option" where
  "registry_get reg addr = cache reg addr"

text \<open>The outer \<open>None\<close> is the panic of a row whose address the \<open>CHECK\<close> excludes.\<close>

definition registry_summary ::
  "xaead \<Rightarrow> device_registry \<Rightarrow> sqlx_error option \<Rightarrow> database \<Rightarrow> device_addr \<Rightarrow> sqlx_error + device_summary option" where
  "registry_summary X reg fault db addr =
     (case fault of
        Some e \<Rightarrow> Inl e
      | None \<Rightarrow> Inr (map_option (\<lambda>a. classify X a (keyring reg)) (activity_by_addr db addr)))"

definition registry_summaries ::
  "xaead \<Rightarrow> device_registry \<Rightarrow> sqlx_error option \<Rightarrow> database \<Rightarrow> (sqlx_error + device_summary list) option" where
  "registry_summaries X reg fault db =
     (case fault of
        Some e \<Rightarrow> Some (Inl e)
      | None \<Rightarrow> map_option (\<lambda>as. Inr (map (\<lambda>a. classify X a (keyring reg)) as)) (all_activity db))"

section \<open>Provisioning and rotation\<close>

definition publish :: "device_registry \<Rightarrow> device_addr \<Rightarrow> registered_device \<Rightarrow> device_registry" where
  "publish reg addr d = reg\<lparr>cache := (cache reg)(addr \<mapsto> d)\<rparr>"

text \<open>The database half. \<open>random\<close> is what \<open>getrandom\<close> gives for the key, \<open>iv\<close> what it gives
  for the seal; \<open>None\<close> is a panic.\<close>

definition provision_store ::
  "xaead \<Rightarrow> device_registry \<Rightarrow> string + bytes \<Rightarrow> bytes \<Rightarrow> sqlx_error option \<Rightarrow> sqlx_error option
     \<Rightarrow> (database \<Rightarrow> database) \<Rightarrow> int \<Rightarrow> device_addr \<Rightarrow> string \<Rightarrow> database
     \<Rightarrow> (device_error + registered_device \<times> device_key) option \<times> database" where
  "provision_store X reg random iv fault1 fault2 others now addr name db =
     (case generate_key random of
        Inl e \<Rightarrow> (Some (Inl (KeyGen e)), db)
      | Inr key \<Rightarrow>
         (case seal_with_nonce X (keyring reg) key addr iv of
            None \<Rightarrow> (None, db)
          | Some sealed_key \<Rightarrow>
             (case insert_device fault1 fault2 others now \<lparr>ins_name = name, ins_addr = addr, ins_key = sealed_key\<rparr> db of
                (None, db') \<Rightarrow> (None, db')
              | (Some (Inl (InsertDb err)), db') \<Rightarrow> (Some (Inl (DeviceDb err)), db')
              | (Some (Inl (DuplicateDeviceAddr existing)), db') \<Rightarrow> (Some (Inl (AlreadyExists addr existing)), db')
              | (Some (Inr r), db') \<Rightarrow>
                  (Some (Inr (register r key\<lparr>reg_cipher := cipher_new key addr\<rparr>, key)), db'))))"

definition rotate_store ::
  "xaead \<Rightarrow> device_registry \<Rightarrow> string + bytes \<Rightarrow> bytes \<Rightarrow> sqlx_error option \<Rightarrow> int \<Rightarrow> device_addr \<Rightarrow> database
     \<Rightarrow> (device_error + registered_device \<times> device_key) option \<times> database" where
  "rotate_store X reg random iv fault now addr db =
     (case generate_key random of
        Inl e \<Rightarrow> (Some (Inl (KeyGen e)), db)
      | Inr key \<Rightarrow>
         (case seal_with_nonce X (keyring reg) key addr iv of
            None \<Rightarrow> (None, db)
          | Some sealed_key \<Rightarrow>
             (case update_key fault now addr sealed_key db of
                (None, db') \<Rightarrow> (None, db')
              | (Some (Inl err), db') \<Rightarrow> (Some (Inl (DeviceDb err)), db')
              | (Some (Inr None), db') \<Rightarrow> (Some (Inl DeviceNotFound), db')
              | (Some (Inr (Some r)), db') \<Rightarrow>
                  (Some (Inr (register r key\<lparr>reg_cipher := cipher_new key addr\<rparr>, key)), db'))))"

text \<open>The cache half, after either.\<close>

fun finish_store ::
  "device_registry \<Rightarrow> device_addr \<Rightarrow> (device_error + registered_device \<times> device_key) option \<times> database
     \<Rightarrow> (device_error + registered_device \<times> device_key) option \<times> device_registry \<times> database" where
  "finish_store reg addr (Some (Inr (d, key)), db) = (Some (Inr (d, key)), publish reg addr d, db)"
| "finish_store reg addr (r, db) = (r, reg, db)"

definition registry_provision where
  "registry_provision X reg random iv fault1 fault2 others now addr name db =
     finish_store reg addr (provision_store X reg random iv fault1 fault2 others now addr name db)"

definition registry_rotate_key where
  "registry_rotate_key X reg random iv fault now addr db =
     finish_store reg addr (rotate_store X reg random iv fault now addr db)"

section \<open>Handlers (\<open>routes.rs\<close>)\<close>

record device_key_response =
  dkr_addr :: device_addr
  dkr_name :: string
  dkr_key_valid_from :: int
  dkr_key :: string

fun api_error_of_device :: "device_error \<Rightarrow> api_error" where
  "api_error_of_device (AlreadyExists addr name) =
     api_error_with_details 409
       (''device '' @ encode_hex addr @ '' already exists as '' @ [CHR 0x27] @ name @ [CHR 0x27]
          @ '' - rotate its key instead'')
       device_already_exists \<lparr>aed_addr = addr, aed_name = name\<rparr>"
| "api_error_of_device DeviceNotFound = api_error_new 404 CodeDeviceNotFound ''device not found''"
| "api_error_of_device (DeviceDb err) = api_error_internal"
| "api_error_of_device (KeyGen err) = api_error_internal"

definition key_response :: "registered_device \<times> device_key \<Rightarrow> device_key_response" where
  "key_response dk =
     (case dk of (d, key) \<Rightarrow>
        \<lparr>dkr_addr = reg_addr d, dkr_name = reg_name d, dkr_key_valid_from = reg_key_valid_from d,
         dkr_key = key_to_hex key\<rparr>)"

definition respond_key ::
  "nat \<Rightarrow> device_error + registered_device \<times> device_key \<Rightarrow> api_error + nat \<times> device_key_response" where
  "respond_key status r = map_err api_error_of_device (map_ok (\<lambda>dk. (status, key_response dk)) r)"

definition provision_device where
  "provision_device X reg random iv fault1 fault2 others now addr name db =
     (case registry_provision X reg random iv fault1 fault2 others now addr name db of
        (r, reg', db') \<Rightarrow> (map_option (respond_key 201) r, reg', db'))"

definition rotate_device_key where
  "rotate_device_key X reg random iv fault now addr db =
     (case registry_rotate_key X reg random iv fault now addr db of
        (r, reg', db') \<Rightarrow> (map_option (respond_key 200) r, reg', db'))"

definition get_device ::
  "xaead \<Rightarrow> device_registry \<Rightarrow> sqlx_error option \<Rightarrow> database \<Rightarrow> device_addr \<Rightarrow> api_error + nat \<times> device_summary" where
  "get_device X reg fault db addr =
     (case registry_summary X reg fault db addr of
        Inl e \<Rightarrow> Inl (api_error_of_sqlx e)
      | Inr None \<Rightarrow> Inl (api_error_of_device DeviceNotFound)
      | Inr (Some s) \<Rightarrow> Inr (200, s))"

definition get_devices ::
  "xaead \<Rightarrow> device_registry \<Rightarrow> sqlx_error option \<Rightarrow> database \<Rightarrow> (api_error + nat \<times> device_summary list) option" where
  "get_devices X reg fault db =
     map_option (\<lambda>r. case r of Inl e \<Rightarrow> Inl (api_error_of_sqlx e) | Inr ss \<Rightarrow> Inr (200, ss))
       (registry_summaries X reg fault db)"

section \<open>Coherence\<close>

text \<open>The cache holds exactly the devices whose stored key opens, with that key.\<close>

definition expected_entry :: "xaead \<Rightarrow> kek_ring \<Rightarrow> database \<Rightarrow> device_addr \<Rightarrow> registered_device option" where
  "expected_entry X ring db a =
     (case find_row db (addr_as_i64 a) of
        None \<Rightarrow> None
      | Some row \<Rightarrow> (case record_of_row row of None \<Rightarrow> None | Some r \<Rightarrow> load_entry X ring r))"

definition coherent :: "xaead \<Rightarrow> device_registry \<Rightarrow> database \<Rightarrow> bool" where
  "coherent X reg db \<longleftrightarrow> (\<forall>a. cache reg a = expected_entry X (keyring reg) db a)"

lemma all_some_Some: "all_some xs = Some ys \<longleftrightarrow> xs = map Some ys"
  by (induction xs arbitrary: ys rule: all_some.induct) auto

lemma record_of_row_addr: "record_of_row row = Some r \<Longrightarrow> row_addr row = addr_as_i64 b \<Longrightarrow> rec_addr r = b"
  by (auto simp: record_of_row_def)

lemma collect_devices_cache:
  assumes "distinct (map rec_addr rs)"
  shows "fst (collect_devices X ring rs) a =
     (case List.find (\<lambda>r. rec_addr r = a) rs of None \<Rightarrow> None | Some r \<Rightarrow> load_entry X ring r)"
proof -
  have "fst (fold (\<lambda>r (m, failures). case load_entry X ring r of
             None \<Rightarrow> (m, failures + 1)
           | Some d \<Rightarrow> (m(rec_addr r \<mapsto> d), failures)) rs (m, n)) a
     = (case List.find (\<lambda>r. rec_addr r = a) rs of None \<Rightarrow> m a
        | Some r \<Rightarrow> (case load_entry X ring r of None \<Rightarrow> m a | Some d \<Rightarrow> Some d))" for m and n :: nat
    using assms
  proof (induction rs arbitrary: m n)
    case (Cons r rs)
    have "rec_addr q \<noteq> rec_addr r" if "q \<in> set rs" for q
      using Cons.prems imageI [OF that, of rec_addr] by auto
    then have none: "List.find (\<lambda>q. rec_addr q = rec_addr r) rs = None"
      unfolding find_None_iff by blast
    show ?case
      using Cons none by (cases "load_entry X ring r") (auto split: option.split)
  qed simp
  from this [of Map.empty 0] show ?thesis
    by (auto simp: collect_devices_def split: option.split)
qed

lemma find_rows_records:
  assumes "map record_of_row rows = map Some rs"
    and "\<forall>r\<in>set rows. \<exists>a. row_addr r = addr_as_i64 a"
  shows "(case List.find (\<lambda>r. row_addr r = addr_as_i64 a) rows of None \<Rightarrow> None | Some row \<Rightarrow> record_of_row row)
     = List.find (\<lambda>r. rec_addr r = a) rs"
  using assms
proof (induction rs arbitrary: rows)
  case (Cons r rs)
  then obtain row rows' where rows: "rows = row # rows'" "record_of_row row = Some r"
    "map record_of_row rows' = map Some rs" by (cases rows) auto
  obtain b where b: "row_addr row = addr_as_i64 b" using Cons.prems(2) rows by auto
  have "rec_addr r = b" using record_of_row_addr [OF rows(2) b] .
  then show ?case
    using Cons.IH [OF rows(3)] Cons.prems(2) rows b by (auto simp: addr_as_i64_inject)
qed auto

lemma distinct_records:
  assumes "map record_of_row rows = map Some rs" "distinct (map row_addr rows)"
    and "\<forall>r\<in>set rows. \<exists>a. row_addr r = addr_as_i64 a"
  shows "distinct (map rec_addr rs)"
proof -
  have "map row_addr rows = map (addr_as_i64 \<circ> rec_addr) rs"
    using assms(1,3)
  proof (induction rs arbitrary: rows)
    case (Cons r rs)
    then obtain row rows' where rows: "rows = row # rows'" "record_of_row row = Some r"
      "map record_of_row rows' = map Some rs" by (cases rows) auto
    obtain b where b: "row_addr row = addr_as_i64 b" using Cons.prems(2) rows by auto
    show ?case
      using Cons.IH [OF rows(3)] Cons.prems(2) rows b record_of_row_addr [OF rows(2) b] by auto
  qed simp
  then have "distinct (map (addr_as_i64 \<circ> rec_addr) rs)"
    using assms(2) by simp
  then show ?thesis
    by (simp add: distinct_map comp_inj_on inj_on_def)
qed

lemma load_coherent:
  assumes "db_ok db" "registry_load X fs kek_path fault db = Some (Inr reg)"
  shows "coherent X reg db \<and> ring_ok (keyring reg)"
proof -
  obtain ring rs where ring: "kek_ring_load fs kek_path = Inr ring" and rs: "all_records db = Some rs"
    and reg: "reg = \<lparr>cache = fst (collect_devices X ring rs), keyring = ring\<rparr>"
    using assms(2) by (auto simp: registry_load_def split: sum.splits option.splits)
  have "map record_of_row (devices_table db) = map Some rs"
    using rs by (simp add: all_records_def all_some_Some)
  moreover have "distinct (map row_addr (devices_table db))"
    "\<forall>r\<in>set (devices_table db). \<exists>a. row_addr r = addr_as_i64 a"
    using assms(1) by (auto simp: db_ok_def)
  ultimately have "cache reg a = expected_entry X ring db a" for a
    using distinct_records find_rows_records [of "devices_table db" rs a]
    by (auto simp: reg collect_devices_cache expected_entry_def find_row_def split: option.splits)
  moreover have "ring_ok ring"
    using ring kek_ring_parse_ok by (auto simp: kek_ring_load_def split: sum.splits)
  ultimately show ?thesis by (simp add: coherent_def reg)
qed

text \<open>A key just sealed opens again.\<close>

lemma open_sealed_column:
  assumes "xaead_ok X" "ring_ok ring" "key_ok dek" "length iv = NONCE_SIZE"
    and "seal_with_nonce X ring dek addr iv = Some s"
  shows "open_key_column X (Some (sealed_bytes s)) addr ring = Inr dek"
  using open_seal [OF assms(1-4) refl, of addr] assms(5) by (auto simp: open_key_column_def)

lemma rotate_store_Inr:
  assumes "xaead_ok X" "ring_ok (keyring reg)" "length iv = NONCE_SIZE" "db_ok db"
    and "length bs = DEVICE_KEY_SIZE"
    and "rotate_store X reg (Inr bs) iv fault now addr db = (Some (Inr (d, key)), db')"
  shows "key = DeviceKey bs" "cipher_key (reg_cipher d) = key"
    "expected_entry X (keyring reg) db' a = (if a = addr then Some d else expected_entry X (keyring reg) db a)"
proof -
  obtain s where s: "seal_with_nonce X (keyring reg) (DeviceKey bs) addr iv = Some s"
    using assms(6) by (cases "seal_with_nonce X (keyring reg) (DeviceKey bs) addr iv")
      (simp_all add: rotate_store_def generate_key_def)
  obtain q db1 where q: "update_key fault now addr s db = (q, db1)" by fastforce
  have e: "(case q of None \<Rightarrow> (None, db1) | Some (Inl err) \<Rightarrow> (Some (Inl (DeviceDb err)), db1)
     | Some (Inr None) \<Rightarrow> (Some (Inl DeviceNotFound), db1)
     | Some (Inr (Some r)) \<Rightarrow>
         (Some (Inr (register r (DeviceKey bs)\<lparr>reg_cipher := cipher_new (DeviceKey bs) addr\<rparr>, DeviceKey bs)), db1))
     = (Some (Inr (d, key)), db')"
    using assms(6) unfolding rotate_store_def generate_key_def map_ok.simps sum.case s option.case q
    by (simp split: option.splits sum.splits)
  have "\<exists>r. q = Some (Inr (Some r)) \<and> db1 = db' \<and> key = DeviceKey bs
      \<and> d = register r (DeviceKey bs)\<lparr>reg_cipher := cipher_new (DeviceKey bs) addr\<rparr>"
    using e by (cases q rule: option.exhaust; simp) (auto split: sum.splits option.splits)
  then obtain r where u: "update_key fault now addr s db = (Some (Inr (Some r)), db')"
    and d: "d = register r (DeviceKey bs)\<lparr>reg_cipher := cipher_new (DeviceKey bs) addr\<rparr>" and key: "key = DeviceKey bs"
    using q by blast
  have "fault = None" using u by (cases fault) (simp_all add: update_key_def)
  note f = find_row_update_key [OF assms(4) u [unfolded \<open>fault = None\<close>]]
  have ok: "key_ok (DeviceKey bs)" using assms(5) by (simp add: key_ok_def)
  note o = open_sealed_column [OF assms(1,2) ok assms(3) s]
  have addr: "rec_addr r = addr" using f(2) by (metis device_record.select_convs(1))
  have "rec_key_valid_from r = now" using f(2) by (metis device_record.select_convs(4))
  then have "load_entry X (keyring reg) \<lparr>rec_addr = addr, rec_name = rec_name r, rec_key = Some (sealed_bytes s), rec_key_valid_from = now\<rparr> = Some d"
    using o addr by (simp add: load_entry_def register_def d)
  then show "expected_entry X (keyring reg) db' a = (if a = addr then Some d else expected_entry X (keyring reg) db a)"
    using f(1) [of a] by (auto simp: expected_entry_def record_of_row_def)
  show "key = DeviceKey bs" by (rule key)
  show "cipher_key (reg_cipher d) = key" by (simp add: d key cipher_new_def)
qed

lemma update_key_other:
  assumes "update_key fault now addr k db = (r, db')" "r \<noteq> None" "\<And>x. r \<noteq> Some (Inr (Some x))"
  shows "db' = db"
proof (cases fault)
  case None
  show ?thesis
  proof (cases "find_row db (addr_as_i64 addr)")
    case (Some row)
    then have "r = map_option (\<lambda>r. Inr (Some r))
        (record_of_row (row\<lparr>row_key := Some (sealed_bytes k), row_key_valid_from := now\<rparr>))"
      using assms(1) None by (simp add: update_key_def Let_def)
    then show ?thesis using assms(2,3) by (metis not_None_eq option.simps(8,9))
  qed (use assms None in \<open>simp add: update_key_def\<close>)
qed (use assms in \<open>simp add: update_key_def\<close>)

lemma rotate_store_failed:
  assumes "rotate_store X reg random iv fault now addr db = (Some (Inl e), db')"
  shows "db' = db"
proof (cases "generate_key random")
  case (Inr key)
  then obtain s where s: "seal_with_nonce X (keyring reg) key addr iv = Some s"
    using assms by (cases "seal_with_nonce X (keyring reg) key addr iv") (simp_all add: rotate_store_def)
  obtain r db1 where u: "update_key fault now addr s db = (r, db1)" by fastforce
  have "r \<noteq> None" "\<And>x. r \<noteq> Some (Inr (Some x))" "db' = db1"
    using assms Inr s u by (auto simp: rotate_store_def split: option.splits sum.splits)
  then show ?thesis using update_key_other [OF u] by simp
qed (use assms in \<open>simp add: rotate_store_def\<close>)

lemma insert_device_Inr:
  assumes "insert_device fault1 fault2 others now args db = (Some (Inr r), db')"
  shows "r = \<lparr>rec_addr = ins_addr args, rec_name = ins_name args,
              rec_key = Some (sealed_bytes (ins_key args)), rec_key_valid_from = now\<rparr>"
    "find_row db (addr_as_i64 (ins_addr args)) = None"
    "find_row db' (addr_as_i64 a) =
       (if a = ins_addr args then Some \<lparr>row_addr = addr_as_i64 a, row_name = ins_name args,
           row_key = Some (sealed_bytes (ins_key args)), row_key_valid_from = now\<rparr>
        else find_row db (addr_as_i64 a))"
proof -
  let ?row = "\<lparr>row_addr = addr_as_i64 (ins_addr args), row_name = ins_name args,
               row_key = Some (sealed_bytes (ins_key args)), row_key_valid_from = now\<rparr>"
  have fresh: "fault1 = None" "find_row db (addr_as_i64 (ins_addr args)) = None"
    using assms
    by (auto simp: insert_device_def sql_insert_device_def Let_def split: option.splits if_splits)
  then have e: "map_option Inr (record_of_row ?row) = Some (Inr r :: insert_device_error + _)"
    and db': "db' = db\<lparr>devices_table := devices_table db @ [?row]\<rparr>"
    using assms by (auto simp: insert_device_def sql_insert_device_def Let_def)
  show "r = \<lparr>rec_addr = ins_addr args, rec_name = ins_name args,
              rec_key = Some (sealed_bytes (ins_key args)), rec_key_valid_from = now\<rparr>"
    using e by (auto simp: record_of_row_def)
  show "find_row db (addr_as_i64 (ins_addr args)) = None" by (rule fresh)
  have app: "List.find P (xs @ [x]) = (case List.find P xs of Some y \<Rightarrow> Some y | None \<Rightarrow> if P x then Some x else None)"
    for P xs and x :: device_row
    by (induction xs) auto
  show "find_row db' (addr_as_i64 a) =
       (if a = ins_addr args then Some \<lparr>row_addr = addr_as_i64 a, row_name = ins_name args,
           row_key = Some (sealed_bytes (ins_key args)), row_key_valid_from = now\<rparr>
        else find_row db (addr_as_i64 a))"
    using fresh(2) by (auto simp: find_row_def db' app addr_as_i64_inject split: option.split)
qed

lemma provision_store_Inr:
  assumes "xaead_ok X" "ring_ok (keyring reg)" "length iv = NONCE_SIZE"
    and "length bs = DEVICE_KEY_SIZE"
    and "provision_store X reg (Inr bs) iv fault1 fault2 others now addr name db = (Some (Inr (d, key)), db')"
  shows "key = DeviceKey bs" "cipher_key (reg_cipher d) = key" "expected_entry X (keyring reg) db addr = None"
    "expected_entry X (keyring reg) db' a = (if a = addr then Some d else expected_entry X (keyring reg) db a)"
proof -
  obtain s where s: "seal_with_nonce X (keyring reg) (DeviceKey bs) addr iv = Some s"
    using assms(5) by (cases "seal_with_nonce X (keyring reg) (DeviceKey bs) addr iv")
      (simp_all add: provision_store_def generate_key_def)
  let ?args = "\<lparr>ins_name = name, ins_addr = addr, ins_key = s\<rparr>"
  obtain q db1 where q: "insert_device fault1 fault2 others now ?args db = (q, db1)" by fastforce
  have e: "(case q of None \<Rightarrow> (None, db1)
     | Some (Inl (InsertDb err)) \<Rightarrow> (Some (Inl (DeviceDb err)), db1)
     | Some (Inl (DuplicateDeviceAddr existing)) \<Rightarrow> (Some (Inl (AlreadyExists addr existing)), db1)
     | Some (Inr r) \<Rightarrow>
         (Some (Inr (register r (DeviceKey bs)\<lparr>reg_cipher := cipher_new (DeviceKey bs) addr\<rparr>, DeviceKey bs)), db1))
     = (Some (Inr (d, key)), db')"
    using assms(5) unfolding provision_store_def generate_key_def map_ok.simps sum.case s option.case q
    by (simp split: option.splits sum.splits insert_device_error.splits)
  have "\<exists>r. q = Some (Inr r) \<and> db1 = db' \<and> key = DeviceKey bs
      \<and> d = register r (DeviceKey bs)\<lparr>reg_cipher := cipher_new (DeviceKey bs) addr\<rparr>"
    using e by (cases q rule: option.exhaust; simp) (auto split: sum.splits insert_device_error.splits)
  then obtain r where u: "insert_device fault1 fault2 others now ?args db = (Some (Inr r), db')"
    and d: "d = register r (DeviceKey bs)\<lparr>reg_cipher := cipher_new (DeviceKey bs) addr\<rparr>" and key: "key = DeviceKey bs"
    using q by blast
  note f = insert_device_Inr [OF u]
  have ok: "key_ok (DeviceKey bs)" using assms(4) by (simp add: key_ok_def)
  note o = open_sealed_column [OF assms(1,2) ok assms(3) s]
  have "load_entry X (keyring reg) r = Some d"
    using o f(1) by (simp add: load_entry_def register_def d)
  then show "expected_entry X (keyring reg) db' a = (if a = addr then Some d else expected_entry X (keyring reg) db a)"
    using f(1) f(3) [of a] by (auto simp: expected_entry_def record_of_row_def)
  show "expected_entry X (keyring reg) db addr = None"
    using f(2) by (simp add: expected_entry_def)
  show "key = DeviceKey bs" by (rule key)
  show "cipher_key (reg_cipher d) = key" by (simp add: d key cipher_new_def)
qed

lemma rotate_store_db_ok:
  assumes "db_ok db" "rotate_store X reg random iv fault now addr db = (Some (Inr x), db')"
  shows "db_ok db'"
proof (cases "generate_key random")
  case (Inr key)
  then obtain s where s: "seal_with_nonce X (keyring reg) key addr iv = Some s"
    using assms(2) by (cases "seal_with_nonce X (keyring reg) key addr iv") (simp_all add: rotate_store_def)
  obtain r db1 where u: "update_key fault now addr s db = (r, db1)" by fastforce
  then have "db' = db1"
    using assms(2) Inr s by (auto simp: rotate_store_def split: option.splits sum.splits)
  then show ?thesis using db_ok_update_key [OF assms(1), of fault now addr s] u by simp
qed (use assms in \<open>simp add: rotate_store_def\<close>)

lemma provision_store_failed:
  assumes "provision_store X reg random iv fault1 fault2 (\<lambda>d. d) now addr name db = (Some (Inl e), db')"
  shows "db' = db"
proof (cases "generate_key random")
  case (Inr key)
  then obtain s where s: "seal_with_nonce X (keyring reg) key addr iv = Some s"
    using assms by (cases "seal_with_nonce X (keyring reg) key addr iv") (simp_all add: provision_store_def)
  let ?args = "\<lparr>ins_name = name, ins_addr = addr, ins_key = s\<rparr>"
  obtain r db1 where u: "insert_device fault1 fault2 (\<lambda>d. d) now ?args db = (r, db1)" by fastforce
  have "\<exists>f. r = Some (Inl f)" and db': "db' = db1"
    using assms Inr s u by (auto simp: provision_store_def split: option.splits sum.splits insert_device_error.splits)
  then have "db1 = db"
    using u by (auto simp: insert_device_def sql_insert_device_def Let_def split: option.splits if_splits)
  then show ?thesis using db' by simp
qed (use assms in \<open>simp add: provision_store_def\<close>)

section \<open>Properties\<close>

text \<open>The registry and the database agree. A registry just loaded holds exactly the devices whose
  stored key opens, with that key, and a completed provisioning or key rotation leaves it so, the
  key returned being the one the stored column now opens to.\<close>

theorem registry_stays_coherent:
  assumes "xaead_ok X" "ring_ok (keyring reg)" "db_ok db" "coherent X reg db"
    and "length bs = DEVICE_KEY_SIZE" "length iv = NONCE_SIZE"
    and "registry_rotate_key X reg (Inr bs) iv fault now addr db = (Some r, reg', db')
       \<or> registry_provision X reg (Inr bs) iv fault fault2 (\<lambda>d. d) now addr name db = (Some r, reg', db')"
  shows "coherent X reg' db' \<and>
    (case r of
       Inl e \<Rightarrow> reg' = reg \<and> db' = db
     | Inr (d, key) \<Rightarrow> registry_get reg' addr = Some d \<and> cipher_key (reg_cipher d) = key \<and> key = DeviceKey bs)"
proof -
  have publish: "coherent X (publish reg addr d) db1 \<and> registry_get (publish reg addr d) addr = Some d"
    if "\<And>a. expected_entry X (keyring reg) db1 a = (if a = addr then Some d else expected_entry X (keyring reg) db a)"
    for d db1
    using assms(4) that by (auto simp: coherent_def publish_def registry_get_def)
  show ?thesis
    using assms(7)
  proof
    assume rot: "registry_rotate_key X reg (Inr bs) iv fault now addr db = (Some r, reg', db')"
    obtain q db1 where q: "rotate_store X reg (Inr bs) iv fault now addr db = (q, db1)" by fastforce
    show ?thesis
    proof (cases r)
      case (Inl e)
      then have "q = Some (Inl e)" "reg' = reg" "db' = db1"
        using rot q by (auto simp: registry_rotate_key_def elim: finish_store.elims)
      then show ?thesis
        using Inl rotate_store_failed [of X reg "Inr bs" iv fault now addr db e db1] q assms(4) by simp
    next
      case (Inr x)
      obtain d key where x: "x = (d, key)" by fastforce
      then have f: "q = Some (Inr (d, key))" "reg' = publish reg addr d" "db' = db1"
        using rot q Inr by (auto simp: registry_rotate_key_def elim: finish_store.elims)
      note s = rotate_store_Inr [OF assms(1,2,6,3,5) q [unfolded f(1)]]
      show ?thesis using publish [OF s(3)] s(1,2) f x Inr by simp
    qed
  next
    assume pro: "registry_provision X reg (Inr bs) iv fault fault2 (\<lambda>d. d) now addr name db = (Some r, reg', db')"
    obtain q db1 where q: "provision_store X reg (Inr bs) iv fault fault2 (\<lambda>d. d) now addr name db = (q, db1)" by fastforce
    show ?thesis
    proof (cases r)
      case (Inl e)
      then have "q = Some (Inl e)" "reg' = reg" "db' = db1"
        using pro q by (auto simp: registry_provision_def elim: finish_store.elims)
      then show ?thesis
        using Inl provision_store_failed [of X reg "Inr bs" iv fault fault2 now addr name db e db1] q assms(4) by simp
    next
      case (Inr x)
      obtain d key where x: "x = (d, key)" by fastforce
      then have f: "q = Some (Inr (d, key))" "reg' = publish reg addr d" "db' = db1"
        using pro q Inr by (auto simp: registry_provision_def elim: finish_store.elims)
      note s = provision_store_Inr [OF assms(1,2,6,5) q [unfolded f(1)]]
      show ?thesis using publish [OF s(4)] s(1,2) f x Inr by simp
    qed
  qed
qed

definition sample_registry :: device_registry where
  "sample_registry = \<lparr>cache = Map.empty, keyring = \<lparr>ring_keys = [1 \<mapsto> Kek (replicate 32 9)], ring_current = 1\<rparr>\<rparr>"

lemma sample_registry_facts:
  "ring_ok (keyring sample_registry)" "db_ok sample_db" "coherent clear_xaead sample_registry sample_db"
  "length (replicate 32 (3 :: byte)) = DEVICE_KEY_SIZE" "length (replicate 24 (0 :: byte)) = NONCE_SIZE"
  "length (replicate 32 (4 :: byte)) = DEVICE_KEY_SIZE"
  by (auto simp: sample_registry_def sample_db_def ring_ok_def db_ok_def coherent_def expected_entry_def
      find_row_def load_entry_def record_of_row_def open_key_column_def DEVICE_KEY_SIZE_def NONCE_SIZE_def
      split: if_splits)

lemma rotate_sample:
  assumes "length bs = DEVICE_KEY_SIZE" "find_row db (addr_as_i64 a) = Some row" "row_addr row = addr_as_i64 a"
  shows "\<exists>d db'. rotate_store clear_xaead sample_registry (Inr bs) (replicate 24 0) None 200 a db = (Some (Inr (d, DeviceKey bs)), db')"
proof -
  have "key_ok (DeviceKey bs)" using assms(1) by (simp add: key_ok_def)
  then obtain s where "seal_with_nonce clear_xaead (keyring sample_registry) (DeviceKey bs) a (replicate 24 0) = Some s"
    using seal_bytes [OF clear_xaead_ok sample_registry_facts(1) _ sample_registry_facts(5)] by blast
  then show ?thesis
    using assms(2,3) by (simp add: rotate_store_def generate_key_def update_key_def Let_def record_of_row_def)
qed

theorem registry_stays_coherent_witness:
  "\<exists>d reg' db'. registry_rotate_key clear_xaead sample_registry (Inr (replicate 32 3)) (replicate 24 0) None 200
        (DeviceAddr 1 2 3 4 5 6) sample_db = (Some (Inr (d, DeviceKey (replicate 32 3))), reg', db')
     \<and> coherent clear_xaead reg' db' \<and> registry_get reg' (DeviceAddr 1 2 3 4 5 6) = Some d"
proof -
  obtain d db' where r: "rotate_store clear_xaead sample_registry (Inr (replicate 32 3)) (replicate 24 0) None 200
      (DeviceAddr 1 2 3 4 5 6) sample_db = (Some (Inr (d, DeviceKey (replicate 32 3))), db')"
    using rotate_sample [OF sample_registry_facts(4), of sample_db "DeviceAddr 1 2 3 4 5 6"]
    by (force simp: sample_db_def find_row_def)
  then have k: "registry_rotate_key clear_xaead sample_registry (Inr (replicate 32 3)) (replicate 24 0) None 200
      (DeviceAddr 1 2 3 4 5 6) sample_db
      = (Some (Inr (d, DeviceKey (replicate 32 3))), publish sample_registry (DeviceAddr 1 2 3 4 5 6) d, db')"
    by (simp add: registry_rotate_key_def)
  show ?thesis
    using registry_stays_coherent [OF clear_xaead_ok sample_registry_facts(1-5) disjI1 [OF k]] k by auto
qed



end
