(* ===== verification/ApiAuth.thy ===== *)
theory ApiAuth
  imports ApiTypes
begin

text \<open>\<open>src/api/src/http/auth.rs\<close> and \<open>config.rs\<close>: the admin token, the guard of the device routes,
  and the service's settings. \<open>HeaderValue::to_str\<close> of the \<open>http\<close> crate is the parameter \<open>to_str\<close>.\<close>

section \<open>The token\<close>

definition MIN_ADMIN_TOKEN_LEN :: nat where "MIN_ADMIN_TOKEN_LEN = 32"

datatype admin_token = AdminToken (token: string)

definition admin_token_load :: "file_system \<Rightarrow> string \<Rightarrow> anyhow + admin_token" where
  "admin_token_load fs path =
     (case fs path of
        Inl e \<Rightarrow> Inl [''couldn't read admin token file: '' @ path, e]
      | Inr contents \<Rightarrow>
         (case first_line contents of
            None \<Rightarrow> Inl [''admin token file `'' @ path @ ''` is empty'']
          | Some line \<Rightarrow>
              (let tok = trim line in
               if length tok < MIN_ADMIN_TOKEN_LEN then Inl [''admin token is too short: '' @ path]
               else Inr (AdminToken tok))))"

definition token_verify :: "admin_token \<Rightarrow> string \<Rightarrow> bool" where
  "token_verify t other = (token t = other)"

section \<open>The guard\<close>

definition unauthorized :: api_error where
  "unauthorized =
     add_header (api_error_new 401 Unauthorized ''you are not authorized to perform that operation'')
       ''www-authenticate'' ''Bearer''"

text \<open>\<open>authorization\<close> is the request's header, if it has one; \<open>run\<close> is the rest of the stack.\<close>

definition require_bearer ::
  "('h \<Rightarrow> string option) \<Rightarrow> admin_token \<Rightarrow> 'h option \<Rightarrow> (unit \<Rightarrow> api_error + 'r) \<Rightarrow> api_error + 'r" where
  "require_bearer to_str t authorization run =
     (case authorization of
        None \<Rightarrow> Inl unauthorized
      | Some header \<Rightarrow>
         (case to_str header of
            None \<Rightarrow> Inl unauthorized
          | Some bearer \<Rightarrow>
             (case strip_prefix ''Bearer '' bearer of
                None \<Rightarrow> Inl unauthorized
              | Some tok \<Rightarrow> if \<not> token_verify t (trim_end tok) then Inl unauthorized else run ())))"

section \<open>Settings\<close>

record api_config =
  api_db_user :: string
  api_db_password :: string
  api_db_database :: string
  api_db_host :: string
  api_db_port :: nat
  api_db_pool_max_connections :: nat
  api_run_migrations :: bool
  api_mqtt :: mqtt_config
  api_kek_path :: string
  api_http_bind :: string
  api_admin_token_path :: string

definition parse_u32 :: "string \<Rightarrow> string + nat" where
  "parse_u32 s = ok_or ''invalid digit found in string'' (parse_uint (2 ^ 32) s)"

definition parse_bool :: "string \<Rightarrow> string + bool" where
  "parse_bool s =
     (if s = ''true'' then Inr True else if s = ''false'' then Inr False
      else Inl ''provided string was not `true` or `false`'')"

definition api_config_from_env :: "file_system \<Rightarrow> environment \<Rightarrow> anyhow + api_config" where
  "api_config_from_env fs env =
     bind_result (env_var parse_string env ''DB_USER'') (\<lambda>db_user.
     bind_result (env_var parse_string env ''DB_PASSWORD'') (\<lambda>db_password.
     bind_result (env_var parse_string env ''DB_DATABASE'') (\<lambda>db_database.
     bind_result (env_var parse_string env ''DB_HOST'') (\<lambda>db_host.
     bind_result (env_var_or parse_u16 env ''DB_PORT'' 5432) (\<lambda>db_port.
     bind_result (env_var_or parse_u32 env ''DB_POOL_MAX_CONNECTIONS'' 10) (\<lambda>db_pool.
     bind_result (env_var_or parse_bool env ''RUN_MIGRATIONS'' False) (\<lambda>run_migrations.
     bind_result (mqtt_from_env fs env ''homescope-api'') (\<lambda>mqtt.
     bind_result (env_var parse_string env ''KEK_PATH'') (\<lambda>kek_path.
     bind_result (env_var parse_string env ''HTTP_BIND'') (\<lambda>http_bind.
     bind_result (env_var parse_string env ''ADMIN_TOKEN_PATH'') (\<lambda>admin_token_path.
     Inr \<lparr>api_db_user = db_user, api_db_password = db_password, api_db_database = db_database,
          api_db_host = db_host, api_db_port = db_port, api_db_pool_max_connections = db_pool,
          api_run_migrations = run_migrations, api_mqtt = mqtt, api_kek_path = kek_path,
          api_http_bind = http_bind, api_admin_token_path = admin_token_path\<rparr>)))))))))))"

section \<open>Facts\<close>

lemma strip_prefix_Some: "strip_prefix p s = Some r \<longleftrightarrow> s = p @ r"
proof
  assume "strip_prefix p s = Some r"
  then have "take (length p) s = p" "r = drop (length p) s"
    by (auto simp: strip_prefix_def starts_with_def split: if_splits)
  then show "s = p @ r" by (metis append_take_drop_id)
qed (simp add: strip_prefix_def starts_with_def)

lemma require_bearer_cases:
  "require_bearer to_str t authorization run =
     (if \<exists>header tok. authorization = Some header \<and> to_str header = Some (''Bearer '' @ tok) \<and> trim_end tok = token t
      then run () else Inl unauthorized)"
proof (cases authorization)
  case (Some header)
  show ?thesis
  proof (cases "to_str header")
    case (Some bearer)
    note b = Some
    show ?thesis
    proof (cases "strip_prefix ''Bearer '' bearer")
      case None
      then have "\<nexists>tok. bearer = ''Bearer '' @ tok" using strip_prefix_Some by (metis option.distinct(1))
      then show ?thesis using \<open>authorization = Some header\<close> b None by (auto simp: require_bearer_def)
    next
      case (Some tok)
      then have "bearer = ''Bearer '' @ tok" by (simp only: strip_prefix_Some)
      then show ?thesis
        using \<open>authorization = Some header\<close> b Some by (auto simp: require_bearer_def token_verify_def)
    qed
  qed (simp add: require_bearer_def Some)
qed (simp add: require_bearer_def)

section \<open>Properties\<close>

text \<open>Behind the guard nothing runs without the token: a request reaches the device routes exactly
  when its \<open>Authorization\<close> header is \<open>Bearer\<close>, a space and, up to trailing white space, the token
  of the file, which is at least 32 bytes long; every other request gets the same 401 response
  with the challenge header, whichever check it failed.\<close>

theorem guard_admits_only_token:
  assumes "admin_token_load fs path = Inr t"
  shows "require_bearer to_str t authorization run =
     (if \<exists>header tok. authorization = Some header \<and> to_str header = Some (''Bearer '' @ tok) \<and> trim_end tok = token t
      then run () else Inl unauthorized)
   \<and> 32 \<le> length (token t)
   \<and> (\<exists>contents line. fs path = Inr contents \<and> first_line contents = Some line \<and> token t = trim line)
   \<and> err_status unauthorized = 401 \<and> err_headers unauthorized = [(''www-authenticate'', ''Bearer'')]"
  using assms require_bearer_cases [of to_str t authorization run]
  by (auto simp: admin_token_load_def Let_def MIN_ADMIN_TOKEN_LEN_def unauthorized_def add_header_def
      api_error_new_def split: sum.splits option.splits if_splits)

theorem guard_admits_only_token_witness:
  "require_bearer Some (AdminToken (replicate 32 CHR ''x'')) (Some (''Bearer '' @ replicate 32 CHR ''y'')) (\<lambda>_. Inr ())
     = Inl unauthorized"
proof -
  have "trim (replicate 32 CHR ''x'') = replicate 32 CHR ''x''" by (simp add: trim_graphic graphic_def)
  moreover have "first_line (replicate 32 CHR ''x'') = Some (replicate 32 CHR ''x'')" by code_simp
  ultimately have l: "admin_token_load (\<lambda>_. Inr (replicate 32 CHR ''x'')) [] = Inr (AdminToken (replicate 32 CHR ''x''))"
    by (simp add: admin_token_load_def MIN_ADMIN_TOKEN_LEN_def)
  have "trim_end (replicate 32 CHR ''y'') \<noteq> replicate 32 CHR ''x''" by code_simp
  then show ?thesis
    using guard_admits_only_token [OF l, of Some "Some (''Bearer '' @ replicate 32 CHR ''y'')" "\<lambda>_. Inr ()"] by simp
qed

end
