(* ===== verification/UnknownDevices.thy ===== *)
theory UnknownDevices
  imports DeviceAddr "HOL-Library.AList"
begin

text \<open>\<open>src/api/src/ingest/unknown_devices.rs\<close>: what is logged of packets from devices nobody
  registered. Instants are nanoseconds; the hash map is an association list.\<close>

definition MAX_TRACKED :: nat where "MAX_TRACKED = 256"
definition REPORT_INTERVAL :: int where "REPORT_INTERVAL = 60 * 60 * 1000000000"

datatype report = New | Repeat u64 int | Overflow u64

record entry =
  e_count :: u64
  e_first_seen :: int
  e_last_reported :: int

record unknown_devices =
  tracked :: "(device_addr \<times> entry) list"
  overflow_packets :: u64
  overflow_reported :: "int option"

definition unknown_none :: unknown_devices where
  "unknown_none = \<lparr>tracked = [], overflow_packets = 0, overflow_reported = None\<rparr>"

text \<open>\<open>Instant::duration_since\<close> saturates at zero.\<close>

definition duration_since :: "int \<Rightarrow> int \<Rightarrow> int" where "duration_since now at = max 0 (now - at)"

definition ud_record :: "int \<Rightarrow> device_addr \<Rightarrow> unknown_devices \<Rightarrow> report option \<times> unknown_devices" where
  "ud_record now addr s =
     (case map_of (tracked s) addr of
        Some e \<Rightarrow>
          (let e1 = e\<lparr>e_count := e_count e + 1\<rparr> in
           if duration_since now (e_last_reported e1) < REPORT_INTERVAL
           then (None, s\<lparr>tracked := AList.update addr e1 (tracked s)\<rparr>)
           else (let e2 = e1\<lparr>e_last_reported := now\<rparr> in
                 (Some (Repeat (e_count e2) (duration_since now (e_first_seen e2))),
                  s\<lparr>tracked := AList.update addr e2 (tracked s)\<rparr>)))
      | None \<Rightarrow>
          if length (tracked s) < MAX_TRACKED
          then (Some New,
                s\<lparr>tracked := AList.update addr \<lparr>e_count = 1, e_first_seen = now, e_last_reported = now\<rparr> (tracked s)\<rparr>)
          else (let s1 = s\<lparr>overflow_packets := overflow_packets s + 1\<rparr> in
                case overflow_reported s1 of
                  Some at \<Rightarrow>
                    if duration_since now at < REPORT_INTERVAL then (None, s1)
                    else (Some (Overflow (overflow_packets s1)), s1\<lparr>overflow_reported := Some now\<rparr>)
                | None \<Rightarrow> (Some (Overflow (overflow_packets s1)), s1\<lparr>overflow_reported := Some now\<rparr>)))"

text \<open>A run: the packets, each with its time, and the reports in order.\<close>

fun ud_run :: "(int \<times> device_addr) list \<Rightarrow> unknown_devices \<Rightarrow> (int \<times> device_addr \<times> report) list \<times> unknown_devices" where
  "ud_run [] s = ([], s)"
| "ud_run ((now, addr) # ps) s =
     (case ud_record now addr s of
        (r, s') \<Rightarrow>
          (case ud_run ps s' of
             (rs, s'') \<Rightarrow> ((case r of None \<Rightarrow> rs | Some rep \<Rightarrow> (now, addr, rep) # rs), s'')))"

section \<open>Bounded memory\<close>

definition ud_inv :: "unknown_devices \<Rightarrow> bool" where
  "ud_inv s \<longleftrightarrow> distinct (map fst (tracked s)) \<and> length (tracked s) \<le> MAX_TRACKED"

lemma update_length: "length (AList.update k v xs) = (if map_of xs k = None then Suc (length xs) else length xs)"
  by (induction xs) auto

lemma ud_record_inv: "ud_inv s \<Longrightarrow> ud_inv (snd (ud_record now addr s))"
proof -
  assume inv: "ud_inv s"
  show ?thesis
    using inv by (cases "map_of (tracked s) addr")
       (auto simp: ud_record_def ud_inv_def update_length AList.distinct_update Let_def split: option.split)
qed

lemma ud_run_inv: "ud_inv s \<Longrightarrow> ud_inv (snd (ud_run ps s))"
proof (induction ps s rule: ud_run.induct)
  case (2 now addr ps s)
  obtain r s' where r: "ud_record now addr s = (r, s')" by fastforce
  then have "ud_inv s'" using ud_record_inv [OF 2(2), of now addr] by simp
  then show ?case using 2(1) [OF r [symmetric] ] r by (auto split: prod.split)
qed simp

section \<open>Bounded logging\<close>

fun is_overflow :: "report \<Rightarrow> bool" where
  "is_overflow (Overflow _) = True"
| "is_overflow _ = False"

definition report_times :: "device_addr \<Rightarrow> (int \<times> device_addr \<times> report) list \<Rightarrow> int list" where
  "report_times a rs = map fst (filter (\<lambda>(_, b, r). b = a \<and> \<not> is_overflow r) rs)"

definition overflow_times :: "(int \<times> device_addr \<times> report) list \<Rightarrow> int list" where
  "overflow_times rs = map fst (filter (\<lambda>(_, _, r). is_overflow r) rs)"

definition spaced :: "int list \<Rightarrow> bool" where
  "spaced ts = sorted_wrt (\<lambda>t t'. t + REPORT_INTERVAL \<le> t') ts"

text \<open>The time of the last report on one address, or of the last overflow report.\<close>

definition last_on :: "device_addr \<Rightarrow> unknown_devices \<Rightarrow> int list" where
  "last_on a s = (case map_of (tracked s) a of None \<Rightarrow> [] | Some e \<Rightarrow> [e_last_reported e])"

definition last_overflow :: "unknown_devices \<Rightarrow> int list" where
  "last_overflow s = (case overflow_reported s of None \<Rightarrow> [] | Some t \<Rightarrow> [t])"

definition times_of :: "device_addr \<Rightarrow> int \<Rightarrow> device_addr \<Rightarrow> report option \<Rightarrow> int list" where
  "times_of a now addr r = (case r of None \<Rightarrow> [] | Some rep \<Rightarrow> report_times a [(now, addr, rep)])"

lemma spaced_step: "spaced (t # ts) \<Longrightarrow> t' + REPORT_INTERVAL \<le> t \<Longrightarrow> spaced (t' # t # ts)"
  by (auto simp: spaced_def REPORT_INTERVAL_def)

lemma not_due: "\<not> duration_since now at < REPORT_INTERVAL \<Longrightarrow> at + REPORT_INTERVAL \<le> now"
  by (auto simp: duration_since_def REPORT_INTERVAL_def max_def split: if_splits)

text \<open>One record: either nothing is said of \<open>a\<close> and its mark stays, or the report is due.\<close>

lemma ud_record_on:
  assumes "ud_record now addr s = (r, s')"
  shows "(times_of a now addr r = [] \<and> last_on a s' = last_on a s)
     \<or> (times_of a now addr r = [now] \<and> last_on a s' = [now] \<and> (\<forall>t\<in>set (last_on a s). t + REPORT_INTERVAL \<le> now))"
proof (cases "map_of (tracked s) addr")
  case None
  show ?thesis
  proof (cases "length (tracked s) < MAX_TRACKED")
    case True
    with None assms have "r = Some New"
      "s' = s\<lparr>tracked := AList.update addr \<lparr>e_count = 1, e_first_seen = now, e_last_reported = now\<rparr> (tracked s)\<rparr>"
      by (auto simp: ud_record_def)
    then show ?thesis using None
      by (auto simp: times_of_def report_times_def last_on_def update_conv')
  next
    case False
    with None assms have "tracked s' = tracked s" "r = None \<or> (\<exists>n. r = Some (Overflow n))"
      by (auto simp: ud_record_def Let_def split: option.splits if_splits)
    then show ?thesis by (auto simp: times_of_def report_times_def last_on_def)
  qed
next
  case (Some e)
  show ?thesis
  proof (cases "duration_since now (e_last_reported e) < REPORT_INTERVAL")
    case True
    with Some assms have "r = None" "s' = s\<lparr>tracked := AList.update addr (e\<lparr>e_count := e_count e + 1\<rparr>) (tracked s)\<rparr>"
      by (auto simp: ud_record_def Let_def)
    then show ?thesis using Some by (auto simp: times_of_def last_on_def update_conv')
  next
    case False
    with Some assms have "\<exists>c d. r = Some (Repeat c d)"
      "s' = s\<lparr>tracked := AList.update addr (e\<lparr>e_count := e_count e + 1, e_last_reported := now\<rparr>) (tracked s)\<rparr>"
      by (auto simp: ud_record_def Let_def)
    then show ?thesis using Some not_due [OF False]
      by (auto simp: times_of_def report_times_def last_on_def update_conv')
  qed
qed

lemma report_times_run:
  "ud_record now addr s = (r, s') \<Longrightarrow>
   report_times a (fst (ud_run ((now, addr) # ps) s)) = times_of a now addr r @ report_times a (fst (ud_run ps s'))"
  by (auto simp: times_of_def report_times_def split: option.split prod.split)

lemma last_on_cases: "last_on a s = [] \<or> (\<exists>t. last_on a s = [t])"
  by (auto simp: last_on_def split: option.split)

lemma ud_run_spaced_from: "spaced (last_on a s @ report_times a (fst (ud_run ps s)))"
proof (induction ps arbitrary: s)
  case Nil
  then show ?case using last_on_cases [of a s] by (auto simp: report_times_def spaced_def)
next
  case (Cons p ps)
  obtain now addr where p: "p = (now, addr)" by fastforce
  obtain r s' where r: "ud_record now addr s = (r, s')" by fastforce
  show ?case
    using ud_record_on [OF r, of a] Cons [of s'] last_on_cases [of a s] spaced_step
    unfolding p report_times_run [OF r] by auto
qed

lemma ud_record_overflow:
  assumes "ud_record now addr s = (r, s')"
  shows "((r = None \<or> (\<exists>x. r = Some x \<and> \<not> is_overflow x)) \<and> last_overflow s' = last_overflow s)
     \<or> ((\<exists>x. r = Some x \<and> is_overflow x) \<and> last_overflow s' = [now]
         \<and> (\<forall>t\<in>set (last_overflow s). t + REPORT_INTERVAL \<le> now))"
  using assms not_due [of now]
  by (auto simp: ud_record_def last_overflow_def Let_def split: option.splits if_splits)

lemma last_overflow_cases: "last_overflow s = [] \<or> (\<exists>t. last_overflow s = [t])"
  by (auto simp: last_overflow_def split: option.split)

lemma ud_run_overflow_spaced_from: "spaced (last_overflow s @ overflow_times (fst (ud_run ps s)))"
proof (induction ps arbitrary: s)
  case Nil
  then show ?case using last_overflow_cases [of s] by (auto simp: overflow_times_def spaced_def)
next
  case (Cons p ps)
  obtain now addr where p: "p = (now, addr)" by fastforce
  obtain r s' where r: "ud_record now addr s = (r, s')" by fastforce
  have eq: "overflow_times (fst (ud_run ((now, addr) # ps) s))
      = (case r of Some x \<Rightarrow> if is_overflow x then [now] else [] | None \<Rightarrow> []) @ overflow_times (fst (ud_run ps s'))"
    using r by (auto simp: overflow_times_def split: option.split prod.split)
  show ?case
    using ud_record_overflow [OF r] Cons [of s'] last_overflow_cases [of s] spaced_step
    unfolding p eq by auto
qed

section \<open>Properties\<close>

text \<open>C32: However many packets arrive from unregistered addresses, at most 256 addresses are tracked,
  each once; the log lines about one address are at least an hour apart, and so are the lines about
  the addresses beyond the 256.\<close>

theorem unknown_devices_bounded:
  "length (tracked (snd (ud_run ps unknown_none))) \<le> 256
   \<and> distinct (map fst (tracked (snd (ud_run ps unknown_none))))
   \<and> sorted_wrt (\<lambda>t t'. t + 3600 * 1000000000 \<le> t') (report_times a (fst (ud_run ps unknown_none)))
   \<and> sorted_wrt (\<lambda>t t'. t + 3600 * 1000000000 \<le> t') (overflow_times (fst (ud_run ps unknown_none)))"
proof -
  have "ud_inv (snd (ud_run ps unknown_none))"
    by (rule ud_run_inv) (simp add: ud_inv_def unknown_none_def)
  moreover have "spaced (report_times a (fst (ud_run ps unknown_none)))"
    using ud_run_spaced_from [of a unknown_none ps] by (simp add: last_on_def unknown_none_def)
  moreover have "spaced (overflow_times (fst (ud_run ps unknown_none)))"
    using ud_run_overflow_spaced_from [of unknown_none ps] by (simp add: last_overflow_def unknown_none_def)
  ultimately show ?thesis by (simp add: ud_inv_def spaced_def MAX_TRACKED_def REPORT_INTERVAL_def)
qed

end
