(* ===== verification/Ingest.thy ===== *)
theory Ingest
  imports ApiRegistry UnknownDevices Topic
begin

text \<open>\<open>src/api/src/ingest.rs\<close>: from MQTT publishes to rows of the readings table. The event loop
  of \<open>rumqttc\<close> delivers events one at a time; the bounded channel between the two tasks is a
  list. The JSON reader of an envelope (\<open>serde_json\<close>) is the parameter \<open>from_json\<close>.\<close>

record received_envelope =
  rcv_site :: site
  rcv_envelope :: observation_envelope

datatype rejected_publish =
    RejectedTopic topic_parse_error
  | RejectedPayload string
  | DeviceAddrMismatch device_addr device_addr

definition decode_publish ::
  "(bytes \<Rightarrow> string + observation_envelope) \<Rightarrow> string \<Rightarrow> bytes \<Rightarrow> rejected_publish + received_envelope" where
  "decode_publish from_json topic_str payload =
     (case topic_from_str topic_str of
        Inl e \<Rightarrow> Inl (RejectedTopic e)
      | Inr topic \<Rightarrow>
         (case from_json payload of
            Inl e \<Rightarrow> Inl (RejectedPayload e)
          | Inr envelope \<Rightarrow>
              if topic_addr topic \<noteq> env_addr envelope
              then Inl (DeviceAddrMismatch (topic_addr topic) (env_addr envelope))
              else Inr \<lparr>rcv_site = topic_site topic, rcv_envelope = envelope\<rparr>))"

section \<open>Storing\<close>

text \<open>What \<open>handle_envelope\<close> ends with: nothing escapes it, the outcome is only logged.\<close>

datatype handled =
    UnknownDevice "report option"
  | InvalidPacket
  | DbError sqlx_error
  | Stored

definition handle_envelope ::
  "aead \<Rightarrow> int \<Rightarrow> sqlx_error option \<Rightarrow> received_envelope \<Rightarrow> device_registry \<Rightarrow> unknown_devices \<Rightarrow> database
     \<Rightarrow> handled \<times> unknown_devices \<times> database" where
  "handle_envelope A now fault received reg unknown db =
     (let envelope = rcv_envelope received in
      case registry_get reg (env_addr envelope) of
        None \<Rightarrow>
          (case ud_record now (env_addr envelope) unknown of
             (rep, unknown') \<Rightarrow> (UnknownDevice rep, unknown', db))
      | Some device \<Rightarrow>
          (case open_envelope A envelope (reg_cipher device) of
             Inl err \<Rightarrow> (InvalidPacket, unknown, db)
           | Inr reading \<Rightarrow>
               (case insert_reading fault reading (reg_addr device) db of
                  (Inl err, db') \<Rightarrow> (DbError err, unknown, db')
                | (Inr _, db') \<Rightarrow> (Stored, unknown, db'))))"

section \<open>The subscription\<close>

datatype suback_code = SubSuccess nat | SubFailure

datatype mqtt_event =
    PollError
  | Publish string bytes
  | ConnAck bool
  | SubAck "suback_code list"
  | OtherEvent

datatype log_level = LevelDebug | LevelInfo | LevelWarn | LevelError

datatype ingest_action =
    Sleep nat
  | DropPublish rejected_publish log_level
  | Enqueued
  | QueueFull
  | ChannelClosed
  | RequestSubscription string nat
  | SubAckLogged log_level
  | Ignored

definition QUEUE_CAPACITY :: nat where "QUEUE_CAPACITY = 256"

definition drop_level :: "rejected_publish \<Rightarrow> log_level" where
  "drop_level err = (case err of DeviceAddrMismatch _ _ \<Rightarrow> LevelWarn | _ \<Rightarrow> LevelError)"

text \<open>\<open>codes.as_slice()\<close> against the four patterns; quality of service 1 is \<open>AtLeastOnce\<close>.\<close>

definition suback_level :: "suback_code list \<Rightarrow> log_level" where
  "suback_level codes =
     (case codes of
        [SubSuccess q] \<Rightarrow> if q = 1 then LevelInfo else LevelWarn
      | [SubFailure] \<Rightarrow> LevelError
      | _ \<Rightarrow> LevelWarn)"

text \<open>One turn of \<open>subscribe_mqtt\<close>'s loop; \<open>closed\<close> says whether the storing task is gone.\<close>

definition on_event ::
  "(bytes \<Rightarrow> string + observation_envelope) \<Rightarrow> bool \<Rightarrow> mqtt_event \<Rightarrow> received_envelope list
     \<Rightarrow> ingest_action \<times> received_envelope list" where
  "on_event from_json closed ev queue =
     (case ev of
        PollError \<Rightarrow> (Sleep 1, queue)
      | Publish topic_str payload \<Rightarrow>
         (case decode_publish from_json topic_str payload of
            Inl err \<Rightarrow> (DropPublish err (drop_level err), queue)
          | Inr received \<Rightarrow>
              if closed then (ChannelClosed, queue)
              else if length queue < QUEUE_CAPACITY then (Enqueued, queue @ [received])
              else (QueueFull, queue))
      | ConnAck session_present \<Rightarrow> (RequestSubscription TOPIC_SUBSCRIPTION 1, queue)
      | SubAck codes \<Rightarrow> (SubAckLogged (suback_level codes), queue)
      | OtherEvent \<Rightarrow> (Ignored, queue))"

section \<open>The two tasks\<close>

record ingest_state =
  ing_queue :: "received_envelope list"
  ing_unknown :: unknown_devices
  ing_registry :: device_registry
  ing_db :: database

text \<open>The tasks interleave with each other and with the HTTP handlers, which change the registry
  and the devices table, never the readings. \<open>pubs\<close> and \<open>regs\<close> record the publishes received and
  the registries there have been.\<close>

inductive ingest_step ::
  "aead \<Rightarrow> (bytes \<Rightarrow> string + observation_envelope)
     \<Rightarrow> ingest_state \<times> (string \<times> bytes) list \<times> device_registry list
     \<Rightarrow> ingest_state \<times> (string \<times> bytes) list \<times> device_registry list \<Rightarrow> bool" for A from_json where
  event: "on_event from_json False ev (ing_queue s) = (act, q)
    \<Longrightarrow> pubs' = (case ev of Publish t p \<Rightarrow> (t, p) # pubs | _ \<Rightarrow> pubs)
    \<Longrightarrow> ingest_step A from_json (s, pubs, regs) (s\<lparr>ing_queue := q\<rparr>, pubs', regs)"
| store: "ing_queue s = received # q
    \<Longrightarrow> handle_envelope A now fault received (ing_registry s) (ing_unknown s) (ing_db s) = (out, u, db)
    \<Longrightarrow> ingest_step A from_json (s, pubs, regs) (s\<lparr>ing_queue := q, ing_unknown := u, ing_db := db\<rparr>, pubs, regs)"
| admin: "readings_table db = readings_table (ing_db s)
    \<Longrightarrow> ingest_step A from_json (s, pubs, regs) (s\<lparr>ing_registry := reg, ing_db := db\<rparr>, pubs, reg # regs)"

inductive ingest_reachable ::
  "aead \<Rightarrow> (bytes \<Rightarrow> string + observation_envelope) \<Rightarrow> device_registry \<Rightarrow> database
     \<Rightarrow> ingest_state \<times> (string \<times> bytes) list \<times> device_registry list \<Rightarrow> bool" for A from_json reg db where
  start: "ingest_reachable A from_json reg db
            (\<lparr>ing_queue = [], ing_unknown = unknown_none, ing_registry = reg, ing_db = db\<rparr>, [], [reg])"
| step: "ingest_reachable A from_json reg db x \<Longrightarrow> ingest_step A from_json x y
    \<Longrightarrow> ingest_reachable A from_json reg db y"

section \<open>Provenance\<close>

lemma decode_publish_Inr_iff:
  "decode_publish from_json t p = Inr r \<longleftrightarrow>
     (\<exists>topic. topic_from_str t = Inr topic \<and> from_json p = Inr (rcv_envelope r)
        \<and> topic_addr topic = env_addr (rcv_envelope r) \<and> rcv_site r = topic_site topic)"
  by (cases r) (auto simp: decode_publish_def split: sum.splits)

text \<open>The row of an opened envelope.\<close>

definition row_of :: "sensor_reading \<Rightarrow> device_addr \<Rightarrow> reading_row" where
  "row_of rd addr = \<lparr>rr_time = rd_received_at rd, rr_addr = addr_as_i64 addr, rr_seq = ucast (rd_seq rd),
     rr_temp = rd_temperature rd, rr_rh = rd_relative_humidity rd, rr_battery = rd_battery rd, rr_rssi = rd_rssi rd\<rparr>"

lemma insert_reading_row:
  "\<exists>db'. insert_reading None rd addr db = (Inr (), db')
    \<and> (\<exists>r\<in>set (readings_table db'). rr_addr r = rr_addr (row_of rd addr) \<and> rr_seq r = rr_seq (row_of rd addr)
          \<and> rr_time r = rr_time (row_of rd addr))
    \<and> (row_of rd addr \<in> set (readings_table db') \<or> db' = db)"
  by (simp add: insert_reading_def row_of_def Let_def)

lemma handle_envelope_stored:
  assumes "registry_get reg (env_addr (rcv_envelope rcv)) = Some d"
    and "open_envelope A (rcv_envelope rcv) (reg_cipher d) = Inr rd"
  shows "\<exists>db'. handle_envelope A now None rcv reg unknown db = (Stored, unknown, db')
    \<and> (\<exists>r\<in>set (readings_table db'). rr_addr r = rr_addr (row_of rd (reg_addr d))
          \<and> rr_seq r = rr_seq (row_of rd (reg_addr d)) \<and> rr_time r = rr_time (row_of rd (reg_addr d)))
    \<and> (row_of rd (reg_addr d) \<in> set (readings_table db') \<or> db' = db)"
proof -
  obtain db' where "insert_reading None rd (reg_addr d) db = (Inr (), db')"
    "\<exists>r\<in>set (readings_table db'). rr_addr r = rr_addr (row_of rd (reg_addr d))
          \<and> rr_seq r = rr_seq (row_of rd (reg_addr d)) \<and> rr_time r = rr_time (row_of rd (reg_addr d))"
    "row_of rd (reg_addr d) \<in> set (readings_table db') \<or> db' = db"
    using insert_reading_row [of rd "reg_addr d" db] by blast
  then show ?thesis using assms by (simp add: handle_envelope_def Let_def)
qed

definition authentic ::
  "aead \<Rightarrow> (bytes \<Rightarrow> string + observation_envelope) \<Rightarrow> (string \<times> bytes) list \<Rightarrow> device_registry list
     \<Rightarrow> reading_row \<Rightarrow> bool" where
  "authentic A from_json pubs regs row \<longleftrightarrow>
     (\<exists>(t, p)\<in>set pubs. \<exists>reg\<in>set regs. \<exists>r d rd.
        decode_publish from_json t p = Inr r \<and> registry_get reg (env_addr (rcv_envelope r)) = Some d
        \<and> open_envelope A (rcv_envelope r) (reg_cipher d) = Inr rd \<and> row = row_of rd (reg_addr d))"

definition ingest_inv where
  "ingest_inv A from_json rows0 x \<longleftrightarrow>
     (case x of (s, pubs, regs) \<Rightarrow>
        length (ing_queue s) \<le> QUEUE_CAPACITY
      \<and> ud_inv (ing_unknown s)
      \<and> ing_registry s \<in> set regs
      \<and> (\<forall>r\<in>set (ing_queue s). \<exists>(t, p)\<in>set pubs. decode_publish from_json t p = Inr r)
      \<and> (\<forall>row\<in>set (readings_table (ing_db s)). row \<in> set rows0 \<or> authentic A from_json pubs regs row))"

lemma authenticI:
  assumes "\<exists>(t, p)\<in>set pubs. decode_publish from_json t p = Inr r" "reg \<in> set regs"
    and "registry_get reg (env_addr (rcv_envelope r)) = Some d"
    and "open_envelope A (rcv_envelope r) (reg_cipher d) = Inr rd"
  shows "authentic A from_json pubs regs (row_of rd (reg_addr d))"
proof -
  obtain t p where "(t, p) \<in> set pubs" "decode_publish from_json t p = Inr r"
    using assms(1) by auto
  then show ?thesis
    unfolding authentic_def using assms(2-4)
    by (intro bexI [of _ "(t, p)"] case_prodI bexI [of _ reg] exI [of _ r] exI [of _ d] exI [of _ rd]) simp_all
qed

lemma insert_reading_rows:
  "set (readings_table (snd (insert_reading fault rd addr db)))
     \<subseteq> insert (row_of rd addr) (set (readings_table db))"
  by (auto simp: insert_reading_def row_of_def Let_def split: option.split)

lemma authentic_mono:
  "authentic A from_json pubs regs row \<Longrightarrow> set pubs \<subseteq> set pubs' \<Longrightarrow> set regs \<subseteq> set regs'
     \<Longrightarrow> authentic A from_json pubs' regs' row"
  unfolding authentic_def by blast

lemma on_event_queue:
  assumes "on_event from_json closed ev queue = (act, q)"
  shows "length queue \<le> QUEUE_CAPACITY \<Longrightarrow> length q \<le> QUEUE_CAPACITY"
    and "r \<in> set q \<Longrightarrow> r \<in> set queue \<or> (\<exists>t p. ev = Publish t p \<and> decode_publish from_json t p = Inr r)"
  using assms by (auto simp: on_event_def split: mqtt_event.splits sum.splits if_splits)

lemma handle_envelope_cases:
  assumes "handle_envelope A now fault received reg u db = (out, u', db')"
  shows "(u' = u \<or> u' = snd (ud_record now (env_addr (rcv_envelope received)) u))"
    and "readings_table db' = readings_table db
       \<or> (\<exists>d rd. registry_get reg (env_addr (rcv_envelope received)) = Some d
            \<and> open_envelope A (rcv_envelope received) (reg_cipher d) = Inr rd
            \<and> set (readings_table db') \<subseteq> insert (row_of rd (reg_addr d)) (set (readings_table db)))"
proof -
  let ?a = "env_addr (rcv_envelope received)"
  have "(u' = u \<or> u' = snd (ud_record now ?a u)) \<and>
     (readings_table db' = readings_table db
       \<or> (\<exists>d rd. registry_get reg ?a = Some d
            \<and> open_envelope A (rcv_envelope received) (reg_cipher d) = Inr rd
            \<and> set (readings_table db') \<subseteq> insert (row_of rd (reg_addr d)) (set (readings_table db))))"
  proof (cases "registry_get reg ?a")
    case None
    then show ?thesis
      using assms by (cases "ud_record now ?a u") (simp add: handle_envelope_def Let_def)
  next
    case (Some d)
    note d = Some
    show ?thesis
    proof (cases "open_envelope A (rcv_envelope received) (reg_cipher d)")
      case (Inl e)
      then show ?thesis using assms d by (simp add: handle_envelope_def Let_def)
    next
      case (Inr rd)
      obtain r db1 where i: "insert_reading fault rd (reg_addr d) db = (r, db1)" by fastforce
      have "(out, u', db') = (case r of Inl err \<Rightarrow> (DbError err, u, db1) | Inr _ \<Rightarrow> (Stored, u, db1))"
        using assms unfolding handle_envelope_def Let_def d option.case Inr sum.case i prod.case
        by (cases r) (simp_all)
      then have "u' = u \<and> db' = db1" by (simp split: sum.splits)
      then show ?thesis
        using d Inr insert_reading_rows [of fault rd "reg_addr d" db] i by auto
    qed
  qed
  then show "u' = u \<or> u' = snd (ud_record now ?a u)"
    and "readings_table db' = readings_table db
       \<or> (\<exists>d rd. registry_get reg ?a = Some d
            \<and> open_envelope A (rcv_envelope received) (reg_cipher d) = Inr rd
            \<and> set (readings_table db') \<subseteq> insert (row_of rd (reg_addr d)) (set (readings_table db)))"
    by blast+
qed

lemma ingest_inv_step: "ingest_step A from_json x y \<Longrightarrow> ingest_inv A from_json rows0 x \<Longrightarrow> ingest_inv A from_json rows0 y"
proof (induction rule: ingest_step.induct)
  case (event ev s act q pubs' pubs regs)
  have sub: "set pubs \<subseteq> set pubs'" using event(2) by (auto split: mqtt_event.splits)
  have q: "\<exists>(t, p)\<in>set pubs'. decode_publish from_json t p = Inr r" if "r \<in> set q" for r
    using on_event_queue(2) [OF event(1) that] event(2,3) sub by (fastforce simp: ingest_inv_def)
  show ?case
    using event(3) on_event_queue(1) [OF event(1)] q authentic_mono [OF _ sub subset_refl]
    by (auto simp: ingest_inv_def)
next
  case (store s received q now fault out u db pubs regs)
  have u: "ud_inv u"
    using handle_envelope_cases(1) [OF store(2)] store(3) ud_record_inv by (auto simp: ingest_inv_def)
  have reg: "ing_registry s \<in> set regs" and r: "\<exists>(t, p)\<in>set pubs. decode_publish from_json t p = Inr received"
    using store(1,3) by (auto simp: ingest_inv_def)
  have rows: "row \<in> set rows0 \<or> authentic A from_json pubs regs row" if "row \<in> set (readings_table db)" for row
  proof (cases "row \<in> set (readings_table (ing_db s))")
    case True
    then show ?thesis using store(3) by (auto simp: ingest_inv_def)
  next
    case False
    obtain d rd where d: "registry_get (ing_registry s) (env_addr (rcv_envelope received)) = Some d"
      "open_envelope A (rcv_envelope received) (reg_cipher d) = Inr rd"
      and sub: "set (readings_table db) \<subseteq> insert (row_of rd (reg_addr d)) (set (readings_table (ing_db s)))"
      using handle_envelope_cases(2) [OF store(2)] \<open>row \<in> set (readings_table db)\<close> False by auto
    have "row = row_of rd (reg_addr d)" using sub \<open>row \<in> set (readings_table db)\<close> False by blast
    then show ?thesis using authenticI [OF r reg d] by simp
  qed
  show ?case using store(1,3) u reg rows by (auto simp: ingest_inv_def)
next
  case (admin db s pubs regs reg)
  then show ?case
    using authentic_mono [OF _ subset_refl, of A from_json pubs regs _ "reg # regs"]
    by (auto simp: ingest_inv_def)
qed

lemma ingest_inv_reachable:
  "ingest_reachable A from_json reg db x \<Longrightarrow> ingest_inv A from_json (readings_table db) x"
proof (induction rule: ingest_reachable.induct)
  case start
  then show ?case by (simp add: ingest_inv_def ud_inv_def unknown_none_def)
next
  case (step x y)
  then show ?case using ingest_inv_step by blast
qed

section \<open>Properties\<close>

text \<open>C6: Every row ingestion adds to the readings table is authentic, in any interleaving of the two
  tasks with the administration of devices: it comes from a publish whose topic names the device
  of its envelope, the device was registered, and the envelope's packet opened under that device's
  key. The queue never holds more than 256 envelopes.\<close>

theorem stored_readings_authentic:
  assumes "ingest_reachable A from_json reg0 db0 (s, pubs, regs)"
  shows "length (ing_queue s) \<le> 256
   \<and> (\<forall>row\<in>set (readings_table (ing_db s)). row \<in> set (readings_table db0)
        \<or> (\<exists>(t, p)\<in>set pubs. \<exists>reg\<in>set regs. \<exists>topic envelope d rd.
              topic_from_str t = Inr topic \<and> from_json p = Inr envelope \<and> topic_addr topic = env_addr envelope
            \<and> registry_get reg (env_addr envelope) = Some d
            \<and> open_envelope A envelope (reg_cipher d) = Inr rd \<and> row = row_of rd (reg_addr d)))"
proof -
  have inv: "ingest_inv A from_json (readings_table db0) (s, pubs, regs)"
    by (rule ingest_inv_reachable [OF assms])
  have "\<exists>(t, p)\<in>set pubs. \<exists>reg\<in>set regs. \<exists>topic envelope d rd.
              topic_from_str t = Inr topic \<and> from_json p = Inr envelope \<and> topic_addr topic = env_addr envelope
            \<and> registry_get reg (env_addr envelope) = Some d
            \<and> open_envelope A envelope (reg_cipher d) = Inr rd \<and> row = row_of rd (reg_addr d)"
    if "authentic A from_json pubs regs row" for row
  proof -
    obtain t p reg r d rd where x: "(t, p) \<in> set pubs" "reg \<in> set regs" "decode_publish from_json t p = Inr r"
      "registry_get reg (env_addr (rcv_envelope r)) = Some d"
      "open_envelope A (rcv_envelope r) (reg_cipher d) = Inr rd" "row = row_of rd (reg_addr d)"
      using \<open>authentic A from_json pubs regs row\<close> unfolding authentic_def by blast
    obtain topic where "topic_from_str t = Inr topic" "from_json p = Inr (rcv_envelope r)"
      "topic_addr topic = env_addr (rcv_envelope r)"
      using x(3) by (auto simp: decode_publish_Inr_iff)
    then show ?thesis
      using x by (intro bexI [of _ "(t, p)"] case_prodI bexI [of _ reg] exI [of _ topic]
          exI [of _ "rcv_envelope r"] exI [of _ d] exI [of _ rd]) simp_all
  qed
  then show ?thesis using inv by (auto simp: ingest_inv_def QUEUE_CAPACITY_def)
qed

theorem stored_readings_authentic_witness:
  "\<exists>s pubs regs. ingest_reachable clear_aead (\<lambda>_. Inl []) sample_registry sample_db (s, pubs, regs)
     \<and> length (ing_queue s) \<le> 256 \<and> pubs = [(''x'', [1])]"
proof -
  let ?s = "\<lparr>ing_queue = [], ing_unknown = unknown_none, ing_registry = sample_registry, ing_db = sample_db\<rparr>"
  have e: "on_event (\<lambda>_. Inl []) False (Publish ''x'' [1]) (ing_queue ?s)
      = (DropPublish (RejectedTopic Shape) LevelError, [])"
    by (simp add: on_event_def decode_publish_def topic_from_str_def drop_level_def)
  have r: "ingest_reachable clear_aead (\<lambda>_. Inl []) sample_registry sample_db
      (?s\<lparr>ing_queue := []\<rparr>, [(''x'', [1])], [sample_registry])"
    by (rule ingest_reachable.step [OF ingest_reachable.start ingest_step.event [OF e]]) simp
  show ?thesis using stored_readings_authentic [OF r] r by blast
qed

end
