(* ===== verification/Nvmc.thy ===== *)
theory Nvmc
  imports Effects UicrRecord
begin

text \<open>\<open>src/provision/src/chip/nvmc.rs\<close> and \<open>memory.rs\<close>: reading the chip's memory over the
  debug probe and programming its flash through the non-volatile memory controller.

  The chip is the environment: \<open>core_mem\<close> is what the memory holds, \<open>core_config\<close> the
  controller's \<open>CONFIG\<close> register. A write to flash or UICR clears bits and takes effect only in
  the mode for it, an erase sets a page or all of UICR (nRF52840 product specification, NVMC). Each
  access of the probe is one step of \<open>core_script\<close>: it takes at least a nanosecond, it may fail,
  and a write that fails may have reached the chip or not. The script ranges over all behaviours.\<close>

type_synonym probe_error = string

record access =
  a_failure :: "(probe_error \<times> bool) option"
  a_busy :: bool
  a_time :: nat

record core =
  core_mem :: "nat \<Rightarrow> u32"
  core_config :: u32
  core_clock :: nat
  core_step :: nat
  core_script :: "nat \<Rightarrow> access"

definition ERASED :: u32 where "ERASED = 0xFFFFFFFF"
definition PAGE_SIZE :: nat where "PAGE_SIZE = 4096"
definition UICR_CUSTOMER :: nat where "UICR_CUSTOMER = 0x10001080"
definition FICR_DEVICE_ADDR :: nat where "FICR_DEVICE_ADDR = 0x100000A4"

definition NVMC_CONFIG :: nat where "NVMC_CONFIG = 0x4001E504"
definition NVMC_READY :: nat where "NVMC_READY = 0x4001E400"
definition NVMC_ERASEUICR :: nat where "NVMC_ERASEUICR = 0x4001E514"
definition NVMC_ERASEPAGE :: nat where "NVMC_ERASEPAGE = 0x4001E508"
definition ERASEUICR :: u32 where "ERASEUICR = 1"

text \<open>15 seconds, in nanoseconds.\<close>

definition NVMC_READY_TIMEOUT :: nat where "NVMC_READY_TIMEOUT = 15000000000"

lemmas nvmc_addresses = NVMC_CONFIG_def NVMC_READY_def NVMC_ERASEUICR_def NVMC_ERASEPAGE_def UICR_CUSTOMER_def

datatype nvmc_mode = ReadOnly | WriteEnabled | EraseEnabled

fun mode_value :: "nvmc_mode \<Rightarrow> u32" where
  "mode_value ReadOnly = 0"
| "mode_value WriteEnabled = 1"
| "mode_value EraseEnabled = 2"

section \<open>The chip behind the probe\<close>

definition in_flash :: "nat \<Rightarrow> bool" where "in_flash a \<longleftrightarrow> a < 0x100000"
definition in_uicr :: "nat \<Rightarrow> bool" where "in_uicr a \<longleftrightarrow> 0x10001000 \<le> a \<and> a < 0x10002000"

definition bus_write :: "nat \<Rightarrow> u32 \<Rightarrow> core \<Rightarrow> core" where
  "bus_write a v c =
     (if a = NVMC_CONFIG then c\<lparr>core_config := v\<rparr>
      else if a = NVMC_ERASEUICR then
        (if core_config c = 2 \<and> v = 1 then c\<lparr>core_mem := \<lambda>x. if in_uicr x then ERASED else core_mem c x\<rparr> else c)
      else if a = NVMC_ERASEPAGE then
        (if core_config c = 2
         then c\<lparr>core_mem := \<lambda>x. if in_flash x \<and> x div PAGE_SIZE = unat v div PAGE_SIZE then ERASED else core_mem c x\<rparr>
         else c)
      else if in_flash a \<or> in_uicr a then
        (if core_config c = 1 then c\<lparr>core_mem := (core_mem c)(a := and (core_mem c a) v)\<rparr> else c)
      else c\<lparr>core_mem := (core_mem c)(a := v)\<rparr>)"

definition probe_access :: "(core \<Rightarrow> core) \<Rightarrow> (access \<Rightarrow> core \<Rightarrow> 'a) \<Rightarrow> (core, probe_error, 'a) comp" where
  "probe_access eff result c =
     (let a = core_script c (core_step c);
          c1 = c\<lparr>core_step := core_step c + 1, core_clock := core_clock c + 1 + a_time a\<rparr>
      in case a_failure a of
           Some (e, reached) \<Rightarrow> (Inl e, if reached then eff c1 else c1)
         | None \<Rightarrow> (Inr (result a c1), eff c1))"

definition write_word_32 :: "nat \<Rightarrow> u32 \<Rightarrow> (core, probe_error, unit) comp" where
  "write_word_32 a v = probe_access (bus_write a v) (\<lambda>_ _. ())"

definition read_word_32 :: "nat \<Rightarrow> (core, probe_error, u32) comp" where
  "read_word_32 a =
     probe_access (\<lambda>c. c) (\<lambda>acc c. if a = NVMC_READY then (if a_busy acc then 0 else 1) else core_mem c a)"

definition read_32 :: "nat \<Rightarrow> nat \<Rightarrow> (core, probe_error, u32 list) comp" where
  "read_32 a n = probe_access (\<lambda>c. c) (\<lambda>_ c. map (\<lambda>i. core_mem c (a + 4 * i)) [0..<n])"

text \<open>Accesses that only touch the debug interface: \<open>session.core(0)\<close>, \<open>flush\<close>, \<open>halt\<close>, \<open>reset\<close>.\<close>

definition probe_control :: "(core, probe_error, unit) comp" where
  "probe_control = probe_access (\<lambda>c. c) (\<lambda>_ _. ())"

section \<open>The controller: nvmc.rs\<close>

datatype nvmc_error = NvmcProbe probe_error | NvmcTimeout

definition set_mode :: "nvmc_mode \<Rightarrow> (core, probe_error, unit) comp" where
  "set_mode mode = write_word_32 NVMC_CONFIG (mode_value mode)"

text \<open>\<open>finish\<close>: both clean-up steps run whatever the closure did; its error comes first.\<close>

definition finish :: "nvmc_error + 'a \<Rightarrow> (core, nvmc_error, 'a) comp" where
  "finish closure_result c =
     (case set_mode ReadOnly c of (restored, c1) \<Rightarrow>
      case probe_control c1 of (flushed, c2) \<Rightarrow>
        (bind_result closure_result (\<lambda>v.
           bind_result (map_err NvmcProbe restored) (\<lambda>_.
             bind_result (map_err NvmcProbe flushed) (\<lambda>_. Inr v))), c2))"

definition with_mode :: "nvmc_mode \<Rightarrow> (core, nvmc_error, 'a) comp \<Rightarrow> (core, nvmc_error, 'a) comp" where
  "with_mode mode f =
     and_then (with_err NvmcProbe (set_mode mode)) (\<lambda>_ c.
       case f c of (closure_result, c1) \<Rightarrow> finish closure_result c1)"

definition with_write_enabled :: "(core, nvmc_error, 'a) comp \<Rightarrow> (core, nvmc_error, 'a) comp" where
  "with_write_enabled f = with_mode WriteEnabled f"

definition with_erase_enabled :: "(core, nvmc_error, 'a) comp \<Rightarrow> (core, nvmc_error, 'a) comp" where
  "with_erase_enabled f = with_mode EraseEnabled f"

text \<open>The loop on \<open>READY\<close>, with \<open>started\<close> the time the write began; it returns because every
  access takes time.\<close>

function wait_ready :: "nat \<Rightarrow> (core, nvmc_error, unit) comp" where
  "wait_ready started c =
     (case read_word_32 NVMC_READY c of
        (Inl e, c1) \<Rightarrow> (Inl (NvmcProbe e), c1)
      | (Inr r, c1) \<Rightarrow>
          if and r 1 \<noteq> 0 then (Inr (), c1)
          else if core_clock c1 - started > NVMC_READY_TIMEOUT then (Inl NvmcTimeout, c1)
          else wait_ready started c1)"
  by pat_completeness auto
termination
  by (relation "measure (\<lambda>(started, c). started + NVMC_READY_TIMEOUT + 1 - core_clock c)")
     (auto simp: read_word_32_def probe_access_def Let_def split: option.splits)

declare wait_ready.simps [simp del]

definition write_word :: "nat \<Rightarrow> u32 \<Rightarrow> (core, nvmc_error, unit) comp" where
  "write_word address w c =
     and_then (with_err NvmcProbe (write_word_32 address w)) (\<lambda>_. wait_ready (core_clock c)) c"

fun write_words :: "nat \<Rightarrow> u32 list \<Rightarrow> (core, nvmc_error, unit) comp" where
  "write_words address [] = return_ok ()"
| "write_words address (w # ws) = and_then (write_word address w) (\<lambda>_. write_words (address + 4) ws)"

definition erase_uicr :: "(core, nvmc_error, unit) comp" where
  "erase_uicr = write_word NVMC_ERASEUICR ERASEUICR"

definition erase_page :: "nat \<Rightarrow> (core, nvmc_error, unit) comp" where
  "erase_page address = write_word NVMC_ERASEPAGE (of_nat address)"

section \<open>Reading back: memory.rs\<close>

definition CHUNK_SIZE :: nat where "CHUNK_SIZE = 128"

record mismatch =
  mm_address :: nat
  mm_expected :: u32
  mm_actual :: u32

fun first_mismatch :: "nat \<Rightarrow> u32 list \<Rightarrow> u32 list \<Rightarrow> mismatch option" where
  "first_mismatch address (actual # as) (expected # es) =
     (if actual \<noteq> expected
      then Some \<lparr>mm_address = address, mm_expected = expected, mm_actual = actual\<rparr>
      else first_mismatch (address + 4) as es)"
| "first_mismatch address _ _ = None"

fun mismatch_chunks :: "nat \<Rightarrow> u32 list list \<Rightarrow> (core, probe_error, mismatch option) comp" where
  "mismatch_chunks address [] = return_ok None"
| "mismatch_chunks address (ch # chs) =
     and_then (read_32 address (length ch)) (\<lambda>buf.
       case first_mismatch address buf ch of
         Some m \<Rightarrow> return_ok (Some m)
       | None \<Rightarrow> mismatch_chunks (address + length ch * 4) chs)"

definition find_mismatch :: "nat \<Rightarrow> u32 list \<Rightarrow> (core, probe_error, mismatch option) comp" where
  "find_mismatch address ws = mismatch_chunks address (slice_chunks CHUNK_SIZE ws)"

definition read_words :: "nat \<Rightarrow> nat \<Rightarrow> (core, probe_error, u32 list) comp" where
  "read_words n address = read_32 address n"

section \<open>Contracts\<close>

text \<open>\<open>at sc k m\<close>: the chip's script, the controller's mode and the memory. A healthy script has
  no failure and no busy controller in it; it is the only way for an error to be excluded.\<close>

definition at :: "(nat \<Rightarrow> access) \<Rightarrow> u32 \<Rightarrow> (nat \<Rightarrow> u32) \<Rightarrow> core \<Rightarrow> bool" where
  "at sc k m c \<longleftrightarrow> core_script c = sc \<and> core_config c = k \<and> core_mem c = m"

definition at_mem :: "(nat \<Rightarrow> access) \<Rightarrow> (nat \<Rightarrow> u32) \<Rightarrow> core \<Rightarrow> bool" where
  "at_mem sc m c \<longleftrightarrow> core_script c = sc \<and> core_mem c = m"

definition healthy :: "(nat \<Rightarrow> access) \<Rightarrow> bool" where
  "healthy sc \<longleftrightarrow> (\<forall>n. a_failure (sc n) = None \<and> \<not> a_busy (sc n))"

text \<open>An ordinary data address: neither a register of the controller.\<close>

definition plain :: "nat \<Rightarrow> bool" where
  "plain a \<longleftrightarrow> in_flash a \<or> in_uicr a"

lemma plain_not_register: "plain a \<Longrightarrow> a \<noteq> NVMC_CONFIG \<and> a \<noteq> NVMC_ERASEUICR \<and> a \<noteq> NVMC_ERASEPAGE \<and> a \<noteq> NVMC_READY"
  by (auto simp: plain_def in_flash_def in_uicr_def nvmc_addresses)

lemma holds_read_32:
  "holds (at sc k m) (read_32 a n) (\<lambda>buf c. at sc k m c \<and> buf = map (\<lambda>i. m (a + 4 * i)) [0..<n])
     (\<lambda>_ c. at sc k m c \<and> \<not> healthy sc)"
  by (auto simp: holds_def read_32_def probe_access_def at_def healthy_def Let_def split: option.splits)

lemma holds_read_word_32:
  "a \<noteq> NVMC_READY \<Longrightarrow> holds (at sc k m) (read_word_32 a) (\<lambda>w c. at sc k m c \<and> w = m a) (\<lambda>_ c. at sc k m c \<and> \<not> healthy sc)"
  by (auto simp: holds_def read_word_32_def probe_access_def at_def healthy_def Let_def split: option.splits)

lemma holds_probe_control:
  "holds (at sc k m) probe_control (\<lambda>_. at sc k m) (\<lambda>_ c. at sc k m c \<and> \<not> healthy sc)"
  by (auto simp: holds_def probe_control_def probe_access_def at_def healthy_def Let_def split: option.splits)

text \<open>Every write, by where it goes.\<close>

lemma bus_write_plain:
  assumes "plain a" "at sc 1 m c"
  shows "at sc 1 (m(a := and (m a) v)) (bus_write a v c)"
  using assms plain_not_register [OF assms(1)] by (auto simp: bus_write_def at_def plain_def)

lemma bus_write_config: "at sc k m c \<Longrightarrow> at sc v m (bus_write NVMC_CONFIG v c)"
  by (simp add: bus_write_def at_def)

lemma bus_write_erase_uicr:
  "at sc 2 m c \<Longrightarrow> at sc 2 (\<lambda>x. if in_uicr x then ERASED else m x) (bus_write NVMC_ERASEUICR 1 c)"
  by (auto simp: bus_write_def at_def nvmc_addresses fun_eq_iff)

lemma bus_write_erase_page:
  "at sc 2 m c \<Longrightarrow> at sc 2 (\<lambda>x. if in_flash x \<and> x div PAGE_SIZE = unat v div PAGE_SIZE then ERASED else m x)
      (bus_write NVMC_ERASEPAGE v c)"
  by (auto simp: bus_write_def at_def nvmc_addresses fun_eq_iff)

lemma holds_write_word_32:
  assumes "\<And>c. at sc k m c \<Longrightarrow> at sc k' m' (bus_write a v c)"
  shows "holds (at sc k m) (write_word_32 a v) (\<lambda>_. at sc k' m')
     (\<lambda>_ c. (at sc k m c \<or> at sc k' m' c) \<and> \<not> healthy sc)"
proof (rule holdsI)
  fix c x c' assume "at sc k m c" "write_word_32 a v c = (Inr x, c')"
  then show "at sc k' m' c'"
    by (auto simp: write_word_32_def probe_access_def Let_def split: option.splits prod.splits intro!: assms)
       (simp add: at_def)
next
  fix c e c' assume c: "at sc k m c" and w: "write_word_32 a v c = (Inl e, c')"
  obtain r where f: "a_failure (core_script c (core_step c)) = Some (e, r)"
    using w by (auto simp: write_word_32_def probe_access_def Let_def split: option.splits)
  let ?c1 = "c\<lparr>core_step := core_step c + 1, core_clock := core_clock c + 1 + a_time (core_script c (core_step c))\<rparr>"
  have c1: "at sc k m ?c1" using c by (simp add: at_def)
  have "c' = (if r then bus_write a v ?c1 else ?c1)"
    using w f by (auto simp: write_word_32_def probe_access_def Let_def split: option.splits prod.splits)
  then show "(at sc k m c' \<or> at sc k' m' c') \<and> \<not> healthy sc"
    using assms [OF c1] c1 f c by (auto simp: healthy_def at_def)
qed

lemma wait_ready_state: "wait_ready started c = (r, c') \<Longrightarrow> at sc k m c \<Longrightarrow> at sc k m c' \<and> (r = Inr () \<or> \<not> healthy sc)"
proof (induction started c rule: wait_ready.induct)
  case (1 started c)
  obtain q c1 where q: "read_word_32 NVMC_READY c = (q, c1)" by fastforce
  have a1: "at sc k m c1" using q 1(3)
    by (auto simp: read_word_32_def probe_access_def at_def Let_def split: option.splits)
  show ?case
  proof (cases q)
    case (Inl e)
    then have "\<not> healthy sc" using q 1(3)
      by (auto simp: read_word_32_def probe_access_def at_def healthy_def Let_def split: option.splits)
    then show ?thesis using 1(2) a1 q Inl by (subst (asm) wait_ready.simps) auto
  next
    case (Inr w)
    have h: "w = 1 \<or> \<not> healthy sc" using q 1(3) Inr
      by (auto simp: read_word_32_def probe_access_def at_def healthy_def Let_def split: option.splits)
    show ?thesis
    proof (cases "and w 1 = 0 \<and> \<not> core_clock c1 - started > NVMC_READY_TIMEOUT")
      case True
      then have "wait_ready started c1 = (r, c')"
        using 1(2) q Inr by (subst (asm) wait_ready.simps) simp
      then show ?thesis using 1(1) [OF q [symmetric] Inr] True a1 by blast
    next
      case False
      then show ?thesis using 1(2) a1 q Inr h by (subst (asm) wait_ready.simps) (auto split: if_splits)
    qed
  qed
qed

lemma holds_wait_ready:
  "holds (at sc k m) (wait_ready started) (\<lambda>_. at sc k m) (\<lambda>_ c. at sc k m c \<and> \<not> healthy sc)"
  by (rule holdsI) (use wait_ready_state in blast)+

lemma holds_write_word:
  assumes "\<And>c. at sc k m c \<Longrightarrow> at sc k' m' (bus_write a v c)"
  shows "holds (at sc k m) (write_word a v) (\<lambda>_. at sc k' m')
     (\<lambda>_ c. (at sc k m c \<or> at sc k' m' c) \<and> \<not> healthy sc)"
proof -
  have "holds (at sc k m) (and_then (with_err NvmcProbe (write_word_32 a v)) (\<lambda>_. wait_ready t)) (\<lambda>_. at sc k' m')
     (\<lambda>_ c. (at sc k m c \<or> at sc k' m' c) \<and> \<not> healthy sc)" for t
    by (rule holds_and_then, rule holds_with_err, rule holds_write_word_32, rule assms, assumption)
       (rule holds_conseq [OF holds_wait_ready], auto)
  then show ?thesis by (simp add: holds_def write_word_def)
qed

lemma holds_program_word:
  assumes "plain a"
  shows "holds (at sc 1 m) (write_word a v) (\<lambda>_. at sc 1 (m(a := and (m a) v)))
     (\<lambda>_ c. (at sc 1 m c \<or> at sc 1 (m(a := and (m a) v)) c) \<and> \<not> healthy sc)"
  by (rule holds_write_word) (rule bus_write_plain [OF assms])

text \<open>What programming words one after the other leaves in memory.\<close>

fun programmed :: "(nat \<Rightarrow> u32) \<Rightarrow> nat \<Rightarrow> u32 list \<Rightarrow> nat \<Rightarrow> u32" where
  "programmed m a [] = m"
| "programmed m a (w # ws) = programmed (m(a := and (m a) w)) (a + 4) ws"

lemma programmed_below: "x < a \<Longrightarrow> programmed m a ws x = m x"
  by (induction ws arbitrary: m a) auto

lemma programmed_other:
  "\<forall>i<length ws. x \<noteq> a + 4 * i \<Longrightarrow> programmed m a ws x = m x"
proof (induction ws arbitrary: m a)
  case (Cons w ws)
  have "\<forall>i<length ws. x \<noteq> a + 4 + 4 * i"
  proof (intro allI impI)
    fix i assume "i < length ws"
    then show "x \<noteq> a + 4 + 4 * i" using Cons.prems [rule_format, of "Suc i"] by simp
  qed
  moreover have "x \<noteq> a" using Cons.prems [rule_format, of 0] by simp
  ultimately show ?case using Cons.IH by simp
qed simp

lemma programmed_nth: "i < length ws \<Longrightarrow> programmed m a ws (a + 4 * i) = and (m (a + 4 * i)) (ws ! i)"
proof (induction ws arbitrary: m a i)
  case (Cons w ws)
  show ?case
  proof (cases i)
    case 0
    then show ?thesis using programmed_below [of a "a + 4"] by simp
  next
    case (Suc j)
    then show ?thesis using Cons.IH [of j "m(a := and (m a) w)" "a + 4"] Cons.prems by (simp add: algebra_simps fun_upd_def)
  qed
qed simp

lemma holds_write_words:
  "\<forall>i<length ws. plain (a + 4 * i) \<Longrightarrow>
   holds (at sc 1 m) (write_words a ws) (\<lambda>_. at sc 1 (programmed m a ws))
     (\<lambda>_ c. (\<exists>k\<le>length ws. at sc 1 (programmed m a (take k ws)) c) \<and> \<not> healthy sc)"
proof (induction ws arbitrary: a m)
  case Nil
  show ?case by (simp add: holds_return)
next
  case (Cons w ws)
  have a: "plain a" using Cons.prems [rule_format, of 0] by simp
  have rest: "\<forall>i<length ws. plain (a + 4 + 4 * i)"
    using Cons.prems by (auto dest: spec [of _ "Suc _"] simp: algebra_simps)
  let ?m1 = "m(a := and (m a) w)"
  let ?E = "\<lambda>(_ :: nvmc_error) c. (\<exists>k\<le>length (w # ws). at sc 1 (programmed m a (take k (w # ws))) c) \<and> \<not> healthy sc"
  have 1: "holds (at sc 1 m) (write_word a w) (\<lambda>_. at sc 1 ?m1) ?E"
  proof (rule holds_conseq [OF holds_program_word [OF a, of sc m w]])
    fix e c assume c: "(at sc 1 m c \<or> at sc 1 ?m1 c) \<and> \<not> healthy sc"
    have "at sc 1 (programmed m a (take 0 (w # ws))) c \<or> at sc 1 (programmed m a (take 1 (w # ws))) c" using c by simp
    moreover have "1 \<le> length (w # ws)" by simp
    ultimately show "?E e c" using c by blast
  qed
  have 2: "holds (at sc 1 ?m1) (write_words (a + 4) ws) (\<lambda>_. at sc 1 (programmed m a (w # ws))) ?E"
  proof (rule holds_conseq [OF Cons.IH [OF rest]])
    fix e c assume c: "(\<exists>k\<le>length ws. at sc 1 (programmed ?m1 (a + 4) (take k ws)) c) \<and> \<not> healthy sc"
    then obtain k where "k \<le> length ws" "at sc 1 (programmed m a (take (Suc k) (w # ws))) c" by auto
    then show "?E e c" using c by (metis Suc_le_mono length_Cons)
  qed (simp_all add: fun_upd_def)
  show ?case using holds_and_then [OF 1 2] by simp
qed

lemma holds_set_mode:
  "holds (at sc k m) (set_mode mode) (\<lambda>_. at sc (mode_value mode) m) (\<lambda>_ c. at_mem sc m c \<and> \<not> healthy sc)"
  unfolding set_mode_def
  by (rule holds_conseq [OF holds_write_word_32 [OF bus_write_config]]) (auto simp: at_def at_mem_def)

text \<open>Whatever the closure does to the memory, the controller ends in its read-only mode when the
  whole operation succeeds, and the memory is the closure's either way.\<close>

lemma finish_state:
  assumes "finish cr c = (r, c')" "at sc k m c"
  shows "at_mem sc m c' \<and> (\<forall>x. r = Inr x \<longrightarrow> cr = Inr x \<and> at sc 0 m c') \<and> (\<forall>e. r = Inl e \<longrightarrow> cr = Inl e \<or> \<not> healthy sc)"
proof -
  obtain q c1 where q: "set_mode ReadOnly c = (q, c1)" by fastforce
  have c1: "at_mem sc m c1" "q = Inr () \<Longrightarrow> at sc 0 m c1" "q = Inr () \<or> \<not> healthy sc"
    using q assms(2) holds_Inr [OF holds_set_mode, of sc k m c ReadOnly]
      holds_Inl [OF holds_set_mode, of sc k m c ReadOnly]
    by (cases q; fastforce simp: at_def at_mem_def)+
  obtain k1 where k1: "at sc k1 m c1" using c1(1) by (auto simp: at_def at_mem_def)
  obtain f c2 where f: "probe_control c1 = (f, c2)" by fastforce
  have c2: "at sc k1 m c2" "f = Inr () \<or> \<not> healthy sc"
    using f k1 holds_Inr [OF holds_probe_control k1] holds_Inl [OF holds_probe_control k1] by (cases f; fastforce)+
  show ?thesis using assms q f c1 c2 k1
    by (cases cr; cases q; cases f) (auto simp: finish_def at_mem_def at_def)
qed

lemma holds_with_mode:
  assumes "holds (at sc (mode_value mode) m) f (\<lambda>x c. \<exists>k m'. at sc k m' c \<and> Q x m')
      (\<lambda>e c. (\<exists>k m'. at sc k m' c \<and> E e m'))"
    and "\<And>x m' e. Q x m' \<Longrightarrow> \<not> healthy sc \<Longrightarrow> E e m'" "\<And>e. \<not> healthy sc \<Longrightarrow> E e m"
  shows "holds (at sc k m) (with_mode mode f) (\<lambda>x c. \<exists>m'. at sc 0 m' c \<and> Q x m') (\<lambda>e c. \<exists>m'. at_mem sc m' c \<and> E e m')"
proof -
  let ?g = "\<lambda>c. case f c of (cr, c1) \<Rightarrow> finish cr c1"
  have 1: "holds (at sc k m) (with_err NvmcProbe (set_mode mode)) (\<lambda>_. at sc (mode_value mode) m)
      (\<lambda>e c. \<exists>m'. at_mem sc m' c \<and> E e m')"
    by (rule holds_with_err, rule holds_conseq [OF holds_set_mode]) (use assms(3) in auto)
  have 2: "holds (at sc (mode_value mode) m) ?g (\<lambda>x c. \<exists>m'. at sc 0 m' c \<and> Q x m') (\<lambda>e c. \<exists>m'. at_mem sc m' c \<and> E e m')"
  proof (rule holdsI)
    fix c x c' assume c: "at sc (mode_value mode) m c" and r: "?g c = (Inr x, c')"
    obtain cr c1 where f: "f c = (cr, c1)" "finish cr c1 = (Inr x, c')" using r by (cases "f c") auto
    have "cr = Inr x"
      using f(2) by (cases cr) (auto simp: finish_def split: prod.splits)
    then obtain k m' where "at sc k m' c1" "Q x m'" using holds_Inr [OF assms(1) c] f(1) by blast
    then show "\<exists>m'. at sc 0 m' c' \<and> Q x m'" using finish_state [OF f(2)] by blast
  next
    fix c e c' assume c: "at sc (mode_value mode) m c" and r: "?g c = (Inl e, c')"
    obtain cr c1 where f: "f c = (cr, c1)" "finish cr c1 = (Inl e, c')" using r by (cases "f c") auto
    show "\<exists>m'. at_mem sc m' c' \<and> E e m'"
    proof (cases cr)
      case (Inl e')
      then have "e' = e" using f(2) by (auto simp: finish_def split: prod.splits)
      moreover obtain k m' where "at sc k m' c1" "E e' m'" using holds_Inl [OF assms(1) c] f(1) Inl by blast
      ultimately show ?thesis using finish_state [OF f(2)] by blast
    next
      case (Inr x)
      then obtain k m' where "at sc k m' c1" "Q x m'" using holds_Inr [OF assms(1) c] f(1) by blast
      then show ?thesis using finish_state [OF f(2)] Inr assms(2) by fastforce
    qed
  qed
  show ?thesis using holds_and_then [OF 1, of "\<lambda>_. ?g"] 2 by (simp add: with_mode_def)
qed

definition words_at :: "(nat \<Rightarrow> u32) \<Rightarrow> nat \<Rightarrow> nat \<Rightarrow> u32 list" where
  "words_at m a n = map (\<lambda>i. m (a + 4 * i)) [0..<n]"

lemma words_at_length [simp]: "length (words_at m a n) = n"
  by (simp add: words_at_def)

lemma words_at_add: "words_at m a (n + k) = words_at m a n @ words_at m (a + n * 4) k"
  by (rule nth_equalityI) (auto simp: words_at_def nth_append algebra_simps)

lemma first_mismatch_None:
  "length xs = length ys \<Longrightarrow> first_mismatch a xs ys = None \<longleftrightarrow> xs = ys"
  by (induction a xs ys rule: first_mismatch.induct) auto

lemma holds_mismatch_chunks:
  "holds (at sc k m) (mismatch_chunks a chs)
     (\<lambda>r c. at sc k m c \<and> (r = None \<longleftrightarrow> words_at m a (length (concat chs)) = concat chs))
     (\<lambda>_ c. at sc k m c \<and> \<not> healthy sc)"
proof (induction chs arbitrary: a)
  case Nil
  show ?case by (simp add: words_at_def holds_return)
next
  case (Cons ch chs)
  let ?Q = "\<lambda>r c. at sc k m c \<and> (r = None \<longleftrightarrow> words_at m a (length (concat (ch # chs))) = concat (ch # chs))"
  let ?E = "\<lambda>_ c. at sc k m c \<and> \<not> healthy sc"
  let ?rest = "\<lambda>buf. case first_mismatch a buf ch of Some mm \<Rightarrow> return_ok (Some mm)
       | None \<Rightarrow> mismatch_chunks (a + length ch * 4) chs"
  have "holds (\<lambda>c. at sc k m c \<and> buf = words_at m a (length ch)) (?rest buf) ?Q ?E" for buf
  proof (cases "first_mismatch a buf ch")
    case None
    show ?thesis
    proof (cases "buf = words_at m a (length ch)")
      case True
      then have "words_at m a (length ch) = ch" using None by (simp add: first_mismatch_None)
      then show ?thesis using None True Cons.IH by (simp add: words_at_add)
    qed (simp add: holds_def)
  next
    case (Some mm)
    show ?thesis
    proof (cases "buf = words_at m a (length ch)")
      case True
      then have "words_at m a (length ch) \<noteq> ch" using Some first_mismatch_None [of buf ch a] by auto
      then show ?thesis using Some True by (auto simp: words_at_add intro: holds_return)
    qed (simp add: holds_def)
  qed
  moreover have "holds (at sc k m) (read_32 a (length ch)) (\<lambda>buf c. at sc k m c \<and> buf = words_at m a (length ch)) ?E"
    using holds_read_32 [of sc k m a "length ch"] by (simp add: words_at_def)
  ultimately show ?case unfolding mismatch_chunks.simps by (rule holds_and_then [rotated])
qed

lemma holds_find_mismatch:
  "holds (at sc k m) (find_mismatch a ws)
     (\<lambda>r c. at sc k m c \<and> (r = None \<longleftrightarrow> words_at m a (length ws) = ws)) (\<lambda>_ c. at sc k m c \<and> \<not> healthy sc)"
  using holds_mismatch_chunks [of sc k m a "slice_chunks CHUNK_SIZE ws"]
  by (simp add: find_mismatch_def CHUNK_SIZE_def)

end
