(* ===== verification/Chip.thy ===== *)
theory Chip
  imports Nvmc DeviceAddr Text_Util
begin

text \<open>\<open>src/provision/src/chip.rs\<close>: finding the probe, and what the tool does to the chip behind it.\<close>

section \<open>Connecting\<close>

record probe_info =
  pi_identifier :: string
  pi_serial :: "string option"

datatype connection = Attached probe_info | Locked probe_info

datatype connect_error =
    NoProbe
  | AmbiguousProbe "probe_info list"
  | NoSuchProbe string
  | ConnectProbe probe_error

text \<open>What attaching to a chip answers: a session, missing permissions (the chip is locked by
  \<open>APPROTECT\<close>), or another error.\<close>

datatype attach_result = SessionOpen | MissingPermissions | AttachError probe_error

definition format_probe_info :: "probe_info \<Rightarrow> string" where
  "format_probe_info p =
     (case pi_serial p of
        Some serial \<Rightarrow> pi_identifier p @ '' ('' @ serial @ '')''
      | None \<Rightarrow> pi_identifier p @ '' (no serial)'')"

definition chip_connect ::
  "probe_info list \<Rightarrow> (probe_info \<Rightarrow> attach_result) \<Rightarrow> string option \<Rightarrow> connect_error + connection" where
  "chip_connect all attach serial =
     (let probes = (case serial of
                      Some wanted \<Rightarrow> filter (\<lambda>p. pi_serial p = Some wanted) all
                    | None \<Rightarrow> all)
      in case probes of
           [] \<Rightarrow> Inl (case serial of Some wanted \<Rightarrow> NoSuchProbe wanted | None \<Rightarrow> NoProbe)
         | [p] \<Rightarrow> (case attach p of
                     SessionOpen \<Rightarrow> Inr (Attached p)
                   | MissingPermissions \<Rightarrow> Inr (Locked p)
                   | AttachError e \<Rightarrow> Inl (ConnectProbe e))
         | _ \<Rightarrow> Inl (AmbiguousProbe probes))"

section \<open>The record\<close>

record chip_state =
  cs_device_addr :: device_addr
  cs_record :: record_header

datatype write_record_error =
    WriteProbe probe_error
  | WriteNvmc nvmc_error
  | VerificationFailed mismatch

definition read_uicr_header :: "(core, probe_error, record_header) comp" where
  "read_uicr_header = and_then (read_word_32 UICR_CUSTOMER) (\<lambda>w. return_ok (decode_header w))"

definition read_device_addr :: "(core, probe_error, device_addr) comp" where
  "read_device_addr =
     and_then (read_words ADDR_WORDS_NEEDED FICR_DEVICE_ADDR) (\<lambda>buf. return_ok (from_ficr (buf ! 0) (buf ! 1)))"

definition read_state :: "(core, probe_error, chip_state) comp" where
  "read_state =
     and_then probe_control (\<lambda>_.
     and_then read_uicr_header (\<lambda>record.
     and_then read_device_addr (\<lambda>addr.
       return_ok \<lparr>cs_device_addr = addr, cs_record = record\<rparr>)))"

definition verify_words :: "nat \<Rightarrow> u32 list \<Rightarrow> (core, write_record_error, unit) comp" where
  "verify_words address ws =
     and_then (with_err WriteProbe (find_mismatch address ws)) (\<lambda>r.
       case r of Some m \<Rightarrow> throw (VerificationFailed m) | None \<Rightarrow> return_ok ())"

definition erase_uicr_record :: "(core, write_record_error, unit) comp" where
  "erase_uicr_record =
     and_then (with_err WriteProbe probe_control) (\<lambda>_.
     and_then (with_err WriteNvmc (with_erase_enabled erase_uicr)) (\<lambda>_.
       verify_words UICR_CUSTOMER (replicate UICR_RECORD_WORDS ERASED)))"

text \<open>The header word goes last.\<close>

definition write_uicr_record :: "device_key \<Rightarrow> (core, write_record_error, unit) comp" where
  "write_uicr_record key =
     (let record = uicr_encode key in
      and_then (with_err WriteProbe probe_control) (\<lambda>_.
      and_then (with_err WriteNvmc (with_write_enabled
        (and_then (write_words (UICR_CUSTOMER + 4) (tl record)) (\<lambda>_. write_word UICR_CUSTOMER (hd record))))) (\<lambda>_.
        verify_words UICR_CUSTOMER record)))"

definition read_uicr_words :: "(core, probe_error, u32 list) comp" where
  "read_uicr_words = and_then probe_control (\<lambda>_. read_words UICR_RECORD_WORDS UICR_CUSTOMER)"

section \<open>Firmware and storage\<close>

datatype flash_error = NothingBeneath nat | FlashProbe probe_error | Download string

text \<open>\<open>download_file_with_options\<close> is probe-rs; what it does to the chip is the parameter
  \<open>download\<close>, with \<open>do_chip_erase\<close> false.\<close>

definition chip_flash :: "(core, string, unit) comp \<Rightarrow> nat \<Rightarrow> (core, flash_error, unit) comp" where
  "chip_flash download app_start =
     and_then
       (if app_start > 0 then
          and_then (with_err FlashProbe probe_control) (\<lambda>_.
          and_then (with_err FlashProbe (read_word_32 0)) (\<lambda>beneath.
            if beneath = ERASED then throw (NothingBeneath app_start) else return_ok ()))
        else return_ok ())
       (\<lambda>_. with_err Download download)"

datatype erase_storage_error =
    NotPageAligned nat nat
  | EraseProbe probe_error
  | EraseNvmc nvmc_error
  | StillSet mismatch

fun erase_pages :: "nat list \<Rightarrow> (core, nvmc_error, unit) comp" where
  "erase_pages [] = return_ok ()"
| "erase_pages (p # ps) = and_then (erase_page p) (\<lambda>_. erase_pages ps)"

text \<open>\<open>(start..end).step_by(PAGE_SIZE)\<close>.\<close>

definition page_starts :: "nat \<Rightarrow> nat \<Rightarrow> nat list" where
  "page_starts first beyond =
     map (\<lambda>i. first + i * PAGE_SIZE) [0..<(beyond - first + PAGE_SIZE - 1) div PAGE_SIZE]"

definition erase_storage :: "nat \<Rightarrow> nat \<Rightarrow> (core, erase_storage_error, unit) comp" where
  "erase_storage first beyond =
     (if first \<ge> beyond \<or> first mod PAGE_SIZE \<noteq> 0 \<or> beyond mod PAGE_SIZE \<noteq> 0
      then throw (NotPageAligned first beyond)
      else
        and_then (with_err EraseProbe probe_control) (\<lambda>_.
        and_then (with_err EraseNvmc (with_erase_enabled (erase_pages (page_starts first beyond)))) (\<lambda>_.
        and_then (with_err EraseProbe (find_mismatch first (replicate ((beyond - first) div 4) ERASED))) (\<lambda>r.
          case r of Some m \<Rightarrow> throw (StillSet m) | None \<Rightarrow> return_ok ()))))"

definition chip_halt :: "(core, probe_error, unit) comp" where
  "chip_halt = and_then probe_control (\<lambda>_. probe_control)"

definition chip_reset :: "(core, probe_error, unit) comp" where
  "chip_reset = and_then probe_control (\<lambda>_. probe_control)"

section \<open>Contracts\<close>

definition record_words :: "(nat \<Rightarrow> u32) \<Rightarrow> u32 list" where
  "record_words m = words_at m UICR_CUSTOMER UICR_RECORD_WORDS"

definition on_record :: "nat \<Rightarrow> bool" where
  "on_record x \<longleftrightarrow> (\<exists>i<UICR_RECORD_WORDS. x = UICR_CUSTOMER + 4 * i)"

lemma record_plain: "i < UICR_RECORD_WORDS \<Longrightarrow> plain (UICR_CUSTOMER + 4 * i)"
  by (simp add: plain_def in_uicr_def UICR_CUSTOMER_def uicr_consts)

lemma holds_at_mem: "(\<And>k. holds (at sc k m) f Q E) \<Longrightarrow> holds (at_mem sc m) f Q E"
  by (auto simp: holds_def at_def at_mem_def)

lemma holds_frame_at_mem:
  "holds (at sc k m) f (\<lambda>_. at sc k m) (\<lambda>_ c. at sc k m c \<and> \<not> healthy sc) \<Longrightarrow>
   holds (at sc k m) f (\<lambda>_. at sc k m) (\<lambda>_ c. at_mem sc m c \<and> \<not> healthy sc)"
  by (erule holds_conseq) (auto simp: at_def at_mem_def)

lemma holds_verify_words:
  "holds (at sc k m) (verify_words a ws) (\<lambda>_ c. at sc k m c \<and> words_at m a (length ws) = ws)
     (\<lambda>e c. at sc k m c \<and> (healthy sc \<longrightarrow> (\<exists>mm. e = VerificationFailed mm) \<and> words_at m a (length ws) \<noteq> ws))"
proof -
  let ?E = "\<lambda>e c. at sc k m c \<and> (healthy sc \<longrightarrow> (\<exists>mm. e = VerificationFailed mm) \<and> words_at m a (length ws) \<noteq> ws)"
  have 1: "holds (at sc k m) (with_err WriteProbe (find_mismatch a ws))
      (\<lambda>r c. at sc k m c \<and> (r = None \<longleftrightarrow> words_at m a (length ws) = ws)) ?E"
    by (rule holds_with_err, rule holds_conseq [OF holds_find_mismatch]) auto
  have 2: "holds (\<lambda>c. at sc k m c \<and> (r = None \<longleftrightarrow> words_at m a (length ws) = ws))
      (case r of Some mm \<Rightarrow> throw (VerificationFailed mm) | None \<Rightarrow> return_ok ())
      (\<lambda>_ c. at sc k m c \<and> words_at m a (length ws) = ws) ?E" for r
    by (cases r) (auto intro!: holds_return holds_throw)
  show ?thesis unfolding verify_words_def by (rule holds_and_then [OF 1 2])
qed

text \<open>The memory a complete write leaves, and the memories an interrupted one can leave.\<close>

definition record_written :: "device_key \<Rightarrow> (nat \<Rightarrow> u32) \<Rightarrow> nat \<Rightarrow> u32" where
  "record_written key m =
     programmed (programmed m (UICR_CUSTOMER + 4) (tl (uicr_encode key))) UICR_CUSTOMER [hd (uicr_encode key)]"

definition partly_written :: "device_key \<Rightarrow> (nat \<Rightarrow> u32) \<Rightarrow> (nat \<Rightarrow> u32) \<Rightarrow> bool" where
  "partly_written key m m' \<longleftrightarrow> m' = record_written key m
     \<or> (\<exists>j\<le>length (tl (uicr_encode key)). m' = programmed m (UICR_CUSTOMER + 4) (take j (tl (uicr_encode key))))"

lemma partly_written_refl: "partly_written key m m"
  by (auto simp: partly_written_def)

lemma partly_written_keys: "partly_written key m (programmed m (UICR_CUSTOMER + 4) (tl (uicr_encode key)))"
  unfolding partly_written_def by (intro disjI2 exI [of _ "length (tl (uicr_encode key))"]) simp

lemma partly_written_all: "partly_written key m (record_written key m)"
  by (simp add: partly_written_def)

lemma holds_write_record_words:
  assumes "key_ok key"
  shows "holds (at sc 1 m)
     (and_then (write_words (UICR_CUSTOMER + 4) (tl (uicr_encode key))) (\<lambda>_. write_word UICR_CUSTOMER (hd (uicr_encode key))))
     (\<lambda>_. at sc 1 (record_written key m)) (\<lambda>_ c. (\<exists>m'. at sc 1 m' c \<and> partly_written key m m') \<and> \<not> healthy sc)"
proof (rule holds_and_then)
  let ?ks = "tl (uicr_encode key)"
  let ?E = "\<lambda>_ c. (\<exists>m'. at sc 1 m' c \<and> partly_written key m m') \<and> \<not> healthy sc"
  have l: "length ?ks = 8" using uicr_encode_length [OF assms] by (simp add: uicr_consts)
  have "\<forall>i<length ?ks. plain (UICR_CUSTOMER + 4 + 4 * i)"
    using record_plain [of "Suc _"] l by (simp add: uicr_consts algebra_simps)
  then show "holds (at sc 1 m) (write_words (UICR_CUSTOMER + 4) ?ks) (\<lambda>_. at sc 1 (programmed m (UICR_CUSTOMER + 4) ?ks)) ?E"
    by (rule holds_conseq [OF holds_write_words]) (auto simp: partly_written_def)
  have p: "plain UICR_CUSTOMER" using record_plain [of 0] by (simp add: uicr_consts)
  show "holds (at sc 1 (programmed m (UICR_CUSTOMER + 4) ?ks)) (write_word UICR_CUSTOMER (hd (uicr_encode key)))
      (\<lambda>_. at sc 1 (record_written key m)) ?E"
    using partly_written_keys [of key m] partly_written_all [of key m]
    unfolding record_written_def programmed.simps
    by (intro holds_conseq [OF holds_program_word [OF p, of sc "programmed m (UICR_CUSTOMER + 4) ?ks" "hd (uicr_encode key)"]]) auto
qed

lemma holds_write_uicr_record:
  assumes "key_ok key"
  shows "holds (at_mem sc m) (write_uicr_record key)
     (\<lambda>_ c. at sc 0 (record_written key m) c \<and> record_words (record_written key m) = uicr_encode key)
     (\<lambda>e c. \<exists>m'. at_mem sc m' c \<and> partly_written key m m'
        \<and> (healthy sc \<longrightarrow> m' = record_written key m \<and> (\<exists>mm. e = VerificationFailed mm)
             \<and> record_words m' \<noteq> uicr_encode key))"
proof (rule holds_at_mem)
  fix k
  let ?E = "\<lambda>e c. \<exists>m'. at_mem sc m' c \<and> partly_written key m m'
        \<and> (healthy sc \<longrightarrow> m' = record_written key m \<and> (\<exists>mm. e = VerificationFailed mm)
             \<and> record_words m' \<noteq> uicr_encode key)"
  have 1: "holds (at sc k m) (with_err WriteProbe probe_control) (\<lambda>_. at sc k m) ?E"
    by (rule holds_with_err, rule holds_conseq [OF holds_probe_control])
      (use partly_written_refl in \<open>auto simp: at_def at_mem_def\<close>)
  have 2: "holds (at sc k m) (with_err WriteNvmc (with_write_enabled
      (and_then (write_words (UICR_CUSTOMER + 4) (tl (uicr_encode key))) (\<lambda>_. write_word UICR_CUSTOMER (hd (uicr_encode key))))))
      (\<lambda>_. at sc 0 (record_written key m)) ?E"
    unfolding with_write_enabled_def
    by (rule holds_with_err, rule holds_conseq
        [OF holds_with_mode [where Q = "\<lambda>_ m'. m' = record_written key m" and E = "\<lambda>_ m'. partly_written key m m' \<and> \<not> healthy sc"]],
        rule holds_conseq [OF holds_write_record_words [OF assms]])
      (use partly_written_refl in \<open>auto simp: partly_written_def\<close>)
  have 3: "holds (at sc 0 (record_written key m)) (verify_words UICR_CUSTOMER (uicr_encode key))
      (\<lambda>_ c. at sc 0 (record_written key m) c \<and> record_words (record_written key m) = uicr_encode key) ?E"
    by (rule holds_conseq [OF holds_verify_words])
      (auto simp: record_words_def uicr_encode_length [OF assms] partly_written_def at_def at_mem_def)
  show "holds (at sc k m) (write_uicr_record key)
     (\<lambda>_ c. at sc 0 (record_written key m) c \<and> record_words (record_written key m) = uicr_encode key) ?E"
    unfolding write_uicr_record_def Let_def by (intro holds_and_then [OF 1] holds_and_then [OF 2] 3)
qed

lemma holds_erase_uicr_record:
  "holds (at_mem sc m) erase_uicr_record
     (\<lambda>_ c. at sc 0 (\<lambda>x. if in_uicr x then ERASED else m x) c)
     (\<lambda>_ c. (at_mem sc m c \<or> at_mem sc (\<lambda>x. if in_uicr x then ERASED else m x) c) \<and> \<not> healthy sc)"
proof (rule holds_at_mem)
  fix k
  let ?m' = "\<lambda>x. if in_uicr x then ERASED else m x"
  let ?E = "\<lambda>_ c. (at_mem sc m c \<or> at_mem sc ?m' c) \<and> \<not> healthy sc"
  have 1: "holds (at sc k m) (with_err WriteProbe probe_control) (\<lambda>_. at sc k m) ?E"
    by (rule holds_with_err, rule holds_conseq [OF holds_probe_control]) (auto simp: at_def at_mem_def)
  have w: "holds (at sc 2 m) erase_uicr (\<lambda>_. at sc 2 ?m') (\<lambda>_ c. (at sc 2 m c \<or> at sc 2 ?m' c) \<and> \<not> healthy sc)"
    unfolding erase_uicr_def ERASEUICR_def by (rule holds_write_word) (rule bus_write_erase_uicr)
  have 2: "holds (at sc k m) (with_err WriteNvmc (with_erase_enabled erase_uicr)) (\<lambda>_. at sc 0 ?m') ?E"
    unfolding with_erase_enabled_def
    by (rule holds_with_err, rule holds_conseq
        [OF holds_with_mode [where Q = "\<lambda>_ x. x = ?m'" and E = "\<lambda>_ x. (x = m \<or> x = ?m') \<and> \<not> healthy sc"]],
        rule holds_conseq [OF w]) auto
  have r: "words_at ?m' UICR_CUSTOMER (length (replicate UICR_RECORD_WORDS ERASED)) = replicate UICR_RECORD_WORDS ERASED"
    by (rule nth_equalityI) (use record_plain in \<open>auto simp: words_at_def plain_def in_flash_def UICR_CUSTOMER_def\<close>)
  have 3: "holds (at sc 0 ?m') (verify_words UICR_CUSTOMER (replicate UICR_RECORD_WORDS ERASED)) (\<lambda>_. at sc 0 ?m') ?E"
    by (rule holds_conseq [OF holds_verify_words]) (use r in \<open>auto simp: at_def at_mem_def\<close>)
  show "holds (at sc k m) erase_uicr_record (\<lambda>_. at sc 0 ?m') ?E"
    unfolding erase_uicr_record_def by (intro holds_and_then [OF 1] holds_and_then [OF 2] 3)
qed

lemma holds_read_state:
  "holds (at_mem sc m) read_state
     (\<lambda>st c. at_mem sc m c \<and> cs_record st = decode_header (m UICR_CUSTOMER)
        \<and> cs_device_addr st = from_ficr (m FICR_DEVICE_ADDR) (m (FICR_DEVICE_ADDR + 4)))
     (\<lambda>_ c. at_mem sc m c \<and> \<not> healthy sc)"
proof (rule holds_at_mem)
  fix k
  let ?E = "\<lambda>_ c. at_mem sc m c \<and> \<not> healthy sc"
  have 1: "holds (at sc k m) probe_control (\<lambda>_. at sc k m) ?E"
    by (rule holds_frame_at_mem [OF holds_probe_control])
  have "UICR_CUSTOMER \<noteq> NVMC_READY" by (simp add: nvmc_addresses)
  then have "holds (at sc k m) (read_word_32 UICR_CUSTOMER) (\<lambda>w c. at sc k m c \<and> w = m UICR_CUSTOMER) ?E"
    by (rule holds_conseq [OF holds_read_word_32]) (auto simp: at_def at_mem_def)
  then have 2: "holds (at sc k m) read_uicr_header (\<lambda>h c. at sc k m c \<and> h = decode_header (m UICR_CUSTOMER)) ?E"
    unfolding read_uicr_header_def by (rule holds_and_then) (auto intro: holds_return)
  let ?a = "from_ficr (m FICR_DEVICE_ADDR) (m (FICR_DEVICE_ADDR + 4))"
  have "holds (at sc k m) (read_words ADDR_WORDS_NEEDED FICR_DEVICE_ADDR)
      (\<lambda>buf c. at sc k m c \<and> buf = [m FICR_DEVICE_ADDR, m (FICR_DEVICE_ADDR + 4)]) ?E"
    unfolding read_words_def
    by (rule holds_conseq [OF holds_read_32]) (auto simp: at_def at_mem_def ADDR_WORDS_NEEDED_def DEVICE_ADDR_SIZE_def upt_rec)
  then have 3: "holds (at sc k m) read_device_addr (\<lambda>x c. at sc k m c \<and> x = ?a) ?E"
    unfolding read_device_addr_def by (rule holds_and_then) (auto intro: holds_return)
  show "holds (at sc k m) read_state
     (\<lambda>st c. at_mem sc m c \<and> cs_record st = decode_header (m UICR_CUSTOMER) \<and> cs_device_addr st = ?a) ?E"
    unfolding read_state_def
  proof (rule holds_and_then [OF 1], rule holds_and_then [OF 2], rule holds_pure)
    fix h
    assume "h = decode_header (m UICR_CUSTOMER)"
    then show "holds (at sc k m) (and_then read_device_addr (\<lambda>addr. return_ok \<lparr>cs_device_addr = addr, cs_record = h\<rparr>))
        (\<lambda>st c. at_mem sc m c \<and> cs_record st = decode_header (m UICR_CUSTOMER) \<and> cs_device_addr st = ?a) ?E"
      by (intro holds_and_then [OF 3]) (auto intro!: holds_return simp: at_def at_mem_def)
  qed
qed

text \<open>Erasing pages.\<close>

fun pages_erased :: "(nat \<Rightarrow> u32) \<Rightarrow> nat list \<Rightarrow> nat \<Rightarrow> u32" where
  "pages_erased m [] = m"
| "pages_erased m (p # ps) = pages_erased (\<lambda>x. if in_flash x \<and> x div PAGE_SIZE = p div PAGE_SIZE then ERASED else m x) ps"

lemma pages_erased_at:
  "pages_erased m ps x = (if in_flash x \<and> (\<exists>p\<in>set ps. x div PAGE_SIZE = p div PAGE_SIZE) then ERASED else m x)"
  by (induction ps arbitrary: m) auto

lemma holds_erase_page:
  assumes "p < 2 ^ 32"
  shows "holds (at sc 2 m) (erase_page p) (\<lambda>_. at sc 2 (pages_erased m [p]))
     (\<lambda>_ c. (at sc 2 m c \<or> at sc 2 (pages_erased m [p]) c) \<and> \<not> healthy sc)"
proof -
  have p: "unat (of_nat p :: u32) = p" using assms by (simp add: unat_of_nat)
  have "at sc 2 (pages_erased m [p]) (bus_write NVMC_ERASEPAGE (of_nat p) c)" if "at sc 2 m c" for c
    using bus_write_erase_page [OF that, of "of_nat p"] by (simp add: p)
  then show ?thesis unfolding erase_page_def by (rule holds_write_word)
qed

lemma holds_erase_pages:
  "\<forall>p\<in>set ps. p < 2 ^ 32 \<Longrightarrow>
   holds (at sc 2 m) (erase_pages ps) (\<lambda>_. at sc 2 (pages_erased m ps))
     (\<lambda>_ c. (\<exists>j. at sc 2 (pages_erased m (take j ps)) c) \<and> \<not> healthy sc)"
proof (induction ps arbitrary: m)
  case Nil
  show ?case by (simp add: holds_return)
next
  case (Cons p ps)
  let ?E = "\<lambda>(_ :: nvmc_error) c. (\<exists>j. at sc 2 (pages_erased m (take j (p # ps))) c) \<and> \<not> healthy sc"
  have zero: "pages_erased m (take 0 (p # ps)) = m" and one: "pages_erased m (take 1 (p # ps)) = pages_erased m [p]"
    by simp_all
  have 1: "holds (at sc 2 m) (erase_page p) (\<lambda>_. at sc 2 (pages_erased m [p])) ?E"
  proof (rule holds_conseq [OF holds_erase_page])
    fix e c assume "(at sc 2 m c \<or> at sc 2 (pages_erased m [p]) c) \<and> \<not> healthy sc"
    then show "?E e c" using zero one by metis
  qed (use Cons.prems in simp_all)
  have 2: "holds (at sc 2 (pages_erased m [p])) (erase_pages ps) (\<lambda>_. at sc 2 (pages_erased m (p # ps))) ?E"
  proof (rule holds_conseq [OF Cons.IH])
    fix e c assume c: "(\<exists>j. at sc 2 (pages_erased (pages_erased m [p]) (take j ps)) c) \<and> \<not> healthy sc"
    then obtain j where "at sc 2 (pages_erased m (take (Suc j) (p # ps))) c" by auto
    then show "?E e c" using c by blast
  qed (use Cons.prems in simp_all)
  show ?case using holds_and_then [OF 1 2] by simp
qed

lemma page_starts_range:
  assumes "first < beyond" "first mod PAGE_SIZE = 0" "beyond mod PAGE_SIZE = 0"
  shows "(\<exists>p\<in>set (page_starts first beyond). x div PAGE_SIZE = p div PAGE_SIZE) \<longleftrightarrow> first \<le> x \<and> x < beyond"
    and "p \<in> set (page_starts first beyond) \<Longrightarrow> p < beyond"
proof -
  obtain f b where fb: "first = f * PAGE_SIZE" "beyond = b * PAGE_SIZE"
    using assms(2,3) by (metis mod_0_imp_dvd dvd_def mult.commute)
  have pos: "0 < PAGE_SIZE" by (simp add: PAGE_SIZE_def)
  have n: "(beyond - first + PAGE_SIZE - 1) div PAGE_SIZE = b - f"
  proof -
    have "beyond - first + PAGE_SIZE - 1 = (PAGE_SIZE - 1) + (b - f) * PAGE_SIZE"
      using pos by (simp add: fb diff_mult_distrib)
    moreover have "((PAGE_SIZE - 1) + (b - f) * PAGE_SIZE) div PAGE_SIZE = b - f"
      using pos div_mult_self1 [of PAGE_SIZE "PAGE_SIZE - 1" "b - f"] by simp
    ultimately show ?thesis by (simp only:)
  qed
  have ps: "page_starts first beyond = map (\<lambda>i. (f + i) * PAGE_SIZE) [0..<b - f]"
    unfolding page_starts_def n by (simp add: fb add_mult_distrib)
  have lt: "f < b" using assms(1) pos by (simp add: fb)
  have "(\<exists>p\<in>set (page_starts first beyond). x div PAGE_SIZE = p div PAGE_SIZE) \<longleftrightarrow> (\<exists>i<b - f. x div PAGE_SIZE = f + i)"
    using pos by (auto simp: ps)
  also have "\<dots> \<longleftrightarrow> f \<le> x div PAGE_SIZE \<and> x div PAGE_SIZE < b"
    using lt by (auto intro: exI [of _ "x div PAGE_SIZE - f"])
  also have "\<dots> \<longleftrightarrow> first \<le> x \<and> x < beyond"
    using pos by (simp add: fb less_eq_div_iff_mult_less_eq div_less_iff_less_mult)
  finally show "(\<exists>p\<in>set (page_starts first beyond). x div PAGE_SIZE = p div PAGE_SIZE) \<longleftrightarrow> first \<le> x \<and> x < beyond" .
  assume "p \<in> set (page_starts first beyond)"
  then obtain i where "i < b - f" "p = (f + i) * PAGE_SIZE" by (auto simp: ps)
  then show "p < beyond" using pos by (simp add: fb)
qed

lemma holds_erase_storage:
  assumes "beyond \<le> 2 ^ 32"
  shows "holds (at_mem sc m) (erase_storage first beyond)
     (\<lambda>_ c. first < beyond \<and> first mod PAGE_SIZE = 0 \<and> beyond mod PAGE_SIZE = 0
        \<and> at sc 0 (\<lambda>x. if in_flash x \<and> first \<le> x \<and> x < beyond then ERASED else m x) c
        \<and> words_at (core_mem c) first ((beyond - first) div 4) = replicate ((beyond - first) div 4) ERASED)
     (\<lambda>_ c. \<exists>m'. at_mem sc m' c \<and> (\<forall>x. \<not> (first \<le> x \<and> x < beyond) \<longrightarrow> m' x = m x)
        \<and> (healthy sc \<longrightarrow> \<not> (first < beyond \<and> first mod PAGE_SIZE = 0 \<and> beyond mod PAGE_SIZE = 0 \<and> beyond \<le> 0x100000)))"
proof (cases "first \<ge> beyond \<or> first mod PAGE_SIZE \<noteq> 0 \<or> beyond mod PAGE_SIZE \<noteq> 0")
  case True
  then show ?thesis unfolding erase_storage_def by (auto intro!: holds_throw)
next
  case False
  then have ok: "first < beyond" "first mod PAGE_SIZE = 0" "beyond mod PAGE_SIZE = 0" by simp_all
  let ?ps = "page_starts first beyond" and ?n = "(beyond - first) div 4"
  let ?m' = "\<lambda>x. if in_flash x \<and> first \<le> x \<and> x < beyond then ERASED else m x"
  let ?E = "\<lambda>_ c. \<exists>m'. at_mem sc m' c \<and> (\<forall>x. \<not> (first \<le> x \<and> x < beyond) \<longrightarrow> m' x = m x)
        \<and> (healthy sc \<longrightarrow> \<not> (first < beyond \<and> first mod PAGE_SIZE = 0 \<and> beyond mod PAGE_SIZE = 0 \<and> beyond \<le> 0x100000))"
  have erased: "words_at ?m' first ?n = replicate ?n ERASED" if "beyond \<le> 0x100000"
  proof (rule nth_equalityI)
    fix i assume "i < length (words_at ?m' first ?n)"
    then have "i < ?n" by (simp add: words_at_def)
    moreover from this have "first + 4 * i < beyond" by simp
    ultimately show "words_at ?m' first ?n ! i = replicate ?n ERASED ! i"
      using that by (simp add: words_at_def in_flash_def)
  qed (simp add: words_at_def)
  have e: "pages_erased m ?ps = ?m'"
    by (rule ext) (simp add: pages_erased_at page_starts_range(1) [OF ok])
  have part: "pages_erased m (take j ?ps) x = m x" if "\<not> (first \<le> x \<and> x < beyond)" for j x
    using that page_starts_range(1) [OF ok, of x] by (auto simp: pages_erased_at dest: in_set_takeD)
  define same where "same m' \<longleftrightarrow> (\<forall>x. \<not> (first \<le> x \<and> x < beyond) \<longrightarrow> m' x = m x)" for m'
  have part': "same (pages_erased m (take j ?ps))" for j
    using part unfolding same_def by blast
  have ps: "\<forall>p\<in>set ?ps. p < 2 ^ 32" using page_starts_range(2) [OF ok] assms by fastforce
  have "holds (at sc k m) (and_then (with_err EraseProbe probe_control) (\<lambda>_.
        and_then (with_err EraseNvmc (with_erase_enabled (erase_pages ?ps))) (\<lambda>_.
        and_then (with_err EraseProbe (find_mismatch first (replicate ?n ERASED))) (\<lambda>r.
          case r of Some mm \<Rightarrow> throw (StillSet mm) | None \<Rightarrow> return_ok ()))))
     (\<lambda>_ c. at sc 0 ?m' c \<and> words_at (core_mem c) first ?n = replicate ?n ERASED) ?E" for k
  proof -
    have 1: "holds (at sc k m) (with_err EraseProbe probe_control) (\<lambda>_. at sc k m) ?E"
      by (rule holds_with_err, rule holds_conseq [OF holds_probe_control]) (auto simp: at_def at_mem_def)
    have w: "holds (at sc (mode_value EraseEnabled) m) (erase_pages ?ps) (\<lambda>_ c. \<exists>k m'. at sc k m' c \<and> m' = ?m')
        (\<lambda>_ c. \<exists>k m'. at sc k m' c \<and> same m' \<and> \<not> healthy sc)"
    proof (rule holds_conseq [OF holds_erase_pages [OF ps]])
      fix x :: nvmc_error and c
      assume "(\<exists>j. at sc 2 (pages_erased m (take j ?ps)) c) \<and> \<not> healthy sc"
      then show "\<exists>k m'. at sc k m' c \<and> same m' \<and> \<not> healthy sc" using part' by blast
    qed (auto simp: e)
    have 2: "holds (at sc k m) (with_err EraseNvmc (with_erase_enabled (erase_pages ?ps))) (\<lambda>_. at sc 0 ?m') ?E"
      unfolding with_erase_enabled_def
      by (rule holds_with_err, rule holds_conseq [OF holds_with_mode [OF w]]) (auto simp: same_def)
    have 3: "holds (at sc 0 ?m') (with_err EraseProbe (find_mismatch first (replicate ?n ERASED)))
        (\<lambda>r c. at sc 0 ?m' c \<and> (r = None \<longleftrightarrow> words_at ?m' first ?n = replicate ?n ERASED)) ?E"
      by (rule holds_with_err, rule holds_conseq [OF holds_find_mismatch]) (auto simp: at_def at_mem_def)
    have 4: "holds (\<lambda>c. at sc 0 ?m' c \<and> (r = None \<longleftrightarrow> words_at ?m' first ?n = replicate ?n ERASED))
        (case r of Some mm \<Rightarrow> throw (StillSet mm) | None \<Rightarrow> return_ok ())
        (\<lambda>_ c. at sc 0 ?m' c \<and> words_at (core_mem c) first ?n = replicate ?n ERASED) ?E" for r
      using erased by (cases r) (auto intro!: holds_return holds_throw simp: at_def at_mem_def)
    show ?thesis by (intro holds_and_then [OF 1] holds_and_then [OF 2] holds_and_then [OF 3 4])
  qed
  then show ?thesis using ok False unfolding erase_storage_def
    by (intro holds_at_mem) simp
qed

section \<open>What a write leaves of the record\<close>

lemma record_words_length [simp]: "length (record_words m) = UICR_RECORD_WORDS"
  by (simp add: record_words_def words_at_def)

lemma record_words_nth: "i < UICR_RECORD_WORDS \<Longrightarrow> record_words m ! i = m (UICR_CUSTOMER + 4 * i)"
  by (simp add: record_words_def words_at_def)

lemma record_words_written:
  assumes "key_ok key"
  shows "record_words (record_written key m) = map2 and (record_words m) (uicr_encode key)"
proof (rule nth_equalityI)
  fix i assume i: "i < length (record_words (record_written key m))"
  then have i9: "i < UICR_RECORD_WORDS" by simp
  let ?ks = "tl (uicr_encode key)"
  have len: "length (uicr_encode key) = UICR_RECORD_WORDS" "uicr_encode key \<noteq> []"
    using uicr_encode_length [OF assms] by (auto simp: uicr_consts)
  show "record_words (record_written key m) ! i = map2 and (record_words m) (uicr_encode key) ! i"
  proof (cases i)
    case 0
    have "programmed m (UICR_CUSTOMER + 4) ?ks UICR_CUSTOMER = m UICR_CUSTOMER"
      by (rule programmed_below) simp
    then show ?thesis using 0 len i9 by (simp add: record_words_nth record_written_def hd_conv_nth)
  next
    case (Suc j)
    have j: "j < length ?ks" using Suc i9 len by simp
    have "programmed m (UICR_CUSTOMER + 4) ?ks (UICR_CUSTOMER + 4 + 4 * j) = and (m (UICR_CUSTOMER + 4 + 4 * j)) (?ks ! j)"
      by (rule programmed_nth [OF j])
    then show ?thesis using Suc len i9 j by (simp add: record_words_nth record_written_def nth_tl algebra_simps)
  qed
qed (use uicr_encode_length [OF assms] in simp)

lemma and_ERASED [simp]: "and ERASED w = w"
proof -
  have e: "ERASED = - 1" by (simp add: ERASED_def)
  show ?thesis unfolding e by (rule and.left_neutral)
qed

lemma blank_record_written:
  assumes "key_ok key" "record_words m = replicate UICR_RECORD_WORDS ERASED"
  shows "record_words (record_written key m) = uicr_encode key"
proof -
  have "map2 and (replicate (length ws) ERASED) ws = ws" for ws
    by (induction ws) simp_all
  then show ?thesis
    unfolding record_words_written [OF assms(1)] assms(2) uicr_encode_length [OF assms(1), symmetric] .
qed

lemma programmed_record:
  assumes "ks = take j (tl (uicr_encode key))" "key_ok key" "\<not> on_record x"
  shows "programmed m (UICR_CUSTOMER + 4) ks x = m x"
proof (rule programmed_other, intro allI impI)
  fix i assume "i < length ks"
  then have "Suc i < UICR_RECORD_WORDS" using assms uicr_encode_length [OF assms(2)] by (simp add: uicr_consts)
  then show "x \<noteq> UICR_CUSTOMER + 4 + 4 * i" using assms(3) by (auto simp: on_record_def dest: spec [of _ "Suc i"])
qed

lemma partly_written_decodes:
  assumes "key_ok key" "record_words m = replicate UICR_RECORD_WORDS ERASED" "partly_written key m m'"
  shows "uicr_decode (record_words m') \<in> {RecordBlank, Provisioned key}" "\<And>x. \<not> on_record x \<Longrightarrow> m' x = m x"
proof -
  consider "m' = record_written key m"
    | j where "m' = programmed m (UICR_CUSTOMER + 4) (take j (tl (uicr_encode key)))"
    using assms(3) by (auto simp: partly_written_def)
  note cases = this
  show "uicr_decode (record_words m') \<in> {RecordBlank, Provisioned key}"
  proof (cases rule: cases)
    case 1
    then show ?thesis using blank_record_written [OF assms(1,2)] uicr_decode_encode [OF assms(1)] by simp
  next
    case (2 j)
    have "m' UICR_CUSTOMER = m UICR_CUSTOMER" unfolding 2 by (rule programmed_below) simp
    also have "\<dots> = ERASED" using arg_cong [OF assms(2), of "\<lambda>ws. ws ! 0"] by (simp add: record_words_nth uicr_consts)
    finally have "record_words m' ! 0 = 0xFFFFFFFF" by (simp add: record_words_nth uicr_consts ERASED_def)
    then show ?thesis by (simp add: uicr_decode_def decode_header_def)
  qed
  fix x assume x: "\<not> on_record x"
  show "m' x = m x"
  proof (cases rule: cases)
    case 1
    have "x \<noteq> UICR_CUSTOMER" using x by (auto simp: on_record_def uicr_consts dest: spec [of _ 0])
    then show ?thesis
      using programmed_record [OF _ assms(1) x, of _ "length (tl (uicr_encode key))"] 1 by (simp add: record_written_def)
  qed (use programmed_record [OF refl assms(1) x] in simp)
qed

section \<open>Properties\<close>

text \<open>C13: Writing the key record is atomic. Starting from an erased record, whatever the probe does at
  whichever access and however long the controller is busy, the record afterwards decodes as blank or
  as the whole new key, never as a part of it; success means the key is there and the controller is
  read-only again; no other word of the chip changes; and with a healthy probe it succeeds.\<close>

theorem record_write_atomic:
  assumes "key_ok key" "record_words (core_mem c) = replicate UICR_RECORD_WORDS ERASED" "write_uicr_record key c = (r, c')"
  shows "(case r of Inr _ \<Rightarrow> core_config c' = 0 \<and> uicr_decode (record_words (core_mem c')) = Provisioned key
                  | Inl _ \<Rightarrow> uicr_decode (record_words (core_mem c')) \<in> {RecordBlank, Provisioned key})
    \<and> (\<forall>x. \<not> on_record x \<longrightarrow> core_mem c' x = core_mem c x) \<and> (healthy (core_script c) \<longrightarrow> r = Inr ())"
proof -
  have c: "at_mem (core_script c) (core_mem c) c" by (simp add: at_mem_def)
  note w = holds_write_uicr_record [OF assms(1), of "core_script c" "core_mem c"]
  note full = partly_written_decodes [OF assms(1,2) partly_written_all]
  show ?thesis
  proof (cases r)
    case (Inr u)
    then show ?thesis
      using holds_Inr [OF w c] assms(3) full(2) uicr_decode_encode [OF assms(1)] by (fastforce simp: at_def)
  next
    case (Inl e)
    then obtain m' where m': "core_mem c' = m'" "partly_written key (core_mem c) m'"
      "healthy (core_script c) \<longrightarrow> m' = record_written key (core_mem c) \<and> record_words m' \<noteq> uicr_encode key"
      using holds_Inl [OF w c] assms(3) by (auto simp: at_mem_def)
    then show ?thesis
      using Inl partly_written_decodes [OF assms(1,2) m'(2)] blank_record_written [OF assms(1,2)] by auto
  qed
qed

text \<open>A new chip, and a probe that loses the connection at its tenth access.\<close>

definition new_chip :: "(nat \<Rightarrow> access) \<Rightarrow> core" where
  "new_chip sc = \<lparr>core_mem = (\<lambda>_. ERASED), core_config = 0, core_clock = 0, core_step = 0, core_script = sc\<rparr>"

definition quiet :: access where "quiet = \<lparr>a_failure = None, a_busy = False, a_time = 0\<rparr>"

definition losing_probe :: "nat \<Rightarrow> access" where
  "losing_probe n = (if n = 10 then quiet\<lparr>a_failure := Some (''usb'', True)\<rparr> else quiet)"

lemma new_chip_blank: "record_words (core_mem (new_chip sc)) = replicate UICR_RECORD_WORDS ERASED"
  by (simp add: record_words_def words_at_def new_chip_def map_replicate_const)

theorem record_write_atomic_witness:
  "fst (write_uicr_record (DeviceKey (replicate 32 7)) (new_chip (\<lambda>_. quiet))) = Inr ()
   \<and> uicr_decode (record_words (core_mem (snd (write_uicr_record (DeviceKey (replicate 32 7)) (new_chip losing_probe)))))
       \<in> {RecordBlank, Provisioned (DeviceKey (replicate 32 7))}"
proof -
  have k: "key_ok (DeviceKey (replicate 32 7))" by (simp add: key_ok_def DEVICE_KEY_SIZE_def)
  note t = record_write_atomic [OF k new_chip_blank prod.collapse [symmetric]]
  have "healthy (core_script (new_chip (\<lambda>_. quiet)))" by (simp add: healthy_def new_chip_def quiet_def)
  then show ?thesis using t [of "\<lambda>_. quiet"] t [of losing_probe] by (auto split: sum.splits)
qed


text \<open>The key 7, 7, ... broken off before its header, and the key 9, 9, ... over it.\<close>

definition broken_off :: core where
  "broken_off = (new_chip (\<lambda>_. quiet))\<lparr>core_mem :=
     programmed (\<lambda>_. ERASED) (UICR_CUSTOMER + 4) (tl (uicr_encode (DeviceKey (replicate 32 7))))\<rparr>"


end
