(* ===== verification/Board.thy ===== *)
theory Board
  imports SeqCounter Hex Text_Util
begin

text \<open>\<open>src/firmware/board/build.rs\<close>: the memory layout of a board, derived from its facts at build
  time. A panic fails the build; it is a value of \<open>layout_panic\<close> here.\<close>

definition BUILD_PAGE_SIZE :: nat where "BUILD_PAGE_SIZE = 4096"
definition STORAGE_LEN :: nat where "STORAGE_LEN = 2 * BUILD_PAGE_SIZE"

record board_memory =
  bm_feature_env :: string
  bm_name :: string
  bm_app_start :: nat
  bm_flash_top :: nat
  bm_flash_top_desc :: string
  bm_ram_start :: nat
  bm_ram_len :: nat
  bm_notes :: "string list"

definition BARE_1MB :: board_memory where
  "BARE_1MB =
     \<lparr>bm_feature_env = '''', bm_name = '''', bm_app_start = 0, bm_flash_top = 0x100000,
      bm_flash_top_desc = ''top of the 1 MB flash'', bm_ram_start = 0x20000000, bm_ram_len = 256 * 1024,
      bm_notes = []\<rparr>"

definition em_dash :: string where "em_dash = [CHR 0xE2, CHR 0x80, CHR 0x94]"

definition XIAO_BOOTLOADER_NOTE :: string where
  "XIAO_BOOTLOADER_NOTE =
     ''Factory MBR, SoftDevice S140 and UF2 bootloader erased 2026-09-19; a XIAO '' @
     ''still carrying them must be chip-erased and re-keyed '' @ em_dash @ '' see docs/flashing.md.''"

definition BOARDS :: "board_memory list" where
  "BOARDS =
    [BARE_1MB
       \<lparr>bm_feature_env := ''CARGO_FEATURE_DB40'',
        bm_name := ''Raytac MDBT50Q-DB-40'',
        bm_notes := [''Bare module: no MBR, no SoftDevice, no bootloader.'']\<rparr>,
     BARE_1MB
       \<lparr>bm_feature_env := ''CARGO_FEATURE_XIAO_EXPANSION'',
        bm_name := ''Seeed XIAO nRF52840 Plus on the expansion board'',
        bm_notes := [''SHT45 on the expansion board's Grove I2C header, permanently'',
                     ''powered. The development setup.'', '''', XIAO_BOOTLOADER_NOTE]\<rparr>,
     BARE_1MB
       \<lparr>bm_feature_env := ''CARGO_FEATURE_XIAO_BREADBOARD'',
        bm_name := ''Seeed XIAO nRF52840 Plus on a breadboard'',
        bm_notes := [''SHT45 direct-wired with a gated power line. The alkaline soak-test'',
                     ''node: the sensor rail is switched off between cycles, because'',
                     ''battery longevity is the thing being measured.'', '''', XIAO_BOOTLOADER_NOTE]\<rparr>]"

record layout =
  lay_board :: board_memory
  lay_storage_start :: nat
  lay_flash_len :: nat

datatype layout_panic =
    AppStartUnaligned | FlashTopUnaligned | NoRoomForStorage | NoRoomForApplication | ApplicationEmpty

definition checked_sub :: "nat \<Rightarrow> nat \<Rightarrow> nat option" where
  "checked_sub a b = (if b \<le> a then Some (a - b) else None)"

definition layout_derive :: "board_memory \<Rightarrow> layout_panic + layout" where
  "layout_derive board =
     (if bm_app_start board mod BUILD_PAGE_SIZE \<noteq> 0 then Inl AppStartUnaligned
      else if bm_flash_top board mod BUILD_PAGE_SIZE \<noteq> 0 then Inl FlashTopUnaligned
      else case checked_sub (bm_flash_top board) STORAGE_LEN of
        None \<Rightarrow> Inl NoRoomForStorage
      | Some storage_start \<Rightarrow>
         (case checked_sub storage_start (bm_app_start board) of
            None \<Rightarrow> Inl NoRoomForApplication
          | Some flash_len \<Rightarrow>
              if flash_len = 0 then Inl ApplicationEmpty
              else Inr \<lparr>lay_board = board, lay_storage_start = storage_start, lay_flash_len = flash_len\<rparr>))"

text \<open>What the linker reads in the rendered script: the \<open>MEMORY\<close> regions as origin and length, the two
  symbols that have no contents, and the linker's own assertions.\<close>

record linker_script =
  ls_flash :: "nat \<times> nat"
  ls_storage :: "nat \<times> nat"
  ls_ram :: "nat \<times> nat"
  ls_symbols :: "(string \<times> nat) list"
  ls_asserts :: "bool list"

definition layout_render :: "layout \<Rightarrow> linker_script" where
  "layout_render l =
     (let storage = (lay_storage_start l, STORAGE_LEN);
          flash = (bm_app_start (lay_board l), lay_flash_len l)
      in \<lparr>ls_flash = flash, ls_storage = storage,
          ls_ram = (bm_ram_start (lay_board l), bm_ram_len (lay_board l)),
          ls_symbols = [(''__storage_start'', fst storage), (''__storage_end'', fst storage + snd storage)],
          ls_asserts = [fst storage mod BUILD_PAGE_SIZE = 0, snd storage mod BUILD_PAGE_SIZE = 0,
                        fst flash + snd flash = fst storage,
                        fst storage + snd storage = bm_flash_top (lay_board l)]\<rparr>)"

datatype select_panic = NoFeature string | SeveralFeatures string

definition comma_separated :: "string list \<Rightarrow> string" where
  "comma_separated ss = join_text '', '' ss"

definition feature_list :: string where "feature_list = comma_separated (map bm_feature_env BOARDS)"

definition select_board :: "(string \<Rightarrow> bool) \<Rightarrow> select_panic + board_memory" where
  "select_board env_set =
     (case filter (\<lambda>b. env_set (bm_feature_env b)) BOARDS of
        [board] \<Rightarrow> Inr board
      | [] \<Rightarrow> Inl (NoFeature feature_list)
      | bs \<Rightarrow> Inl (SeveralFeatures (comma_separated (map bm_name bs))))"

section \<open>The script's text\<close>

text \<open>\<open>{:#X}\<close> and \<open>{:#010X}\<close>.\<close>

fun upper_hex :: "nat \<Rightarrow> string" where
  "upper_hex n = (if n < 16 then [hex_digit n] else upper_hex (n div 16) @ [hex_digit (n mod 16)])"

declare upper_hex.simps [simp del]

definition fmt_hex :: "nat \<Rightarrow> string" where "fmt_hex n = ''0x'' @ upper_hex n"

definition fmt_hex_10 :: "nat \<Rightarrow> string" where
  "fmt_hex_10 n = ''0x'' @ replicate (8 - length (upper_hex n)) (CHR ''0'') @ upper_hex n"

definition quoted :: "string \<Rightarrow> string" where "quoted s = CHR 0x22 # s @ [CHR 0x22]"

definition note_line :: "string \<Rightarrow> string" where
  "note_line line = (if line = [] then [CHR 0x0A] else ''   '' @ line @ [CHR 0x0A])"

definition layout_text :: "layout \<Rightarrow> string" where
  "layout_text l =
     (let b = lay_board l; app_end = lay_storage_start l - 1; storage_end = bm_flash_top b - 1 in
      concat (map (\<lambda>line. line @ [CHR 0x0A])
       [''/* GENERATED by homescope-board/build.rs '' @ em_dash @ '' do not edit.'',
        ''   Change the board tables in that build script instead.'',
        '''',
        ''   Board: '' @ bm_name b,
        '''',
        concat (map note_line (bm_notes b)),
        ''   Flash map:'',
        ''     '' @ fmt_hex_10 (bm_app_start b) @ '' - '' @ fmt_hex_10 app_end @ ''  application            (''
          @ show_nat (lay_flash_len l div 1024) @ '' KiB)'',
        ''     '' @ fmt_hex_10 (lay_storage_start l) @ '' - '' @ fmt_hex_10 storage_end @ ''  seq checkpoint storage (''
          @ show_nat (STORAGE_LEN div 1024) @ '' KiB)'',
        '''',
        ''   Application ceiling: '' @ fmt_hex_10 (bm_flash_top b) @ '' '' @ em_dash @ '' '' @ bm_flash_top_desc b,
        ''*/'',
        '''',
        ''MEMORY'',
        ''{'',
        ''  FLASH   : ORIGIN = '' @ fmt_hex_10 (bm_app_start b) @ '', LENGTH = '' @ fmt_hex (lay_flash_len l),
        ''  STORAGE : ORIGIN = '' @ fmt_hex_10 (lay_storage_start l) @ '', LENGTH = '' @ fmt_hex STORAGE_LEN,
        ''  RAM     : ORIGIN = '' @ fmt_hex_10 (bm_ram_start b) @ '', LENGTH = '' @ fmt_hex (bm_ram_len b),
        ''}'',
        '''',
        ''/* STORAGE holds no output section, so nothing lands in the ELF. These symbols'',
        ''   have no contents '' @ em_dash @ '' their *addresses* are the payload. */'',
        ''__storage_start = ORIGIN(STORAGE);'',
        ''__storage_end   = ORIGIN(STORAGE) + LENGTH(STORAGE);'',
        '''',
        ''ASSERT(ORIGIN(STORAGE) % '' @ show_nat BUILD_PAGE_SIZE @ '' == 0,'',
        ''  '' @ quoted ''STORAGE must start on a flash page boundary'' @ '');'',
        ''ASSERT(LENGTH(STORAGE) % '' @ show_nat BUILD_PAGE_SIZE @ '' == 0,'',
        ''  '' @ quoted ''STORAGE must be a whole number of flash pages'' @ '');'',
        ''ASSERT(ORIGIN(FLASH) + LENGTH(FLASH) == ORIGIN(STORAGE),'',
        ''  '' @ quoted (''FLASH must abut STORAGE '' @ em_dash @ '' no gap, no overlap'') @ '');'',
        ''ASSERT(ORIGIN(STORAGE) + LENGTH(STORAGE) == '' @ fmt_hex (bm_flash_top b) @ '','',
        ''  '' @ quoted (''STORAGE must end at the '' @ bm_flash_top_desc b) @ '');'']))"

text \<open>\<open>main\<close>: the contents of \<open>memory.x\<close>, or the panic.\<close>

definition build_script :: "(string \<Rightarrow> bool) \<Rightarrow> (select_panic + layout_panic) + string" where
  "build_script env_set =
     bind_result (map_err Inl (select_board env_set)) (\<lambda>board.
     bind_result (map_err Inr (layout_derive board)) (\<lambda>l. Inr (layout_text l)))"

section \<open>Facts\<close>

lemma layout_derive_Inr_iff:
  "layout_derive b = Inr l \<longleftrightarrow>
     bm_app_start b mod BUILD_PAGE_SIZE = 0 \<and> bm_flash_top b mod BUILD_PAGE_SIZE = 0
   \<and> bm_app_start b + STORAGE_LEN < bm_flash_top b
   \<and> l = \<lparr>lay_board = b, lay_storage_start = bm_flash_top b - STORAGE_LEN,
          lay_flash_len = bm_flash_top b - STORAGE_LEN - bm_app_start b\<rparr>"
  by (auto simp: layout_derive_def checked_sub_def)

text \<open>The linker's assertions never fail on a derived layout.\<close>

lemma layout_asserts_hold:
  assumes "layout_derive b = Inr l"
  shows "list_all (\<lambda>a. a) (ls_asserts (layout_render l))"
proof -
  have "bm_flash_top b mod BUILD_PAGE_SIZE = 0" "STORAGE_LEN \<le> bm_flash_top b"
    using assms by (auto simp: layout_derive_Inr_iff)
  then have "(bm_flash_top b - STORAGE_LEN) mod BUILD_PAGE_SIZE = 0"
    by (simp add: STORAGE_LEN_def BUILD_PAGE_SIZE_def mod_eq_0_iff_dvd)
  then show ?thesis
    using assms by (auto simp: layout_derive_Inr_iff layout_render_def Let_def STORAGE_LEN_def)
qed

lemma boards_derive: "list_all (\<lambda>b. is_ok (layout_derive b)) BOARDS"
  by (simp add: BOARDS_def BARE_1MB_def layout_derive_def checked_sub_def STORAGE_LEN_def BUILD_PAGE_SIZE_def)

text \<open>The build succeeds exactly when one board feature is enabled.\<close>

lemma select_board_Inr: "select_board e = Inr b \<Longrightarrow> b \<in> set BOARDS \<and> e (bm_feature_env b)"
proof -
  assume r: "select_board e = Inr b"
  define bs where "bs = filter (\<lambda>b. e (bm_feature_env b)) BOARDS"
  have "bs = [b]"
    using r by (auto simp: select_board_def bs_def [symmetric] split: list.splits)
  then have "b \<in> set bs" by simp
  then show ?thesis by (simp add: bs_def)
qed

lemma build_script_ok:
  "is_ok (build_script e) \<longleftrightarrow> length (filter (\<lambda>b. e (bm_feature_env b)) BOARDS) = 1"
proof -
  define bs where "bs = filter (\<lambda>b. e (bm_feature_env b)) BOARDS"
  have d: "\<exists>l. layout_derive b = Inr l" if "b \<in> set BOARDS" for b
    using boards_derive that by (cases "layout_derive b") (auto simp: list_all_iff)
  show ?thesis
  proof (cases "\<exists>b. bs = [b]")
    case True
    then obtain b where b: "bs = [b]" by blast
    then have "select_board e = Inr b" by (simp add: select_board_def bs_def [symmetric])
    then obtain l where "select_board e = Inr b" "layout_derive b = Inr l" using d select_board_Inr by blast
    then show ?thesis using b by (simp add: build_script_def bs_def [symmetric])
  next
    case False
    then have "\<not> is_ok (select_board e)" "length bs \<noteq> 1"
      by (auto simp: select_board_def bs_def [symmetric] length_Suc_conv split: list.splits)
    then show ?thesis by (cases "select_board e") (simp_all add: build_script_def bs_def [symmetric])
  qed
qed

end
