(* ===== verification/Elf.thy ===== *)
theory Elf
  imports Chip
begin

text \<open>\<open>src/provision/src/elf.rs\<close>: what a firmware image says about itself. Parsing the ELF
  container is the \<open>object\<close> crate; what it finds is the record \<open>elf_file\<close>.\<close>

record program_header =
  ph_type :: nat
  ph_filesz :: nat
  ph_paddr :: nat

record elf_symbol =
  sym_shndx :: nat
  sym_name :: "string option"
  sym_address :: nat

record elf_file =
  elf_program_headers :: "program_header list"
  elf_symbols :: "elf_symbol list"

definition PT_LOAD :: nat where "PT_LOAD = 1"
definition SHN_ABS :: nat where "SHN_ABS = 0xFFF1"
definition STORAGE_START :: string where "STORAGE_START = ''__storage_start''"
definition STORAGE_END :: string where "STORAGE_END = ''__storage_end''"

record firmware_image =
  img_app_start :: nat
  img_storage :: "(nat \<times> nat) option"

datatype elf_error =
    NotAnElf
  | NoLoadableSegments
  | StorageIncomplete
  | StorageNotAscending nat nat
  | StorageUnaligned nat nat

text \<open>The loop over the symbols; a later symbol of the same name replaces an earlier one.\<close>

fun storage_symbols :: "elf_symbol list \<Rightarrow> nat option \<times> nat option \<Rightarrow> nat option \<times> nat option" where
  "storage_symbols [] acc = acc"
| "storage_symbols (s # ss) (first, beyond) =
     storage_symbols ss
       (if sym_shndx s \<noteq> SHN_ABS then (first, beyond)
        else if sym_name s = Some STORAGE_START then (Some (sym_address s), beyond)
        else if sym_name s = Some STORAGE_END then (first, Some (sym_address s))
        else (first, beyond))"

definition elf_storage :: "elf_file \<Rightarrow> elf_error + (nat \<times> nat) option" where
  "elf_storage file =
     (case storage_symbols (elf_symbols file) (None, None) of
        (None, None) \<Rightarrow> Inr None
      | (Some first, Some beyond) \<Rightarrow>
          if beyond \<le> first then Inl (StorageNotAscending first beyond)
          else if first mod PAGE_SIZE \<noteq> 0 \<or> beyond mod PAGE_SIZE \<noteq> 0 then Inl (StorageUnaligned first beyond)
          else Inr (Some (first, beyond))
      | _ \<Rightarrow> Inl StorageIncomplete)"

definition load_addresses :: "elf_file \<Rightarrow> nat list" where
  "load_addresses file =
     map ph_paddr (filter (\<lambda>h. ph_type h = PT_LOAD \<and> ph_filesz h > 0) (elf_program_headers file))"

definition elf_read :: "(bytes \<Rightarrow> elf_file option) \<Rightarrow> bytes \<Rightarrow> elf_error + firmware_image" where
  "elf_read parse bs =
     (case parse bs of
        None \<Rightarrow> Inl NotAnElf
      | Some file \<Rightarrow>
         (case load_addresses file of
            [] \<Rightarrow> Inl NoLoadableSegments
          | a # as \<Rightarrow> map_ok (\<lambda>st. \<lparr>img_app_start = fold min as a, img_storage = st\<rparr>) (elf_storage file)))"

section \<open>Facts\<close>

text \<open>What is read is a range the erase accepts.\<close>

lemma elf_storage_range:
  "elf_storage file = Inr (Some (first, beyond)) \<Longrightarrow>
     first < beyond \<and> first mod PAGE_SIZE = 0 \<and> beyond mod PAGE_SIZE = 0"
  by (auto simp: elf_storage_def split: option.splits prod.splits if_splits)

lemma elf_read_storage:
  "elf_read parse bs = Inr img \<Longrightarrow> img_storage img = Some (first, beyond) \<Longrightarrow>
     first < beyond \<and> first mod PAGE_SIZE = 0 \<and> beyond mod PAGE_SIZE = 0"
  by (auto simp: elf_read_def split: option.splits list.splits dest: elf_storage_range)

lemma elf_app_start_least:
  assumes "elf_read parse bs = Inr img" "parse bs = Some file"
  shows "img_app_start img \<in> set (load_addresses file) \<and> (\<forall>a\<in>set (load_addresses file). img_app_start img \<le> a)"
proof -
  have fold: "fold min as a \<in> set (a # as) \<and> (\<forall>x\<in>set (a # as). fold min as a \<le> x)" for a :: nat and as
    unfolding Min.set_eq_fold [symmetric] using Min_in [of "set (a # as)"] Min_le [of "set (a # as)"] by auto
  obtain a as where a: "load_addresses file = a # as" "img_app_start img = fold min as a"
    using assms by (auto simp: elf_read_def split: list.splits)
  show ?thesis unfolding a by (rule fold)
qed

text \<open>Symbols that are the two the linker script defines, among any that are not.\<close>

definition storage_symbol :: "elf_symbol \<Rightarrow> bool" where
  "storage_symbol s \<longleftrightarrow> sym_shndx s = SHN_ABS \<and> (sym_name s = Some STORAGE_START \<or> sym_name s = Some STORAGE_END)"

lemma storage_symbols_filter: "storage_symbols ss acc = storage_symbols (filter storage_symbol ss) acc"
  by (induction ss acc rule: storage_symbols.induct) (auto simp: storage_symbol_def)

end
