(* ===== verification/ApiClient.thy ===== *)
theory ApiClient
  imports Effects ApiRegistry ApiAuth
begin

text \<open>\<open>src/provision/src/api_client.rs\<close>: the tool's client of the service, and the service as it is
  seen over an unreliable network. HTTP, TLS and JSON are ureq and serde; reading a body as a type
  gives the value or the library's error text, and a response is its status with both readings the
  client may ask for.\<close>

section \<open>Responses and errors\<close>

record 'v http_response =
  resp_status :: nat
  resp_value :: "string + 'v"
  resp_error :: "string + api_error_body"

datatype client_error =
    Rejected nat api_error_body
  | TransportError string
  | ResponseDeserialization nat string

definition is_success :: "nat \<Rightarrow> bool" where "is_success status \<longleftrightarrow> 200 \<le> status \<and> status < 300"

definition reject_on_error_status :: "'v http_response \<Rightarrow> client_error + 'v http_response" where
  "reject_on_error_status r =
     (if \<not> is_success (resp_status r) then
        (case resp_error r of
           Inl e \<Rightarrow> Inl (ResponseDeserialization (resp_status r) e)
         | Inr body \<Rightarrow> Inl (Rejected (resp_status r) body))
      else Inr r)"

definition handle_response :: "'v http_response \<Rightarrow> client_error + 'v" where
  "handle_response response =
     (case reject_on_error_status response of
        Inl e \<Rightarrow> Inl e
      | Inr r \<Rightarrow> map_err (ResponseDeserialization (resp_status r)) (resp_value r))"

fun is_transient :: "client_error \<Rightarrow> bool" where
  "is_transient (Rejected _ _) = False"
| "is_transient (TransportError _) = True"
| "is_transient (ResponseDeserialization _ _) = True"

fun may_have_committed :: "client_error \<Rightarrow> bool" where
  "may_have_committed (Rejected _ _) = False"
| "may_have_committed (TransportError _) = True"
| "may_have_committed (ResponseDeserialization _ _) = True"

definition absent_if_not_registered :: "client_error + 'v \<Rightarrow> client_error + 'v option" where
  "absent_if_not_registered result =
     (case result of
        Inr v \<Rightarrow> Inr (Some v)
      | Inl (Rejected status body) \<Rightarrow>
          if body_code body = CodeDeviceNotFound then Inr None else Inl (Rejected status body)
      | Inl e \<Rightarrow> Inl e)"

section \<open>Requests\<close>

record api_target =
  target_label :: string
  target_url :: string
  target_token :: string

definition format_url :: "api_target \<Rightarrow> string \<Rightarrow> string" where
  "format_url t url = target_url t @ url"

definition auth_header :: "api_target \<Rightarrow> string" where
  "auth_header t = ''Bearer '' @ target_token t"

definition rotate_path :: "device_addr \<Rightarrow> string" where
  "rotate_path addr = ''/devices/'' @ encode_hex addr @ ''/rotate-key''"

definition device_path :: "device_addr \<Rightarrow> string" where
  "device_path addr = ''/devices/'' @ encode_hex addr"

section \<open>The service behind the network\<close>

text \<open>The service's state, and the network: each request is one entry of a script, which says
  whether it reaches the service, whether the response comes back and can be read, and what the
  service meets while it serves it - the random bytes it draws, the time, a database fault, and a
  panic (a closed connection).\<close>

record service =
  svc_registry :: device_registry
  svc_db :: database

record exchange =
  ex_delivered :: bool
  ex_returned :: bool
  ex_readable :: bool
  ex_random :: "string + bytes"
  ex_iv :: bytes
  ex_fault :: "sqlx_error option"
  ex_fault2 :: "sqlx_error option"
  ex_now :: int

record network =
  net_service :: service
  net_script :: "nat \<Rightarrow> exchange"
  net_calls :: nat
  net_xaead :: xaead
  net_admin_token :: admin_token

definition served :: "(api_error + nat \<times> 'v) option \<Rightarrow> string + 'v http_response" where
  "served r =
     (case r of
        None \<Rightarrow> Inl ''connection closed before message completed''
      | Some (Inl e) \<Rightarrow> Inr \<lparr>resp_status = err_status e, resp_value = Inl ''missing field'', resp_error = Inr (err_body e)\<rparr>
      | Some (Inr (status, v)) \<Rightarrow> Inr \<lparr>resp_status = status, resp_value = Inr v, resp_error = Inl ''missing field''\<rparr>)"

text \<open>The guard in front of every device route; the header's bytes are its text.\<close>

definition guarded ::
  "admin_token \<Rightarrow> api_target \<Rightarrow> (service \<Rightarrow> (api_error + nat \<times> 'v) option \<times> service) \<Rightarrow> service
     \<Rightarrow> (api_error + nat \<times> 'v) option \<times> service" where
  "guarded tok t handler svc =
     (case require_bearer Some tok (Some (auth_header t)) (\<lambda>_. Inr ()) of
        Inl e \<Rightarrow> (Some (Inl e), svc)
      | Inr _ \<Rightarrow> handler svc)"

definition call ::
  "api_target \<Rightarrow> (exchange \<Rightarrow> xaead \<Rightarrow> service \<Rightarrow> (api_error + nat \<times> 'v) option \<times> service)
     \<Rightarrow> (network, client_error, 'v) comp" where
  "call t handler net =
     (let ex = net_script net (net_calls net); net1 = net\<lparr>net_calls := net_calls net + 1\<rparr> in
      if \<not> ex_delivered ex then (Inl (TransportError ''io''), net1)
      else case guarded (net_admin_token net) t (handler ex (net_xaead net)) (net_service net) of
        (r, svc') \<Rightarrow>
          (let net2 = net1\<lparr>net_service := svc'\<rparr> in
           if \<not> ex_returned ex then (Inl (TransportError ''timeout: global''), net2)
           else case served r of
                  Inl e \<Rightarrow> (Inl (TransportError e), net2)
                | Inr response \<Rightarrow>
                    if ex_readable ex then (handle_response response, net2)
                    else (handle_response (response\<lparr>resp_value := Inl ''body'', resp_error := Inl ''body''\<rparr>), net2)))"

definition serve_get ::
  "device_addr \<Rightarrow> exchange \<Rightarrow> xaead \<Rightarrow> service \<Rightarrow> (api_error + nat \<times> device_summary) option \<times> service" where
  "serve_get addr ex X svc = (Some (get_device X (svc_registry svc) (ex_fault ex) (svc_db svc) addr), svc)"

definition serve_list ::
  "exchange \<Rightarrow> xaead \<Rightarrow> service \<Rightarrow> (api_error + nat \<times> device_summary list) option \<times> service" where
  "serve_list ex X svc = (get_devices X (svc_registry svc) (ex_fault ex) (svc_db svc), svc)"

definition serve_provision ::
  "string \<Rightarrow> device_addr \<Rightarrow> exchange \<Rightarrow> xaead \<Rightarrow> service
     \<Rightarrow> (api_error + nat \<times> device_key_response) option \<times> service" where
  "serve_provision name addr ex X svc =
     (case provision_device X (svc_registry svc) (ex_random ex) (ex_iv ex) (ex_fault ex) (ex_fault2 ex) (\<lambda>db. db)
             (ex_now ex) addr name (svc_db svc) of
        (r, reg', db') \<Rightarrow> (r, \<lparr>svc_registry = reg', svc_db = db'\<rparr>))"

definition serve_rotate ::
  "device_addr \<Rightarrow> exchange \<Rightarrow> xaead \<Rightarrow> service \<Rightarrow> (api_error + nat \<times> device_key_response) option \<times> service" where
  "serve_rotate addr ex X svc =
     (case rotate_device_key X (svc_registry svc) (ex_random ex) (ex_iv ex) (ex_fault ex) (ex_now ex) addr (svc_db svc) of
        (r, reg', db') \<Rightarrow> (r, \<lparr>svc_registry = reg', svc_db = db'\<rparr>))"

section \<open>The client's operations\<close>

definition client_check_auth :: "api_target \<Rightarrow> (network, client_error, unit) comp" where
  "client_check_auth t net =
     (case call t (\<lambda>ex X svc. case serve_list ex X svc of (r, svc') \<Rightarrow> (map_option (map_ok (\<lambda>(s, _). (s, ()))) r, svc')) net of
        (Inl (ResponseDeserialization status e), net') \<Rightarrow>
           (if is_success status then Inr () else Inl (ResponseDeserialization status e), net')
      | (r, net') \<Rightarrow> (r, net'))"

definition client_devices :: "api_target \<Rightarrow> (network, client_error, device_summary list) comp" where
  "client_devices t = call t serve_list"

definition client_device :: "api_target \<Rightarrow> device_addr \<Rightarrow> (network, client_error, device_summary option) comp" where
  "client_device t addr net =
     (case call t (serve_get addr) net of (r, net') \<Rightarrow> (absent_if_not_registered r, net'))"

definition client_provision :: "api_target \<Rightarrow> string \<Rightarrow> device_addr \<Rightarrow> (network, client_error, device_key_response) comp" where
  "client_provision t name addr = call t (serve_provision name addr)"

definition client_rotate_key :: "api_target \<Rightarrow> device_addr \<Rightarrow> (network, client_error, device_key_response) comp" where
  "client_rotate_key t addr = call t (serve_rotate addr)"

end
