(* ===== verification/Disk.thy ===== *)
theory Disk
  imports Effects Text_Util
begin

text \<open>The file system as the tool uses it: files by path, with their mode. Each operation is one step
  of a script that may make it fail; a failed write may have left the first bytes of the new content
  behind (a full disk, a killed process), every other failure leaves things as they were.
  Directories and the durability of what is not yet on the medium are not modelled.\<close>

datatype io_error = IoNotFound | IoError string

record stored_file =
  f_mode :: nat
  f_content :: bytes

record disk =
  dk_files :: "string \<Rightarrow> stored_file option"
  dk_step :: nat
  dk_script :: "nat \<Rightarrow> (string \<times> nat option) option"

definition NEW_FILE_MODE :: nat where "NEW_FILE_MODE = 6 * 64 + 4 * 8 + 4"

text \<open>\<open>Path::join\<close> with a relative path.\<close>

definition path_join :: "string \<Rightarrow> string \<Rightarrow> string" where
  "path_join dir name = (if dir = [] \<or> last dir = CHR ''/'' then dir @ name else dir @ ''/'' @ name)"

definition fs_step :: "((string \<times> nat option) option \<Rightarrow> disk \<Rightarrow> (io_error + 'a) \<times> disk) \<Rightarrow> (disk, io_error, 'a) comp" where
  "fs_step f d = f (dk_script d (dk_step d)) (d\<lparr>dk_step := dk_step d + 1\<rparr>)"

definition fs_read :: "string \<Rightarrow> (disk, io_error, bytes) comp" where
  "fs_read p = fs_step (\<lambda>fault d.
     case fault of
       Some (e, _) \<Rightarrow> (Inl (IoError e), d)
     | None \<Rightarrow> (case dk_files d p of None \<Rightarrow> (Inl IoNotFound, d) | Some f \<Rightarrow> (Inr (f_content f), d)))"

text \<open>\<open>String::from_utf8\<close>, which \<open>fs::read_to_string\<close> applies.\<close>

definition continuation :: "byte \<Rightarrow> bool" where "continuation b \<longleftrightarrow> 0x80 \<le> b \<and> b \<le> 0xBF"

fun utf8_step :: "bytes \<Rightarrow> bytes option" where
  "utf8_step [] = None"
| "utf8_step (a # rest) =
     (if a < 0x80 then Some rest
      else if 0xC2 \<le> a \<and> a \<le> 0xDF then
        (case rest of b # r \<Rightarrow> if continuation b then Some r else None | _ \<Rightarrow> None)
      else if 0xE0 \<le> a \<and> a \<le> 0xEF then
        (case rest of
           b # c # r \<Rightarrow>
             if continuation b \<and> continuation c \<and> (a = 0xE0 \<longrightarrow> 0xA0 \<le> b) \<and> (a = 0xED \<longrightarrow> b \<le> 0x9F) then Some r else None
         | _ \<Rightarrow> None)
      else if 0xF0 \<le> a \<and> a \<le> 0xF4 then
        (case rest of
           b # c # d # r \<Rightarrow>
             if continuation b \<and> continuation c \<and> continuation d \<and> (a = 0xF0 \<longrightarrow> 0x90 \<le> b) \<and> (a = 0xF4 \<longrightarrow> b \<le> 0x8F)
             then Some r else None
         | _ \<Rightarrow> None)
      else None)"

lemma utf8_step_shorter: "utf8_step bs = Some rest \<Longrightarrow> length rest < length bs"
  by (induction bs rule: utf8_step.induct) (auto split: if_splits list.splits)

function utf8_ok :: "bytes \<Rightarrow> bool" where
  "utf8_ok bs = (bs = [] \<or> (case utf8_step bs of None \<Rightarrow> False | Some rest \<Rightarrow> utf8_ok rest))"
  by pat_completeness auto
termination by (relation "measure length") (auto dest: utf8_step_shorter)

declare utf8_ok.simps [simp del]

definition fs_read_to_string :: "string \<Rightarrow> (disk, io_error, bytes) comp" where
  "fs_read_to_string p =
     and_then (fs_read p) (\<lambda>c. if utf8_ok c then return_ok c else throw (IoError ''stream did not contain valid UTF-8''))"

definition fs_mode :: "string \<Rightarrow> (disk, io_error, nat) comp" where
  "fs_mode p = fs_step (\<lambda>fault d.
     case fault of
       Some (e, _) \<Rightarrow> (Inl (IoError e), d)
     | None \<Rightarrow> (case dk_files d p of None \<Rightarrow> (Inl IoNotFound, d) | Some f \<Rightarrow> (Inr (f_mode f), d)))"

definition mode_at :: "disk \<Rightarrow> string \<Rightarrow> nat" where
  "mode_at d p = (case dk_files d p of None \<Rightarrow> NEW_FILE_MODE | Some f \<Rightarrow> f_mode f)"

definition put_content :: "string \<Rightarrow> bytes \<Rightarrow> disk \<Rightarrow> disk" where
  "put_content p content d = d\<lparr>dk_files := (dk_files d)(p \<mapsto> \<lparr>f_mode = mode_at d p, f_content = content\<rparr>)\<rparr>"

text \<open>\<open>fs::write\<close>: create or truncate, then write.\<close>

definition fs_write :: "string \<Rightarrow> bytes \<Rightarrow> (disk, io_error, unit) comp" where
  "fs_write p content = fs_step (\<lambda>fault d.
     case fault of
       Some (e, None) \<Rightarrow> (Inl (IoError e), d)
     | Some (e, Some k) \<Rightarrow> (Inl (IoError e), put_content p (take k content) d)
     | None \<Rightarrow> (Inr (), put_content p content d))"

definition fs_remove :: "string \<Rightarrow> (disk, io_error, unit) comp" where
  "fs_remove p = fs_step (\<lambda>fault d.
     case fault of
       Some (e, _) \<Rightarrow> (Inl (IoError e), d)
     | None \<Rightarrow> (case dk_files d p of
                  None \<Rightarrow> (Inl IoNotFound, d)
                | Some _ \<Rightarrow> (Inr (), d\<lparr>dk_files := (dk_files d)(p := None)\<rparr>)))"

definition fs_rename :: "string \<Rightarrow> string \<Rightarrow> (disk, io_error, unit) comp" where
  "fs_rename p q = fs_step (\<lambda>fault d.
     case fault of
       Some (e, _) \<Rightarrow> (Inl (IoError e), d)
     | None \<Rightarrow> (case dk_files d p of
                  None \<Rightarrow> (Inl IoNotFound, d)
                | Some f \<Rightarrow> (Inr (), d\<lparr>dk_files := (dk_files d)(p := None, q \<mapsto> f)\<rparr>)))"

text \<open>\<open>OpenOptions\<close> with \<open>create_new\<close> and a mode.\<close>

definition fs_create_new :: "string \<Rightarrow> nat \<Rightarrow> (disk, io_error, unit) comp" where
  "fs_create_new p mode = fs_step (\<lambda>fault d.
     case fault of
       Some (e, _) \<Rightarrow> (Inl (IoError e), d)
     | None \<Rightarrow> (case dk_files d p of
                  Some _ \<Rightarrow> (Inl (IoError ''file exists''), d)
                | None \<Rightarrow> (Inr (), d\<lparr>dk_files := (dk_files d)(p \<mapsto> \<lparr>f_mode = mode, f_content = []\<rparr>)\<rparr>)))"

text \<open>Operations without an effect on files: \<open>create_dir_all\<close>, \<open>sync_all\<close>.\<close>

definition fs_control :: "(disk, io_error, unit) comp" where
  "fs_control = fs_step (\<lambda>fault d. case fault of Some (e, _) \<Rightarrow> (Inl (IoError e), d) | None \<Rightarrow> (Inr (), d))"

text \<open>\<open>let _ = ...\<close>: the result is dropped.\<close>

definition ignoring :: "('s, 'e, 'a) comp \<Rightarrow> ('s, 'f, unit) comp" where
  "ignoring m s = (Inr (), snd (m s))"

section \<open>Facts\<close>

text \<open>Failed writes leave nothing behind.\<close>

definition no_torn_writes :: "disk \<Rightarrow> bool" where
  "no_torn_writes d \<longleftrightarrow> (\<forall>n e k. dk_script d n = Some (e, k) \<longrightarrow> k = None)"

lemma fs_script_kept:
  "fs_read p d = (r1, d1) \<Longrightarrow> dk_script d1 = dk_script d"
  "fs_write p c d = (r2, d1) \<Longrightarrow> dk_script d1 = dk_script d"
  "fs_remove p d = (r3, d1) \<Longrightarrow> dk_script d1 = dk_script d"
  "fs_control d = (r4, d1) \<Longrightarrow> dk_script d1 = dk_script d"
  by (auto simp: fs_read_def fs_write_def fs_remove_def fs_control_def fs_step_def put_content_def
      split: option.splits prod.splits)

lemma fs_read_files: "fs_read p d = (r, d1) \<Longrightarrow> dk_files d1 = dk_files d"
  by (auto simp: fs_read_def fs_step_def split: option.splits prod.splits)

lemma fs_control_files: "fs_control d = (r, d1) \<Longrightarrow> dk_files d1 = dk_files d"
  by (auto simp: fs_control_def fs_step_def split: option.splits prod.splits)

lemma fs_write_files:
  assumes "fs_write p c d = (r, d1)" "no_torn_writes d"
  shows "dk_files d1 = (if r = Inr () then (dk_files d)(p \<mapsto> \<lparr>f_mode = mode_at d p, f_content = c\<rparr>) else dk_files d)"
proof (cases "dk_script d (dk_step d)")
  case None
  then show ?thesis using assms(1) by (auto simp: fs_write_def fs_step_def put_content_def mode_at_def)
next
  case (Some ek)
  then obtain e where "dk_script d (dk_step d) = Some (e, None)"
    using assms(2) by (cases ek) (auto simp: no_torn_writes_def)
  then show ?thesis using assms(1) by (auto simp: fs_write_def fs_step_def)
qed

lemma fs_remove_files:
  assumes "fs_remove p d = (r, d1)"
  shows "dk_files d1 = dk_files d \<or> dk_files d1 = (dk_files d)(p := None)"
  using assms by (auto simp: fs_remove_def fs_step_def split: option.splits prod.splits)

end
