(* ===== verification/Firmware.thy ===== *)
theory Firmware
  imports Disk Elf "HOL-Library.Multiset" "HOL-Library.List_Lexorder" "HOL-Library.Char_ord"
begin

text \<open>\<open>src/provision/src/firmware.rs\<close>: the store of named firmware images, a manifest beside one
  file per image, named by the start of its SHA-256. The hash, TOML, and what \<open>git\<close> says about a
  path are parameters.\<close>

record artifact =
  art_id :: string
  art_name :: string
  art_app_start :: nat
  art_storage :: "(nat \<times> nat) option"
  art_built_at :: int
  art_git :: "string option"
  art_dirty :: bool

definition storage_range :: "artifact \<Rightarrow> (nat \<times> nat) option" where
  "storage_range a = art_storage a"

record firmware_env =
  fe_sha256 :: "bytes \<Rightarrow> bytes"
  fe_parse_elf :: "bytes \<Rightarrow> elf_file option"
  fe_to_toml :: "artifact list \<Rightarrow> bytes"
  fe_from_toml :: "bytes \<Rightarrow> string + artifact list"
  fe_git :: "string \<Rightarrow> string list \<Rightarrow> string option"

record firmware_store =
  fst_dir :: string
  fst_artifacts :: "artifact list"
  fst_disk :: disk

datatype firmware_error =
    FwStore string
  | FwRead string io_error
  | FwWrite string io_error
  | FwParse string string
  | FwElf string elf_error
  | FwInvalidName string

definition MANIFEST_FILE :: string where "MANIFEST_FILE = ''manifest.toml''"
definition ID_LEN :: nat where "ID_LEN = 12"

definition on_disk :: "(disk, 'e, 'a) comp \<Rightarrow> (firmware_store, 'e, 'a) comp" where
  "on_disk = on_part fst_disk (\<lambda>d s. s\<lparr>fst_disk := d\<rparr>)"

interpretation firmware_disk_part: part fst_disk "\<lambda>d s. s\<lparr>fst_disk := d\<rparr>" by unfold_locales simp_all

definition manifest_path :: "string \<Rightarrow> string" where "manifest_path dir = path_join dir MANIFEST_FILE"

definition image_path_in :: "string \<Rightarrow> string \<Rightarrow> string" where
  "image_path_in dir i = path_join dir (i @ ''.elf'')"

definition image_path :: "firmware_store \<Rightarrow> artifact \<Rightarrow> string" where
  "image_path s a = image_path_in (fst_dir s) (art_id a)"

definition firmware_at :: "firmware_env \<Rightarrow> string \<Rightarrow> (disk, firmware_error, firmware_store) comp" where
  "firmware_at env dir d =
     (case fs_read_to_string (manifest_path dir) d of
        (Inl IoNotFound, d1) \<Rightarrow> (Inr \<lparr>fst_dir = dir, fst_artifacts = [], fst_disk = d1\<rparr>, d1)
      | (Inl e, d1) \<Rightarrow> (Inl (FwRead (manifest_path dir) e), d1)
      | (Inr contents, d1) \<Rightarrow>
          (map_err (FwParse (manifest_path dir))
             (map_ok (\<lambda>as. \<lparr>fst_dir = dir, fst_artifacts = as, fst_disk = d1\<rparr>) (fe_from_toml env contents)), d1))"

definition firmware_get :: "firmware_store \<Rightarrow> string \<Rightarrow> artifact option" where
  "firmware_get s name = List.find (\<lambda>a. art_name a = name) (fst_artifacts s)"

text \<open>\<open>format!("{b:02x}")\<close>.\<close>

definition lower_hex_digit :: "nat \<Rightarrow> char" where
  "lower_hex_digit n = ''0123456789abcdef'' ! n"

definition fw_hex :: "bytes \<Rightarrow> string" where
  "fw_hex bs = concat (map (\<lambda>b. [lower_hex_digit (unat b div 16), lower_hex_digit (unat b mod 16)]) bs)"

definition image_id :: "firmware_env \<Rightarrow> bytes \<Rightarrow> string" where
  "image_id env bs = fw_hex (take (ID_LEN div 2) (fe_sha256 env bs))"

text \<open>\<open>char::is_whitespace\<close> and \<open>char::is_control\<close> somewhere in a text.\<close>

definition contains :: "string \<Rightarrow> string \<Rightarrow> bool" where
  "contains s w \<longleftrightarrow> (\<exists>i\<in>set [0..<length s]. starts_with w (drop i s))"

definition control_chars :: "string list" where
  "control_chars = map (\<lambda>n. [char_of (n :: nat)]) ([0..<32] @ [127]) @ map (\<lambda>n. [CHR 0xC2, char_of (n :: nat)]) [128..<160]"

definition unusable_name :: "string \<Rightarrow> bool" where
  "unusable_name name \<longleftrightarrow> name = [] \<or> list_ex (contains name) white_space \<or> list_ex (contains name) control_chars"

text \<open>\<open>provenance\<close>: \<open>git\<close> run in the file's directory; a path without a parent has none.\<close>

definition path_parent :: "string \<Rightarrow> string option" where
  "path_parent p =
     (if p = [] \<or> p = ''/'' then None
      else case dropWhile (\<lambda>c. c \<noteq> CHR ''/'') (rev p) of [] \<Rightarrow> Some [] | _ # rest \<Rightarrow> Some (rev rest))"

definition provenance :: "firmware_env \<Rightarrow> string \<Rightarrow> string option \<times> bool" where
  "provenance env p =
     (case path_parent p of
        None \<Rightarrow> (None, False)
      | Some dir \<Rightarrow>
         (case fe_git env dir [''rev-parse'', ''--short'', ''HEAD''] of
            None \<Rightarrow> (None, False)
          | Some commit \<Rightarrow>
              if commit = [] then (None, False)
              else (Some commit,
                    case fe_git env dir [''status'', ''--porcelain'', ''--untracked-files=no''] of
                      None \<Rightarrow> False | Some status \<Rightarrow> status \<noteq> [])))"

fun replace_first :: "artifact \<Rightarrow> artifact list \<Rightarrow> artifact option \<times> artifact list" where
  "replace_first a [] = (None, [a])"
| "replace_first a (x # xs) =
     (if art_name x = art_name a then (Some x, a # xs)
      else case replace_first a xs of (r, ys) \<Rightarrow> (r, x # ys))"

definition firmware_replace :: "artifact \<Rightarrow> artifact list \<Rightarrow> artifact option \<times> artifact list" where
  "firmware_replace a as = (case replace_first a as of (r, bs) \<Rightarrow> (r, sort_key art_name bs))"

definition firmware_save :: "firmware_env \<Rightarrow> (firmware_store, firmware_error, unit) comp" where
  "firmware_save env s =
     with_err (FwWrite (manifest_path (fst_dir s)))
       (on_disk (fs_write (manifest_path (fst_dir s)) (fe_to_toml env (fst_artifacts s)))) s"

text \<open>Deletes the image of a forgotten artifact unless another row still names it.\<close>

definition drop_image :: "artifact \<Rightarrow> (firmware_store, firmware_error, unit) comp" where
  "drop_image old s =
     (if \<not> list_ex (\<lambda>a. art_id a = art_id old) (fst_artifacts s)
      then ignoring (on_disk (fs_remove (image_path s old))) s else (Inr (), s))"

definition firmware_add :: "firmware_env \<Rightarrow> int \<Rightarrow> string \<Rightarrow> string \<Rightarrow> (firmware_store, firmware_error, artifact) comp" where
  "firmware_add env now path name =
     (if unusable_name name then throw (FwInvalidName name)
      else
        and_then (with_err (FwRead path) (on_disk (fs_read path))) (\<lambda>bs.
        and_then (lift_result (map_err (FwElf path) (elf_read (fe_parse_elf env) bs))) (\<lambda>image.
          let artifact = \<lparr>art_id = image_id env bs, art_name = name, art_app_start = img_app_start image,
                          art_storage = img_storage image, art_built_at = now,
                          art_git = fst (provenance env path), art_dirty = snd (provenance env path)\<rparr> in
        and_then (\<lambda>s. with_err (FwWrite (fst_dir s)) (on_disk fs_control) s) (\<lambda>_.
        and_then (\<lambda>s. with_err (FwWrite (image_path s artifact)) (on_disk (fs_write (image_path s artifact) bs)) s) (\<lambda>_ s.
          case firmware_replace artifact (fst_artifacts s) of
            (replaced, as) \<Rightarrow>
              and_then (firmware_save env) (\<lambda>_.
              and_then (case replaced of
                          Some old \<Rightarrow> if art_id old \<noteq> art_id artifact then drop_image old else return_ok ()
                        | None \<Rightarrow> return_ok ())
                (\<lambda>_. return_ok artifact)) (s\<lparr>fst_artifacts := as\<rparr>))))))"

text \<open>The row at the first position with the name is taken out.\<close>

fun remove_name :: "string \<Rightarrow> artifact list \<Rightarrow> (artifact \<times> artifact list) option" where
  "remove_name name [] = None"
| "remove_name name (x # xs) =
     (if art_name x = name then Some (x, xs)
      else map_option (\<lambda>(r, ys). (r, x # ys)) (remove_name name xs))"

definition firmware_remove :: "firmware_env \<Rightarrow> string \<Rightarrow> (firmware_store, firmware_error, artifact option) comp" where
  "firmware_remove env name s =
     (case remove_name name (fst_artifacts s) of
        None \<Rightarrow> (Inr None, s)
      | Some (removed, as) \<Rightarrow>
          and_then (firmware_save env) (\<lambda>_. and_then (drop_image removed) (\<lambda>_. return_ok (Some removed)))
            (s\<lparr>fst_artifacts := as\<rparr>))"

section \<open>Choosing\<close>

datatype pick_error = StoreEmpty | PickNoTty | NotAChoice | PickIo string

text \<open>The answer is a number from 1 to the number of rows.\<close>

definition firmware_pick :: "artifact list \<Rightarrow> bool \<Rightarrow> string + string \<Rightarrow> pick_error + artifact" where
  "firmware_pick artifacts stdin_is_terminal answer =
     (if artifacts = [] then Inl StoreEmpty
      else if \<not> stdin_is_terminal then Inl PickNoTty
      else case answer of
        Inl e \<Rightarrow> Inl (PickIo e)
      | Inr line \<Rightarrow>
         (case parse_uint (2 ^ 64) (trim line) of
            None \<Rightarrow> Inl NotAChoice
          | Some choice \<Rightarrow>
              if 1 \<le> choice \<and> choice \<le> length artifacts then Inr (artifacts ! (choice - 1)) else Inl NotAChoice))"

section \<open>Facts\<close>

text \<open>A row is backed when its image is there, is the one its id names, and says of itself what the
  row records. The rows are those in memory and those of the manifest on disk.\<close>

definition backed :: "firmware_env \<Rightarrow> string \<Rightarrow> (string \<Rightarrow> stored_file option) \<Rightarrow> artifact \<Rightarrow> bool" where
  "backed env dir files a \<longleftrightarrow>
     (\<exists>f img. files (image_path_in dir (art_id a)) = Some f \<and> image_id env (f_content f) = art_id a
        \<and> elf_read (fe_parse_elf env) (f_content f) = Inr img
        \<and> img_app_start img = art_app_start a \<and> img_storage img = art_storage a)"

definition rows_on_disk :: "firmware_env \<Rightarrow> string \<Rightarrow> (string \<Rightarrow> stored_file option) \<Rightarrow> artifact list" where
  "rows_on_disk env dir files =
     (case files (manifest_path dir) of
        None \<Rightarrow> []
      | Some f \<Rightarrow> (case fe_from_toml env (f_content f) of Inl _ \<Rightarrow> [] | Inr as \<Rightarrow> as))"

definition rows_backed :: "firmware_env \<Rightarrow> firmware_store \<Rightarrow> bool" where
  "rows_backed env s \<longleftrightarrow>
     (\<forall>a\<in>set (fst_artifacts s) \<union> set (rows_on_disk env (fst_dir s) (dk_files (fst_disk s))).
        backed env (fst_dir s) (dk_files (fst_disk s)) a)"

definition names_ok :: "artifact list \<Rightarrow> bool" where
  "names_ok as \<longleftrightarrow> sorted (map art_name as) \<and> distinct (map art_name as)"

definition toml_ok :: "firmware_env \<Rightarrow> bool" where
  "toml_ok env \<longleftrightarrow> (\<forall>as. fe_from_toml env (fe_to_toml env as) = Inr as)"

text \<open>No other stored image has the same twelve digits.\<close>

definition no_collision :: "firmware_env \<Rightarrow> firmware_store \<Rightarrow> bytes \<Rightarrow> bool" where
  "no_collision env s bs \<longleftrightarrow>
     (\<forall>f. dk_files (fst_disk s) (image_path_in (fst_dir s) (image_id env bs)) = Some f \<longrightarrow> f_content f = bs)"

lemma image_path_inject: "image_path_in dir i = image_path_in dir j \<longleftrightarrow> i = j"
  by (simp add: image_path_in_def path_join_def)

lemma image_path_manifest: "image_path_in dir i \<noteq> manifest_path dir"
proof
  assume "image_path_in dir i = manifest_path dir"
  then have "last (image_path_in dir i) = last (manifest_path dir)" by simp
  then show False by (simp add: image_path_in_def manifest_path_def path_join_def MANIFEST_FILE_def split: if_splits)
qed

text \<open>Names.\<close>

lemma replace_first_cases:
  "case replace_first a as of
     (None, bs) \<Rightarrow> art_name a \<notin> art_name ` set as \<and> bs = as @ [a]
   | (Some old, bs) \<Rightarrow> \<exists>xs ys. as = xs @ old # ys \<and> bs = xs @ a # ys \<and> art_name old = art_name a
       \<and> art_name a \<notin> art_name ` set xs"
proof (induction as)
  case (Cons x xs)
  obtain r ys where r: "replace_first a xs = (r, ys)" by fastforce
  show ?case
  proof (cases "art_name x = art_name a")
    case True
    then show ?thesis by (auto intro: exI [of _ "[]"])
  next
    case False
    show ?thesis
    proof (cases r)
      case None
      then show ?thesis using False Cons.IH r by simp
    next
      case (Some old)
      then obtain us vs where "xs = us @ old # vs" "ys = us @ a # vs" "art_name old = art_name a"
        "art_name a \<notin> art_name ` set us"
        using Cons.IH r by auto
      then show ?thesis using False r Some by (simp, intro exI [of _ "x # us"] exI [of _ vs]) auto
    qed
  qed
qed simp

lemma firmware_replace_names:
  assumes "firmware_replace a as = (r, bs)" "distinct (map art_name as)"
  shows "names_ok bs" "a \<in> set bs" "set bs \<subseteq> insert a (set as)"
    "\<forall>x\<in>set as. x \<in> set bs \<or> art_name x = art_name a" "r = Some old \<Longrightarrow> old \<in> set as \<and> art_name old = art_name a"
proof -
  obtain cs where cs: "replace_first a as = (r, cs)" "bs = sort_key art_name cs"
    using assms(1) by (auto simp: firmware_replace_def split: prod.splits)
  have d: "distinct (map art_name cs) \<and> a \<in> set cs \<and> set cs \<subseteq> insert a (set as)
      \<and> (\<forall>x\<in>set as. x \<in> set cs \<or> art_name x = art_name a) \<and> (\<forall>old. r = Some old \<longrightarrow> old \<in> set as \<and> art_name old = art_name a)"
    using replace_first_cases [of a as] cs(1) assms(2) by (cases r) auto
  have "mset bs = mset cs" by (simp add: cs(2))
  then have "mset (map art_name bs) = mset (map art_name cs)" by simp
  then have "distinct (map art_name bs)" using d mset_eq_imp_distinct_iff by blast
  then show "names_ok bs" by (simp add: names_ok_def cs(2))
  show "a \<in> set bs" "set bs \<subseteq> insert a (set as)" "\<forall>x\<in>set as. x \<in> set bs \<or> art_name x = art_name a"
    "r = Some old \<Longrightarrow> old \<in> set as \<and> art_name old = art_name a"
    using d by (auto simp: cs(2))
qed

lemma remove_name_Some:
  assumes "remove_name name as = Some (r, bs)"
  shows "\<exists>xs ys. as = xs @ r # ys \<and> bs = xs @ ys \<and> art_name r = name"
  using assms
proof (induction as arbitrary: bs)
  case (Cons x xs)
  show ?case
  proof (cases "art_name x = name")
    case True
    then show ?thesis using Cons.prems by (auto intro: exI [of _ "[]"])
  next
    case False
    then obtain cs where "remove_name name xs = Some (r, cs)" "bs = x # cs" using Cons.prems by auto
    then show ?thesis using Cons.IH [of cs] by (metis append_Cons)
  qed
qed simp

lemma remove_name_names:
  assumes "remove_name name as = Some (r, bs)" "names_ok as"
  shows "names_ok bs" "set bs \<subseteq> set as"
proof -
  obtain xs ys where "as = xs @ r # ys" "bs = xs @ ys" using remove_name_Some [OF assms(1)] by blast
  then show "names_ok bs" "set bs \<subseteq> set as" using assms(2) by (auto simp: names_ok_def sorted_append)
qed

text \<open>The files under each step.\<close>

lemma on_disk_run: "m (fst_disk s) = (r, d) \<Longrightarrow> on_disk m s = (r, s\<lparr>fst_disk := d\<rparr>)"
  by (simp add: on_disk_def on_part_def)

lemma rows_backed_same_files:
  "dk_files (fst_disk t) = dk_files (fst_disk s) \<Longrightarrow> fst_dir t = fst_dir s \<Longrightarrow> fst_artifacts t = fst_artifacts s
   \<Longrightarrow> rows_backed env t = rows_backed env s"
  by (simp add: rows_backed_def)

lemma backed_image_written:
  assumes "backed env dir files a" "f_content g = bs"
    and "\<forall>f. files (image_path_in dir i) = Some f \<longrightarrow> f_content f = bs"
  shows "backed env dir (files(image_path_in dir i \<mapsto> g)) a"
proof (cases "art_id a = i")
  case True
  then show ?thesis using assms by (fastforce simp: backed_def)
next
  case False
  then show ?thesis using assms(1) by (simp add: backed_def image_path_inject)
qed

lemma backed_removed:
  "backed env dir files a \<Longrightarrow> art_id a \<noteq> i \<Longrightarrow> backed env dir (files(image_path_in dir i := None)) a"
  by (simp add: backed_def image_path_inject)

lemma backed_manifest:
  "backed env dir (files(manifest_path dir \<mapsto> g)) a = backed env dir files a"
  by (simp add: backed_def image_path_manifest)

lemma rows_on_disk_image:
  "rows_on_disk env dir (files(image_path_in dir i := x)) = rows_on_disk env dir files"
  using image_path_manifest [of dir i] by (auto simp: rows_on_disk_def)

lemma save_state:
  assumes "firmware_save env t = (r, t')" "rows_backed env t" "no_torn_writes (fst_disk t)" "toml_ok env"
  shows "rows_backed env t'" "fst_artifacts t' = fst_artifacts t" "fst_dir t' = fst_dir t"
    "no_torn_writes (fst_disk t')"
    "r = Inr () \<Longrightarrow> rows_on_disk env (fst_dir t') (dk_files (fst_disk t')) = fst_artifacts t"
proof -
  obtain q d where w: "fs_write (manifest_path (fst_dir t)) (fe_to_toml env (fst_artifacts t)) (fst_disk t) = (q, d)"
    by fastforce
  then have t': "t' = t\<lparr>fst_disk := d\<rparr>" and r: "r = Inr () \<longleftrightarrow> q = Inr ()"
    using assms(1) by (auto simp: firmware_save_def on_disk_def on_part_def w)
  note files = fs_write_files [OF w assms(3)]
  show "fst_artifacts t' = fst_artifacts t" "fst_dir t' = fst_dir t" by (simp_all add: t')
  show "no_torn_writes (fst_disk t')" using assms(3) fs_script_kept(2) [OF w] by (simp add: t' no_torn_writes_def)
  show disk: "r = Inr () \<Longrightarrow> rows_on_disk env (fst_dir t') (dk_files (fst_disk t')) = fst_artifacts t"
    using files assms(4) r by (simp add: t' rows_on_disk_def toml_ok_def)
  show "rows_backed env t'"
  proof (cases "q = Inr ()")
    case True
    then show ?thesis using disk r assms(2) files by (simp add: t' rows_backed_def backed_manifest)
  next
    case False
    then show ?thesis using assms(2) files by (simp add: t' rows_backed_def)
  qed
qed

lemma drop_image_state:
  assumes "drop_image old t = (r, t')" "rows_backed env t"
    and "set (rows_on_disk env (fst_dir t) (dk_files (fst_disk t))) \<subseteq> set (fst_artifacts t)"
  shows "rows_backed env t' \<and> fst_artifacts t' = fst_artifacts t \<and> fst_dir t' = fst_dir t \<and> r = Inr ()"
proof (cases "list_ex (\<lambda>a. art_id a = art_id old) (fst_artifacts t)")
  case False
  obtain q d where w: "fs_remove (image_path t old) (fst_disk t) = (q, d)" by fastforce
  then have t': "t' = t\<lparr>fst_disk := d\<rparr>" "r = Inr ()"
    using assms(1) False by (auto simp: drop_image_def ignoring_def on_disk_def on_part_def w)
  have other: "\<forall>a\<in>set (fst_artifacts t). art_id a \<noteq> art_id old" using False by (simp add: list_ex_iff)
  consider "dk_files d = dk_files (fst_disk t)"
    | "dk_files d = (dk_files (fst_disk t))(image_path_in (fst_dir t) (art_id old) := None)"
    using fs_remove_files [OF w] by (auto simp: image_path_def)
  then have "rows_backed env (t\<lparr>fst_disk := d\<rparr>)"
  proof cases
    case 1
    then show ?thesis using assms(2) by (simp add: rows_backed_def)
  next
    case 2
    then show ?thesis
      using assms(2,3) other by (auto simp: rows_backed_def rows_on_disk_image intro!: backed_removed)
  qed
  then show ?thesis by (simp add: t')
qed (use assms in \<open>simp add: drop_image_def\<close>)

lemma save_then_drop:
  assumes "and_then (firmware_save env) (\<lambda>_. and_then m (\<lambda>_. return_ok x)) t = (r, t')"
    and "m = return_ok () \<or> (\<exists>old. m = drop_image old)"
    and "rows_backed env t" "no_torn_writes (fst_disk t)" "toml_ok env"
  shows "rows_backed env t' \<and> fst_artifacts t' = fst_artifacts t \<and> (\<forall>y. r = Inr y \<longrightarrow> y = x)"
proof -
  obtain q t1 where s: "firmware_save env t = (q, t1)" by fastforce
  note st = save_state [OF s assms(3,4,5)]
  show ?thesis
  proof (cases q)
    case (Inl e)
    then have "r = Inl e" "t1 = t'" using assms(1) s by simp_all
    then show ?thesis using st(1,2) by simp
  next
    case (Inr u)
    obtain q2 t2 where m: "m t1 = (q2, t2)" by fastforce
    have "rows_backed env t2 \<and> fst_artifacts t2 = fst_artifacts t1 \<and> q2 = Inr ()"
      using assms(2)
    proof
      assume "m = return_ok ()"
      then show ?thesis using m st(1) by (simp add: return_ok_def)
    next
      assume "\<exists>old. m = drop_image old"
      then obtain old where "m = drop_image old" by blast
      then show ?thesis using drop_image_state [of old t1 q2 t2 env] m st Inr by simp
    qed
    then show ?thesis using assms(1) s Inr m st(2) by (auto simp: return_ok_def)
  qed
qed

text \<open>The two operations.\<close>

lemma firmware_add_cases:
  assumes "firmware_add env now path name s = (r, s')"
    and "names_ok (fst_artifacts s)" "rows_backed env s" "no_torn_writes (fst_disk s)" "toml_ok env"
    and "\<forall>f. dk_files (fst_disk s) path = Some f \<longrightarrow> no_collision env s (f_content f)"
  shows "rows_backed env s' \<and> names_ok (fst_artifacts s')
    \<and> (\<forall>x\<in>set (fst_artifacts s). x \<in> set (fst_artifacts s') \<or> art_name x = name)
    \<and> (\<forall>a. r = Inr a \<longrightarrow> art_name a = name \<and> a \<in> set (fst_artifacts s'))"
proof (cases "unusable_name name")
  case False
  obtain q d where rd: "fs_read path (fst_disk s) = (q, d)" by fastforce
  note d = fs_read_files [OF rd] fs_script_kept(1) [OF rd]
  show ?thesis
  proof (cases q)
    case (Inl e)
    then have "s' = s\<lparr>fst_disk := d\<rparr>" "\<exists>e'. r = Inl e'"
      using assms(1) False rd by (auto simp: firmware_add_def on_disk_def on_part_def and_then_def with_err_def)
    then show ?thesis using assms(2,3) d by (auto simp: rows_backed_def)
  next
    case (Inr bs)
    have stored: "\<exists>f. dk_files (fst_disk s) path = Some f \<and> f_content f = bs"
      using rd Inr by (auto simp: fs_read_def fs_step_def split: option.splits prod.splits)
    show ?thesis
    proof (cases "elf_read (fe_parse_elf env) bs")
      case (Inl e)
      then have "s' = s\<lparr>fst_disk := d\<rparr>" "\<exists>e'. r = Inl e'"
        using assms(1) False rd Inr
        by (auto simp: firmware_add_def on_disk_def on_part_def and_then_def with_err_def lift_result_def)
      then show ?thesis using assms(2,3) d by (auto simp: rows_backed_def)
    next
      case img: (Inr img)
      obtain q2 d2 where c: "fs_control d = (q2, d2)" by fastforce
      let ?a = "\<lparr>art_id = image_id env bs, art_name = name, art_app_start = img_app_start img,
                 art_storage = img_storage img, art_built_at = now,
                 art_git = fst (provenance env path), art_dirty = snd (provenance env path)\<rparr>"
      let ?p = "image_path_in (fst_dir s) (image_id env bs)"
      obtain q3 d3 where w: "fs_write ?p bs d2 = (q3, d3)" by fastforce
      note d2 = fs_control_files [OF c] fs_script_kept(4) [OF c]
      have torn: "no_torn_writes d2" using assms(4) d d2 by (simp add: no_torn_writes_def)
      note files = fs_write_files [OF w torn] fs_script_kept(2) [OF w]
      show ?thesis
      proof (cases "q2 = Inr () \<and> q3 = Inr ()")
        case False
        have "\<exists>d'. s' = s\<lparr>fst_disk := d'\<rparr> \<and> dk_files d' = dk_files (fst_disk s)" "\<exists>e'. r = Inl e'"
          using assms(1) \<open>\<not> unusable_name name\<close> rd Inr img c w False d d2 files
          by (auto simp: firmware_add_def on_disk_def on_part_def and_then_def with_err_def lift_result_def
              Let_def image_path_def split: sum.splits)
        then show ?thesis using assms(2,3) by (auto simp: rows_backed_def)
      next
        case ok: True
        let ?t = "s\<lparr>fst_disk := d3\<rparr>"
        obtain o' as where rep: "firmware_replace ?a (fst_artifacts s) = (o', as)" by fastforce
        note names = firmware_replace_names [OF rep assms(2) [unfolded names_ok_def, THEN conjunct2]]
        have dk: "dk_files d3 = (dk_files (fst_disk s))(?p \<mapsto> \<lparr>f_mode = mode_at d2 ?p, f_content = bs\<rparr>)"
          using files(1) ok d d2 by simp
        have coll: "\<forall>f. dk_files (fst_disk s) ?p = Some f \<longrightarrow> f_content f = bs"
          using assms(6) stored by (auto simp: no_collision_def)
        have a: "backed env (fst_dir s) (dk_files d3) ?a" using img by (simp add: backed_def dk)
        have keep: "backed env (fst_dir s) (dk_files (fst_disk s)) x \<Longrightarrow> backed env (fst_dir s) (dk_files d3) x" for x
          unfolding dk using backed_image_written [of env "fst_dir s" "dk_files (fst_disk s)" x _ bs] coll by simp
        have rb: "rows_backed env (?t\<lparr>fst_artifacts := as\<rparr>)"
          using assms(3) keep a names(3) by (auto simp: rows_backed_def dk rows_on_disk_image)
        let ?m = "case o' of Some old \<Rightarrow> if art_id old \<noteq> art_id ?a then drop_image old else return_ok ()
                  | None \<Rightarrow> return_ok ()"
        have "and_then (firmware_save env) (\<lambda>_. and_then ?m (\<lambda>_. return_ok ?a)) (?t\<lparr>fst_artifacts := as\<rparr>) = (r, s')"
          using assms(1) \<open>\<not> unusable_name name\<close> rd Inr img c w ok rep
          by (simp add: firmware_add_def on_disk_def on_part_def and_then_def with_err_def lift_result_def
              Let_def image_path_def)
        moreover have "?m = return_ok () \<or> (\<exists>old. ?m = drop_image old)" by (auto split: option.split)
        moreover have "no_torn_writes (fst_disk (?t\<lparr>fst_artifacts := as\<rparr>))"
          using torn files(2) by (simp add: no_torn_writes_def)
        ultimately have "rows_backed env s' \<and> fst_artifacts s' = as \<and> (\<forall>y. r = Inr y \<longrightarrow> y = ?a)"
          using save_then_drop [OF _ _ rb _ assms(5)] by fastforce
        then show ?thesis using names by auto
      qed
    qed
  qed
qed (use assms in \<open>auto simp: firmware_add_def throw_def\<close>)

lemma firmware_remove_cases:
  assumes "firmware_remove env name s = (r, s')"
    and "names_ok (fst_artifacts s)" "rows_backed env s" "no_torn_writes (fst_disk s)" "toml_ok env"
  shows "rows_backed env s' \<and> names_ok (fst_artifacts s') \<and> (\<forall>a\<in>set (fst_artifacts s). art_name a \<noteq> name \<longrightarrow> a \<in> set (fst_artifacts s'))"
proof (cases "remove_name name (fst_artifacts s)")
  case (Some ra)
  obtain a as where ra: "remove_name name (fst_artifacts s) = Some (a, as)" using Some by (cases ra) auto
  note names = remove_name_names [OF ra assms(2)]
  have rb: "rows_backed env (s\<lparr>fst_artifacts := as\<rparr>)" using assms(3) names(2) by (auto simp: rows_backed_def)
  have run: "and_then (firmware_save env) (\<lambda>_. and_then (drop_image a) (\<lambda>_. return_ok (Some a))) (s\<lparr>fst_artifacts := as\<rparr>) = (r, s')"
    using assms(1) ra by (simp add: firmware_remove_def)
  have "rows_backed env s' \<and> fst_artifacts s' = as"
    using save_then_drop [OF run _ rb] assms(4,5) by fastforce
  then show ?thesis using names remove_name_Some [OF ra] by auto
qed (use assms in \<open>auto simp: firmware_remove_def\<close>)

section \<open>Properties\<close>

text \<open>C14: The firmware store never loses an image it lists. Adding or removing a firmware - whichever
  of the file operations fails, as long as a failed write leaves nothing behind - keeps every row,
  those in memory and those of the manifest on disk, backed by an image file that hashes to the
  row's id and whose ELF says what the row records; names stay sorted and unique, and no other row
  is lost.\<close>

theorem firmware_images_intact:
  assumes "names_ok (fst_artifacts s)" "rows_backed env s" "no_torn_writes (fst_disk s)" "toml_ok env"
    and "firmware_add env now path name s = (r, s')
           \<and> (\<forall>f. dk_files (fst_disk s) path = Some f \<longrightarrow> no_collision env s (f_content f))
         \<or> firmware_remove env name s = (q, s')"
  shows "rows_backed env s' \<and> names_ok (fst_artifacts s')
    \<and> (\<forall>a\<in>set (fst_artifacts s). art_name a \<noteq> name \<longrightarrow> a \<in> set (fst_artifacts s'))"
  using assms(5)
proof
  assume "firmware_add env now path name s = (r, s')
           \<and> (\<forall>f. dk_files (fst_disk s) path = Some f \<longrightarrow> no_collision env s (f_content f))"
  then show ?thesis using firmware_add_cases [OF _ assms(1-4)] by blast
qed (rule firmware_remove_cases [OF _ assms(1-4)])

text \<open>A concrete stand-in for TOML: numbers in unary, texts and lists behind their lengths.\<close>

definition put_nat :: "nat \<Rightarrow> bytes" where "put_nat n = replicate n 1 @ [0]"
definition get_nat :: "bytes \<Rightarrow> nat \<times> bytes" where
  "get_nat bs = (length (takeWhile (\<lambda>b. b = 1) bs), tl (dropWhile (\<lambda>b. b = 1) bs))"

definition put_string :: "string \<Rightarrow> bytes" where "put_string t = put_nat (length t) @ map of_char t"
definition get_string :: "bytes \<Rightarrow> string \<times> bytes" where
  "get_string bs = (case get_nat bs of (n, bs1) \<Rightarrow> (map (\<lambda>b. char_of (unat b)) (take n bs1), drop n bs1))"

definition put_artifact :: "artifact \<Rightarrow> bytes" where
  "put_artifact a = put_string (art_id a) @ put_string (art_name a) @ put_nat (art_app_start a)
     @ (case art_storage a of None \<Rightarrow> put_nat 0 | Some (x, y) \<Rightarrow> put_nat 1 @ put_nat x @ put_nat y)
     @ put_nat (nat (art_built_at a)) @ put_nat (nat (- art_built_at a))
     @ (case art_git a of None \<Rightarrow> put_nat 0 | Some t \<Rightarrow> put_nat 1 @ put_string t) @ put_nat (if art_dirty a then 1 else 0)"

definition get_artifact :: "bytes \<Rightarrow> artifact \<times> bytes" where
  "get_artifact bs =
     (case get_string bs of (i, bs) \<Rightarrow> case get_string bs of (n, bs) \<Rightarrow> case get_nat bs of (app, bs) \<Rightarrow>
      case get_nat bs of (tag, bs) \<Rightarrow>
      case (if tag = 0 then (None, bs)
            else case get_nat bs of (x, bs) \<Rightarrow> case get_nat bs of (y, bs) \<Rightarrow> (Some (x, y), bs)) of (storage, bs) \<Rightarrow>
      case get_nat bs of (p, bs) \<Rightarrow> case get_nat bs of (m, bs) \<Rightarrow> case get_nat bs of (gtag, bs) \<Rightarrow>
      case (if gtag = 0 then (None, bs) else case get_string bs of (t, bs) \<Rightarrow> (Some t, bs)) of (git, bs) \<Rightarrow>
      case get_nat bs of (d, bs) \<Rightarrow>
        (\<lparr>art_id = i, art_name = n, art_app_start = app, art_storage = storage, art_built_at = int p - int m,
          art_git = git, art_dirty = d = 1\<rparr>, bs))"

fun get_artifacts :: "nat \<Rightarrow> bytes \<Rightarrow> artifact list" where
  "get_artifacts 0 bs = []"
| "get_artifacts (Suc n) bs = (case get_artifact bs of (a, rest) \<Rightarrow> a # get_artifacts n rest)"

definition put_manifest :: "artifact list \<Rightarrow> bytes" where
  "put_manifest as = put_nat (length as) @ concat (map put_artifact as)"
definition get_manifest :: "bytes \<Rightarrow> string + artifact list" where
  "get_manifest bs = (case get_nat bs of (n, rest) \<Rightarrow> Inr (get_artifacts n rest))"

lemma get_put_nat [simp]: "get_nat (put_nat n @ rest) = (n, rest)"
  by (induction n) (simp_all add: get_nat_def put_nat_def)

lemma get_put_string [simp]: "get_string (put_string t @ rest) = (t, rest)"
proof -
  have c: "char_of (unat (of_char c :: byte)) = c" for c
  proof -
    have "(of_char c :: byte) = of_nat (of_char c)" "(of_char c :: nat) < 256" by (simp_all add: of_nat_of_char)
    then have "unat (of_char c :: byte) = of_char c" by (simp add: unat_of_nat)
    then show ?thesis by simp
  qed
  show ?thesis by (simp add: get_string_def put_string_def map_idI c)
qed

lemma get_put_artifact [simp]: "get_artifact (put_artifact a @ rest) = (a, rest)"
  by (cases a) (simp add: get_artifact_def put_artifact_def split: option.split)

lemma get_put_artifacts: "get_artifacts (length as) (concat (map put_artifact as) @ rest) = as"
  by (induction as) simp_all

lemma get_put_manifest: "get_manifest (put_manifest as) = Inr as"
  using get_put_artifacts [of as "[]"] by (simp add: get_manifest_def put_manifest_def)

definition sample_elf :: elf_file where
  "sample_elf = \<lparr>elf_program_headers = [\<lparr>ph_type = PT_LOAD, ph_filesz = 1, ph_paddr = 0\<rparr>], elf_symbols = []\<rparr>"

definition sample_firmware_env :: firmware_env where
  "sample_firmware_env =
     \<lparr>fe_sha256 = (\<lambda>bs. take 6 bs), fe_parse_elf = (\<lambda>_. Some sample_elf), fe_to_toml = put_manifest,
      fe_from_toml = get_manifest, fe_git = (\<lambda>_ _. None)\<rparr>"

definition sample_artifact :: "string \<Rightarrow> artifact" where
  "sample_artifact name =
     \<lparr>art_id = ''0708'', art_name = name, art_app_start = 0, art_storage = None,
      art_built_at = 0, art_git = None, art_dirty = False\<rparr>"

text \<open>A store with one image, under the name \<open>a\<close>, and the file it came from.\<close>

definition sample_store :: "(nat \<Rightarrow> (string \<times> nat option) option) \<Rightarrow> firmware_store" where
  "sample_store faults =
     \<lparr>fst_dir = ''d'', fst_artifacts = [sample_artifact ''a''],
      fst_disk = \<lparr>dk_files = [''d/0708.elf'' \<mapsto> \<lparr>f_mode = 420, f_content = [7, 8]\<rparr>,
                             ''x'' \<mapsto> \<lparr>f_mode = 420, f_content = [7, 8]\<rparr>],
                  dk_step = 0, dk_script = faults\<rparr>\<rparr>"

lemma sample_env_ok: "toml_ok sample_firmware_env" "image_id sample_firmware_env [7, 8] = ''0708''"
  by (simp_all add: toml_ok_def sample_firmware_env_def get_put_manifest image_id_def fw_hex_def ID_LEN_def
      lower_hex_digit_def)

lemma sample_store_ok:
  "rows_backed sample_firmware_env (sample_store faults)" "names_ok (fst_artifacts (sample_store faults))"
proof -
  have "elf_read (fe_parse_elf sample_firmware_env) [7, 8] = Inr \<lparr>img_app_start = 0, img_storage = None\<rparr>"
    by (simp add: sample_firmware_env_def sample_elf_def elf_read_def elf_storage_def load_addresses_def
        PT_LOAD_def)
  then show "rows_backed sample_firmware_env (sample_store faults)"
    using sample_env_ok(2)
    by (auto simp: rows_backed_def sample_store_def rows_on_disk_def manifest_path_def MANIFEST_FILE_def path_join_def
        backed_def image_path_in_def sample_artifact_def)
  show "names_ok (fst_artifacts (sample_store faults))" by (simp add: names_ok_def sample_store_def)
qed

text \<open>Removing the only image of a healthy store, and of one whose disk refuses the manifest.\<close>

theorem firmware_images_intact_witness:
  "rows_backed sample_firmware_env (snd (firmware_remove sample_firmware_env ''a'' (sample_store (\<lambda>_. None))))
   \<and> rows_backed sample_firmware_env
        (snd (firmware_remove sample_firmware_env ''a'' (sample_store (\<lambda>_. Some (''disk full'', None)))))"
proof -
  have "rows_backed sample_firmware_env (snd (firmware_remove sample_firmware_env ''a'' (sample_store fs)))"
    if "no_torn_writes (fst_disk (sample_store fs))" for fs
    using firmware_images_intact [OF sample_store_ok(2) sample_store_ok(1) that sample_env_ok(1),
        where name = "''a''" and r = undefined and now = 0 and path = "[]"
          and q = "fst (firmware_remove sample_firmware_env ''a'' (sample_store fs))"
          and s' = "snd (firmware_remove sample_firmware_env ''a'' (sample_store fs))"] by simp
  then show ?thesis by (simp add: no_torn_writes_def sample_store_def)
qed

text \<open>C38: Storing an image that is already stored rewrites its file in place, so a failed write destroys
  the image of the row that has it: after adding the same ELF under a second name with a full disk,
  the first name is still listed and its file holds only the first bytes of the image.\<close>

theorem readding_tears_image:
  assumes "dk_files (fst_disk s) path = Some f" "f_content f = bs" "elf_read (fe_parse_elf env) bs = Inr img"
    and "\<not> unusable_name name" "a \<in> set (fst_artifacts s)" "art_id a = image_id env bs"
    and "dk_files (fst_disk s) (image_path s a) = Some g" "f_content g = bs"
    and "dk_script (fst_disk s) n = None" "dk_script (fst_disk s) (n + 1) = None"
    and "dk_script (fst_disk s) (n + 2) = Some (e, Some k)" "dk_step (fst_disk s) = n" "k < length bs"
  shows "\<exists>s' h. firmware_add env now path name s = (Inl (FwWrite (image_path s a) (IoError e)), s')
    \<and> fst_artifacts s' = fst_artifacts s \<and> dk_files (fst_disk s') (image_path s a) = Some h
    \<and> f_content h = take k bs \<and> f_content h \<noteq> bs"
  using assms
  by (auto simp: firmware_add_def on_disk_def on_part_def and_then_def with_err_def lift_result_def Let_def
      fs_read_def fs_control_def fs_write_def fs_step_def put_content_def image_path_def dest: arg_cong [of _ _ length])

definition full_disk :: "nat \<Rightarrow> (string \<times> nat option) option" where
  "full_disk n = (if n = 2 then Some (''no space left on device'', Some 1) else None)"

theorem readding_tears_image_witness:
  "\<exists>s' h. firmware_add sample_firmware_env 0 ''x'' ''b'' (sample_store full_disk)
          = (Inl (FwWrite ''d/0708.elf'' (IoError ''no space left on device'')), s')
     \<and> fst_artifacts s' = [sample_artifact ''a''] \<and> dk_files (fst_disk s') ''d/0708.elf'' = Some h
     \<and> f_content h = [7]"
proof -
  have "elf_read (fe_parse_elf sample_firmware_env) [7, 8] = Inr \<lparr>img_app_start = 0, img_storage = None\<rparr>"
    by (simp add: sample_firmware_env_def sample_elf_def elf_read_def elf_storage_def load_addresses_def
        PT_LOAD_def)
  moreover have "\<not> unusable_name ''b''"
    by code_simp
  ultimately show ?thesis
    using readding_tears_image [where s = "sample_store full_disk" and path = "''x''" and bs = "[7, 8]" and env = sample_firmware_env
        and name = "''b''" and a = "sample_artifact ''a''" and n = 0 and k = 1 and now = 0
          and f = "\<lparr>f_mode = 420, f_content = [7, 8]\<rparr>" and g = "\<lparr>f_mode = 420, f_content = [7, 8]\<rparr>"
          and e = "''no space left on device''"]
    by (simp add: sample_store_def sample_artifact_def sample_env_ok(2) full_disk_def image_path_def image_path_in_def path_join_def)
      blast
qed

end
