(* ===== verification/Url.thy ===== *)
theory Url
  imports Text_Util
begin

text \<open>The URL policy of \<open>src/provision/src/store.rs\<close>: \<open>parse_url\<close>, \<open>host_of\<close>, \<open>is_loopback\<close>,
  and what they use of the standard library, the parser of IP addresses (\<open>core::net::parser\<close>).\<close>

section \<open>IP addresses\<close>

type_synonym 'a reader = "string \<Rightarrow> ('a \<times> string) option"

definition read_given_char :: "char \<Rightarrow> unit reader" where
  "read_given_char c s = (case s of x # rest \<Rightarrow> if x = c then Some ((), rest) else None | [] \<Rightarrow> None)"

definition read_separator :: "char \<Rightarrow> nat \<Rightarrow> 'a reader \<Rightarrow> 'a reader" where
  "read_separator sep index inner s =
     (if index > 0 then (case read_given_char sep s of None \<Rightarrow> None | Some (_, rest) \<Rightarrow> inner rest) else inner s)"

definition in_radix :: "nat \<Rightarrow> char \<Rightarrow> nat option" where
  "in_radix radix c = (case to_digit_16 c of Some d \<Rightarrow> if d < radix then Some d else None | None \<Rightarrow> None)"

definition read_number :: "nat \<Rightarrow> nat \<Rightarrow> bool \<Rightarrow> nat \<Rightarrow> nat reader" where
  "read_number radix max_digits allow_zero_prefix limit s =
     (let ds = takeWhile (\<lambda>c. in_radix radix c \<noteq> None) s;
          n = foldl (\<lambda>acc c. acc * radix + the (in_radix radix c)) 0 ds in
      if length ds > max_digits \<or> ds = [] then None
      else if \<not> allow_zero_prefix \<and> hd s = CHR ''0'' \<and> length ds > 1 then None
      else if n < limit then Some (n, drop (length ds) s) else None)"

fun read_octets :: "nat \<Rightarrow> nat \<Rightarrow> nat list reader" where
  "read_octets 0 i s = Some ([], s)"
| "read_octets (Suc n) i s =
     (case read_separator CHR ''.'' i (read_number 10 3 False 256) s of
        None \<Rightarrow> None
      | Some (octet, rest) \<Rightarrow> map_option (\<lambda>(os, r). (octet # os, r)) (read_octets n (i + 1) rest))"

definition read_ipv4_addr :: "nat list reader" where "read_ipv4_addr = read_octets 4 0"

text \<open>Groups from index \<open>i\<close> on, at most \<open>limit\<close> of them, and whether they end in an embedded IPv4
  address.\<close>

fun read_groups :: "nat \<Rightarrow> nat \<Rightarrow> nat \<Rightarrow> string \<Rightarrow> nat list \<times> bool \<times> string" where
  "read_groups 0 limit i s = ([], False, s)"
| "read_groups (Suc n) limit i s =
     (case (if i + 1 < limit then read_separator CHR '':'' i read_ipv4_addr s else None) of
        Some (os, rest) \<Rightarrow> ([os ! 0 * 256 + os ! 1, os ! 2 * 256 + os ! 3], True, rest)
      | None \<Rightarrow>
         (case read_separator CHR '':'' i (read_number 16 4 True 65536) s of
            None \<Rightarrow> ([], False, s)
          | Some (g, rest) \<Rightarrow> (case read_groups n limit (i + 1) rest of (gs, v4, r) \<Rightarrow> (g # gs, v4, r))))"

definition read_ipv6_addr :: "nat list reader" where
  "read_ipv6_addr s =
     (case read_groups 8 8 0 s of (head, head_ipv4, rest) \<Rightarrow>
        if length head = 8 then Some (head, rest)
        else if head_ipv4 then None
        else case read_given_char CHR '':'' rest of
          None \<Rightarrow> None
        | Some (_, rest1) \<Rightarrow>
           (case read_given_char CHR '':'' rest1 of
              None \<Rightarrow> None
            | Some (_, rest2) \<Rightarrow>
               (let limit = 8 - (length head + 1) in
                case read_groups limit limit 0 rest2 of (tail, _, rest3) \<Rightarrow>
                  Some (head @ replicate (8 - length head - length tail) 0 @ tail, rest3))))"

datatype ip_addr = V4 "nat list" | V6 "nat list"

definition parse_ip :: "string \<Rightarrow> ip_addr option" where
  "parse_ip s =
     (case (case read_ipv4_addr s of
              Some (os, rest) \<Rightarrow> Some (V4 os, rest)
            | None \<Rightarrow> map_option (\<lambda>(gs, rest). (V6 gs, rest)) (read_ipv6_addr s)) of
        Some (ip, []) \<Rightarrow> Some ip
      | _ \<Rightarrow> None)"

fun ip_is_loopback :: "ip_addr \<Rightarrow> bool" where
  "ip_is_loopback (V4 os) = (hd os = 127)"
| "ip_is_loopback (V6 gs) = (gs = [0, 0, 0, 0, 0, 0, 0, 1])"

section \<open>The policy\<close>

datatype url_error = NotHttpUrl string | InsecureUrl string

definition to_lower :: "char \<Rightarrow> char" where
  "to_lower c = (let n = of_char c :: nat in if 65 \<le> n \<and> n \<le> 90 then char_of (n + 32) else c)"

definition eq_ignore_ascii_case :: "string \<Rightarrow> string \<Rightarrow> bool" where
  "eq_ignore_ascii_case a b \<longleftrightarrow> map to_lower a = map to_lower b"

text \<open>\<open>str::split_once("://")\<close> and \<open>str::rsplit_once(':')\<close>.\<close>

fun split_scheme :: "string \<Rightarrow> (string \<times> string) option" where
  "split_scheme [] = None"
| "split_scheme (c # cs) =
     (if starts_with ''://'' (c # cs) then Some ([], drop 2 cs)
      else map_option (\<lambda>(a, b). (c # a, b)) (split_scheme cs))"

definition rsplit_once :: "char \<Rightarrow> string \<Rightarrow> (string \<times> string) option" where
  "rsplit_once c s = map_option (\<lambda>(a, b). (rev b, rev a)) (split_once c (rev s))"

definition is_ascii_digit :: "char \<Rightarrow> bool" where
  "is_ascii_digit c = (let n = of_char c :: nat in 48 \<le> n \<and> n \<le> 57)"

definition authority_end :: "char \<Rightarrow> bool" where
  "authority_end c \<longleftrightarrow> c = CHR ''/'' \<or> c = CHR 0x3F \<or> c = CHR 0x23"

definition host_of :: "string \<Rightarrow> string" where
  "host_of url_authority =
     (let authority = takeWhile (\<lambda>c. \<not> authority_end c) url_authority in
      case (case strip_prefix ''['' authority of Some r \<Rightarrow> split_once CHR '']'' r | None \<Rightarrow> None) of
        Some (inside, _) \<Rightarrow> inside
      | None \<Rightarrow>
         (case rsplit_once CHR '':'' authority of
            None \<Rightarrow> authority
          | Some (host, port) \<Rightarrow> if list_all is_ascii_digit port then host else authority))"

definition loopback_host :: "string \<Rightarrow> bool" where
  "loopback_host host \<longleftrightarrow> eq_ignore_ascii_case host ''localhost'' \<or> host = ''::1''
     \<or> (case parse_ip host of None \<Rightarrow> False | Some ip \<Rightarrow> ip_is_loopback ip)"

definition is_loopback :: "string \<Rightarrow> bool" where
  "is_loopback authority = loopback_host (host_of authority)"

definition trim_end_char :: "char \<Rightarrow> string \<Rightarrow> string" where
  "trim_end_char c s = rev (dropWhile (\<lambda>x. x = c) (rev s))"

definition parse_url :: "string \<Rightarrow> url_error + string" where
  "parse_url text_url =
     (let url = trim_end_char CHR ''/'' (trim text_url) in
      case split_scheme url of
        None \<Rightarrow> Inl (NotHttpUrl url)
      | Some (scheme, authority) \<Rightarrow>
          if scheme = ''https'' \<and> authority \<noteq> [] then Inr url
          else if scheme = ''http'' \<and> is_loopback authority then Inr url
          else if scheme = ''http'' then Inl (InsecureUrl url)
          else Inl (NotHttpUrl url))"

section \<open>Facts\<close>

lemma split_scheme_Some: "split_scheme s = Some (a, b) \<Longrightarrow> s = a @ ''://'' @ b"
proof (induction s arbitrary: a)
  case (Cons c cs)
  show ?case
  proof (cases "starts_with ''://'' (c # cs)")
    case True
    then have "take 3 (c # cs) = ''://''" by (simp add: starts_with_def numeral_eq_Suc)
    moreover have "c # cs = take 3 (c # cs) @ drop 3 (c # cs)" by simp
    ultimately have "c # cs = ''://'' @ drop 2 cs" by (metis drop_Suc_Cons numeral_3_eq_3 numeral_2_eq_2)
    moreover have "a = []" "b = drop 2 cs" using Cons.prems True by simp_all
    ultimately show ?thesis by simp
  qed (use Cons in \<open>auto split: if_splits\<close>)
qed simp

lemma rsplit_once_Some: "rsplit_once c s = Some (a, b) \<longleftrightarrow> s = a @ c # b \<and> c \<notin> set b"
proof -
  have "rsplit_once c s = Some (a, b) \<longleftrightarrow> split_once c (rev s) = Some (rev b, rev a)"
    by (auto simp: rsplit_once_def)
  also have "\<dots> \<longleftrightarrow> rev s = rev (a @ c # b) \<and> c \<notin> set b"
    by (simp add: split_once_Some)
  finally show ?thesis by (simp only: rev_is_rev_conv)
qed

lemma host_of_cases:
  assumes "authority = takeWhile (\<lambda>c. \<not> authority_end c) a"
  shows "authority = host_of a \<or> (\<exists>port. authority = host_of a @ '':'' @ port \<and> list_all is_ascii_digit port)
     \<or> (\<exists>rest. authority = ''['' @ host_of a @ '']'' @ rest)"
proof (cases "case strip_prefix ''['' authority of Some r \<Rightarrow> split_once CHR '']'' r | None \<Rightarrow> None")
  case None
  note h = host_of_def [of a, folded assms, unfolded Let_def None option.case]
  show ?thesis
  proof (cases "rsplit_once CHR '':'' authority")
    case None
    then show ?thesis using h by simp
  next
    case (Some hp)
    obtain host port where hp: "hp = (host, port)" by fastforce
    then have "authority = host @ '':'' @ port" using Some by (simp add: rsplit_once_Some)
    then show ?thesis using h Some hp by (cases "list_all is_ascii_digit port") auto
  qed
next
  case (Some p)
  obtain inside rest where p: "p = (inside, rest)" by fastforce
  obtain r where r: "strip_prefix ''['' authority = Some r" "split_once CHR '']'' r = Some (inside, rest)"
    using Some p by (cases "strip_prefix ''['' authority") auto
  then have "authority = ''['' @ r" by (cases authority) (auto simp: strip_prefix_def starts_with_def split: if_splits)
  moreover have "r = inside @ '']'' @ rest" using r(2) by (simp add: split_once_Some)
  moreover have "host_of a = inside" using Some p by (simp add: host_of_def assms)
  ultimately show ?thesis by auto
qed

lemma parse_url_Inr:
  assumes "parse_url t = Inr u"
  shows "u = trim_end_char CHR ''/'' (trim t)"
    and "\<exists>authority. authority \<noteq> [] \<and> u = ''https://'' @ authority \<or> u = ''http://'' @ authority \<and> is_loopback authority"
proof -
  let ?u = "trim_end_char CHR ''/'' (trim t)"
  obtain scheme authority where s: "split_scheme ?u = Some (scheme, authority)"
    using assms by (auto simp: parse_url_def Let_def split: option.splits)
  then show "u = ?u" using assms by (auto simp: parse_url_def Let_def split: if_splits)
  then show "\<exists>authority. authority \<noteq> [] \<and> u = ''https://'' @ authority \<or> u = ''http://'' @ authority \<and> is_loopback authority"
    using assms s split_scheme_Some [OF s] by (auto simp: parse_url_def Let_def split: if_splits)
qed

section \<open>Properties\<close>

text \<open>C15: Plaintext HTTP is accepted for loopback hosts only: an accepted URL is \<open>https\<close>, or it is
  \<open>http\<close> and the part of it up to the first slash, question mark or hash is a loopback host -
  \<open>localhost\<close> in any case, \<open>::1\<close>, or an address the standard library calls loopback - alone,
  with a numeric port, or in brackets with something behind them.\<close>

theorem plain_http_stays_local:
  assumes "parse_url t = Inr u"
  shows "(\<exists>authority. authority \<noteq> [] \<and> u = ''https://'' @ authority)
    \<or> (\<exists>host authority. u = ''http://'' @ authority \<and> loopback_host host
         \<and> (let shown = takeWhile (\<lambda>c. \<not> authority_end c) authority in
              shown = host \<or> (\<exists>port. shown = host @ '':'' @ port \<and> list_all is_ascii_digit port)
                \<or> (\<exists>rest. shown = ''['' @ host @ '']'' @ rest)))"
proof -
  obtain authority where a: "authority \<noteq> [] \<and> u = ''https://'' @ authority \<or> u = ''http://'' @ authority \<and> is_loopback authority"
    using parse_url_Inr(2) [OF assms] by blast
  then show ?thesis
  proof
    assume "u = ''http://'' @ authority \<and> is_loopback authority"
    then show ?thesis
      using host_of_cases [OF refl, of authority] unfolding is_loopback_def Let_def
      by (intro disjI2 exI [of _ "host_of authority"] exI [of _ authority]) simp
  qed blast
qed

lemma parse_url_graphic:
  assumes "s \<noteq> []" "graphic (hd s)" "graphic (last s)" "last s \<noteq> CHR ''/''"
  shows "parse_url s =
     (case split_scheme s of
        None \<Rightarrow> Inl (NotHttpUrl s)
      | Some (scheme, authority) \<Rightarrow>
          if scheme = ''https'' \<and> authority \<noteq> [] then Inr s
          else if scheme = ''http'' \<and> is_loopback authority then Inr s
          else if scheme = ''http'' then Inl (InsecureUrl s)
          else Inl (NotHttpUrl s))"
proof -
  have "trim s = s" using assms by (intro trim_graphic) simp
  moreover have "trim_end_char CHR ''/'' s = s"
    using assms(1,4) by (cases s rule: rev_cases) (simp_all add: trim_end_char_def)
  ultimately show ?thesis by (simp only: parse_url_def Let_def)
qed

theorem plain_http_stays_local_witness:
  "parse_url ''http://LocalHost:7890'' = Inr ''http://LocalHost:7890''
   \<and> ((\<exists>authority. authority \<noteq> [] \<and> ''http://LocalHost:7890'' = ''https://'' @ authority)
    \<or> (\<exists>host authority. ''http://LocalHost:7890'' = ''http://'' @ authority \<and> loopback_host host
         \<and> (let shown = takeWhile (\<lambda>c. \<not> authority_end c) authority in
              shown = host \<or> (\<exists>port. shown = host @ '':'' @ port \<and> list_all is_ascii_digit port)
                \<or> (\<exists>rest. shown = ''['' @ host @ '']'' @ rest))))"
proof -
  have l: "is_loopback ''LocalHost:7890''" by code_simp
  have p: "parse_url ''http://LocalHost:7890'' = Inr ''http://LocalHost:7890''"
    by (subst parse_url_graphic) (simp_all add: graphic_def starts_with_def l)
  show ?thesis by (rule conjI [OF p plain_http_stays_local [OF p]])
qed

text \<open>C40: What follows a bracketed host is not looked at, so a loopback address in brackets in front of
  an \<open>@\<close> makes any host pass as loopback: \<open>http://[::1]@\<close> and any non-empty name of letters,
  digits, dots and dashes is accepted as it stands, while the host a URL library reads from it is the name.\<close>

theorem bracketed_userinfo_passes:
  assumes "name \<noteq> []" "list_all (\<lambda>c. graphic c \<and> c \<noteq> CHR ''/'') name"
  shows "parse_url (''http://[::1]@'' @ name) = Inr (''http://[::1]@'' @ name)"
proof -
  have name: "graphic (last name)" "last name \<noteq> CHR ''/''"
    using assms last_in_set [OF assms(1)] by (auto simp: list_all_iff)
  have "host_of (''[::1]@'' @ name) = ''::1''"
    by (simp add: host_of_def authority_end_def strip_prefix_def starts_with_def)
  then have "is_loopback (''[::1]@'' @ name)" by (simp add: is_loopback_def loopback_host_def)
  moreover have "split_scheme (''http://[::1]@'' @ name) = Some (''http'', ''[::1]@'' @ name)"
    by (simp add: starts_with_def)
  ultimately show ?thesis using assms(1) name by (subst parse_url_graphic) (simp_all add: graphic_def)
qed

theorem bracketed_userinfo_passes_witness:
  "parse_url ''http://[::1]@evil.example'' = Inr ''http://[::1]@evil.example''
   \<and> parse_url ''http://localhost@evil.example'' = Inl (InsecureUrl ''http://localhost@evil.example'')"
proof -
  have g: "list_all (\<lambda>c. graphic c \<and> c \<noteq> CHR ''/'') ''evil.example''" by (simp add: graphic_def)
  have n: "read_number radix m z limit ''localhost@evil.example'' = None" for radix m z limit
    by (simp add: read_number_def in_radix_def to_digit_16_def)
  have sep: "read_separator c 0 inner s = inner s" for c s and inner :: "'x reader"
    by (simp add: read_separator_def)
  have o: "read_octets (Suc 3) 0 ''localhost@evil.example'' = None"
    by (simp only: read_octets.simps sep n option.case)
  have "read_groups (Suc 7) 8 0 ''localhost@evil.example'' = ([], False, ''localhost@evil.example'')"
    using o by (simp only: read_groups.simps sep n option.case read_ipv4_addr_def) simp
  note o this
  then have "parse_ip ''localhost@evil.example'' = None"
    by (simp add: parse_ip_def read_ipv4_addr_def read_ipv6_addr_def read_given_char_def)
  then have "\<not> is_loopback ''localhost@evil.example''"
    by (simp add: is_loopback_def loopback_host_def host_of_def authority_end_def strip_prefix_def starts_with_def
        rsplit_once_def eq_ignore_ascii_case_def to_lower_def)
  then have "parse_url ''http://localhost@evil.example'' = Inl (InsecureUrl ''http://localhost@evil.example'')"
    by (subst parse_url_graphic) (simp_all add: graphic_def starts_with_def)
  then show ?thesis using bracketed_userinfo_passes [of "''evil.example''"] g by simp
qed

end
