(* ===== verification/ProvStore.thy ===== *)
theory ProvStore
  imports Disk Url ApiClient
begin

text \<open>\<open>src/provision/src/store.rs\<close>: the tool's two files, profiles and credentials, how a command's
  target is resolved from them, and how they are written. TOML is the library's; \<open>te_pid\<close> is the
  process id. A path has no trailing slash, and the process's umask leaves the modes asked for.\<close>

section \<open>State\<close>

record credentials =
  cr_token :: string
  cr_subject :: "string option"
  cr_expires_at :: "int option"

record config_file =
  cfg_default_profile :: "string option"
  cfg_profiles :: "string \<Rightarrow> string option"

type_synonym credentials_file = "string \<Rightarrow> credentials option"

record prov_store =
  ps_dir :: string
  ps_config :: config_file
  ps_credentials :: credentials_file
  ps_disk :: disk

record toml_env =
  te_config_to :: "config_file \<Rightarrow> string + bytes"
  te_config_from :: "bytes \<Rightarrow> string + config_file"
  te_credentials_to :: "credentials_file \<Rightarrow> string + bytes"
  te_credentials_from :: "bytes \<Rightarrow> string + credentials_file"
  te_pid :: nat

datatype store_error =
    NoHome
  | Permissions string nat
  | StoreRead string io_error
  | StoreWrite string io_error
  | StoreParse string string
  | InvalidFilename string
  | Serialize string
  | NoProfile
  | UnknownProfile string
  | NoCredentials string
  | NoEnvToken
  | BadUrl url_error

definition APP_DIR :: string where "APP_DIR = ''homescope''"
definition CONFIG_FILE :: string where "CONFIG_FILE = ''config.toml''"
definition CREDENTIALS_FILE :: string where "CREDENTIALS_FILE = ''credentials.toml''"
definition CONFIG_MODE :: nat where "CONFIG_MODE = 6 * 64 + 4 * 8 + 4"
definition CREDENTIALS_MODE :: nat where "CREDENTIALS_MODE = 6 * 64"

section \<open>Where the files are\<close>

definition base_dir :: "string option \<Rightarrow> string option \<Rightarrow> string \<Rightarrow> store_error + string" where
  "base_dir xdg home fallback =
     (case xdg of
        Some dir \<Rightarrow> if starts_with ''/'' dir then Inr (path_join dir APP_DIR)
                    else map_ok (\<lambda>h. path_join (path_join h fallback) APP_DIR) (ok_or NoHome home)
      | None \<Rightarrow> map_ok (\<lambda>h. path_join (path_join h fallback) APP_DIR) (ok_or NoHome home))"

definition config_dir :: "string option \<Rightarrow> string option \<Rightarrow> store_error + string" where
  "config_dir xdg_config_home home = base_dir xdg_config_home home ''.config''"

definition data_dir :: "string option \<Rightarrow> string option \<Rightarrow> store_error + string" where
  "data_dir xdg_data_home home = base_dir xdg_data_home home ''.local/share''"

section \<open>Reading\<close>

definition check_private :: "string \<Rightarrow> nat \<Rightarrow> store_error + unit" where
  "check_private path st_mode =
     (let mode = and st_mode 0x1FF in
      if and mode 0x3F \<noteq> 0 then Inl (Permissions path mode) else Inr ())"

definition read_toml :: "(bytes \<Rightarrow> string + 'v) \<Rightarrow> string \<Rightarrow> bool \<Rightarrow> (disk, store_error, 'v option) comp" where
  "read_toml parse path private d =
     (case fs_mode path d of
        (Inl IoNotFound, d1) \<Rightarrow> (Inr None, d1)
      | (Inl e, d1) \<Rightarrow> (Inl (StoreRead path e), d1)
      | (Inr mode, d1) \<Rightarrow>
          and_then (lift_result (if private then check_private path mode else Inr ())) (\<lambda>_.
          and_then (with_err (StoreRead path) (fs_read_to_string path)) (\<lambda>contents.
            lift_result (map_err (StoreParse path) (map_ok Some (parse contents))))) d1)"

definition EMPTY_CONFIG :: config_file where "EMPTY_CONFIG = \<lparr>cfg_default_profile = None, cfg_profiles = Map.empty\<rparr>"

definition or_default :: "'a \<Rightarrow> 'a option \<Rightarrow> 'a" where
  "or_default d x = (case x of Some v \<Rightarrow> v | None \<Rightarrow> d)"

definition store_at :: "toml_env \<Rightarrow> string \<Rightarrow> (disk, store_error, prov_store) comp" where
  "store_at env dir =
     and_then (read_toml (te_config_from env) (path_join dir CONFIG_FILE) False) (\<lambda>config.
     and_then (read_toml (te_credentials_from env) (path_join dir CREDENTIALS_FILE) True) (\<lambda>creds d.
       (Inr \<lparr>ps_dir = dir, ps_config = or_default EMPTY_CONFIG config,
             ps_credentials = or_default Map.empty creds, ps_disk = d\<rparr>, d)))"

section \<open>Resolving\<close>

definition direct_target :: "string \<Rightarrow> string option \<Rightarrow> store_error + api_target" where
  "direct_target url env_token =
     bind_result (map_err BadUrl (parse_url url)) (\<lambda>u.
       case env_token of
         Some t \<Rightarrow> if t \<noteq> [] then Inr \<lparr>target_label = u, target_url = u, target_token = t\<rparr> else Inl NoEnvToken
       | None \<Rightarrow> Inl NoEnvToken)"

definition store_resolve ::
  "prov_store \<Rightarrow> string option \<Rightarrow> string option \<Rightarrow> string option \<Rightarrow> store_error + api_target" where
  "store_resolve s env_token profile api_url =
     (case api_url of
        Some url \<Rightarrow> direct_target url env_token
      | None \<Rightarrow>
          bind_result (ok_or NoProfile (case profile of Some p \<Rightarrow> Some p | None \<Rightarrow> cfg_default_profile (ps_config s))) (\<lambda>name.
          bind_result (ok_or (UnknownProfile name) (cfg_profiles (ps_config s) name)) (\<lambda>configured.
          bind_result (ok_or (NoCredentials name) (ps_credentials s name)) (\<lambda>creds.
          bind_result (map_err BadUrl (parse_url configured)) (\<lambda>url.
            Inr \<lparr>target_label = name, target_url = url, target_token = cr_token creds\<rparr>)))))"

definition store_login_url :: "prov_store \<Rightarrow> string \<Rightarrow> string option \<Rightarrow> store_error + string" where
  "store_login_url s profile api_url =
     (case api_url of
        Some url \<Rightarrow> map_err BadUrl (parse_url url)
      | None \<Rightarrow>
          bind_result (ok_or (UnknownProfile profile) (cfg_profiles (ps_config s) profile))
            (\<lambda>url. map_err BadUrl (parse_url url)))"

section \<open>Writing\<close>

definition file_name :: "string \<Rightarrow> string option" where
  "file_name p =
     (let n = rev (takeWhile (\<lambda>c. c \<noteq> CHR ''/'') (rev p)) in if n = [] \<or> n = ''..'' then None else Some n)"

definition with_file_name :: "string \<Rightarrow> string \<Rightarrow> string" where
  "with_file_name p name = rev (dropWhile (\<lambda>c. c \<noteq> CHR ''/'') (rev p)) @ name"

text \<open>The closure that creates, writes, syncs and renames the temporary file.\<close>

definition write_through :: "string \<Rightarrow> string \<Rightarrow> bytes \<Rightarrow> nat \<Rightarrow> (disk, io_error, unit) comp" where
  "write_through tmp path contents mode =
     and_then (fs_create_new tmp mode) (\<lambda>_.
     and_then (fs_write tmp contents) (\<lambda>_.
     and_then fs_control (\<lambda>_. fs_rename tmp path)))"

definition write_atomic :: "nat \<Rightarrow> string \<Rightarrow> bytes \<Rightarrow> nat \<Rightarrow> (disk, store_error, unit) comp" where
  "write_atomic pid path contents mode =
     (case file_name path of
        None \<Rightarrow> throw (InvalidFilename path)
      | Some name \<Rightarrow>
          (let tmp = with_file_name path (name @ ''.tmp.'' @ show_nat pid) in
           and_then (ignoring (fs_remove tmp)) (\<lambda>_.
             or_else (write_through tmp path contents mode)
               (\<lambda>e. and_then (ignoring (fs_remove tmp)) (\<lambda>_. throw (StoreWrite path e))))))"

definition on_store_disk :: "(disk, 'e, 'a) comp \<Rightarrow> (prov_store, 'e, 'a) comp" where
  "on_store_disk = on_part ps_disk (\<lambda>d s. s\<lparr>ps_disk := d\<rparr>)"

interpretation store_disk_part: part ps_disk "\<lambda>d s. s\<lparr>ps_disk := d\<rparr>" by unfold_locales simp_all

definition store_save :: "toml_env \<Rightarrow> string \<Rightarrow> (prov_store \<Rightarrow> string + bytes) \<Rightarrow> nat \<Rightarrow> (prov_store, store_error, unit) comp" where
  "store_save env name contents mode s =
     and_then (with_err (StoreWrite (ps_dir s)) (on_store_disk fs_control)) (\<lambda>_.
     and_then (lift_result (map_err Serialize (contents s))) (\<lambda>c.
       on_store_disk (write_atomic (te_pid env) (path_join (ps_dir s) name) c mode))) s"

definition save_config :: "toml_env \<Rightarrow> (prov_store, store_error, unit) comp" where
  "save_config env = store_save env CONFIG_FILE (\<lambda>s. te_config_to env (ps_config s)) CONFIG_MODE"

definition save_credentials :: "toml_env \<Rightarrow> (prov_store, store_error, unit) comp" where
  "save_credentials env = store_save env CREDENTIALS_FILE (\<lambda>s. te_credentials_to env (ps_credentials s)) CREDENTIALS_MODE"

text \<open>The store's contents after a login.\<close>

definition logged_in :: "prov_store \<Rightarrow> string \<Rightarrow> string \<Rightarrow> credentials \<Rightarrow> prov_store" where
  "logged_in s profile url creds =
     s\<lparr>ps_config := \<lparr>cfg_default_profile = (case cfg_default_profile (ps_config s) of
                                               None \<Rightarrow> Some profile | Some p \<Rightarrow> Some p),
                     cfg_profiles = (cfg_profiles (ps_config s))(profile \<mapsto> url)\<rparr>,
       ps_credentials := (ps_credentials s)(profile \<mapsto> creds)\<rparr>"

definition store_login :: "toml_env \<Rightarrow> string \<Rightarrow> string option \<Rightarrow> credentials \<Rightarrow> (prov_store, store_error, unit) comp" where
  "store_login env profile api_url creds s =
     (case store_login_url s profile api_url of
        Inl e \<Rightarrow> (Inl e, s)
      | Inr url \<Rightarrow> and_then (save_config env) (\<lambda>_. save_credentials env) (logged_in s profile url creds))"

definition store_logout :: "toml_env \<Rightarrow> string \<Rightarrow> (prov_store, store_error, bool) comp" where
  "store_logout env profile s =
     (case ps_credentials s profile of
        None \<Rightarrow> (Inr False, s)
      | Some _ \<Rightarrow> and_then (save_credentials env) (\<lambda>_. return_ok True)
                    (s\<lparr>ps_credentials := (ps_credentials s)(profile := None)\<rparr>))"

section \<open>Facts\<close>

definition files_are :: "(string \<Rightarrow> stored_file option) \<Rightarrow> disk \<Rightarrow> bool" where
  "files_are F d \<longleftrightarrow> dk_files d = F"

lemma holds_fs_remove:
  "holds (files_are F) (fs_remove p) (\<lambda>_. files_are (F(p := None))) (\<lambda>_. files_are F)"
  by (auto simp: holds_def files_are_def fs_remove_def fs_step_def split: option.split prod.split)

lemma holds_fs_create_new:
  "holds (files_are F) (fs_create_new p mode) (\<lambda>_. files_are (F(p \<mapsto> \<lparr>f_mode = mode, f_content = []\<rparr>))) (\<lambda>_. files_are F)"
  by (auto simp: holds_def files_are_def fs_create_new_def fs_step_def split: option.split prod.split)

lemma holds_fs_control: "holds (files_are F) fs_control (\<lambda>_. files_are F) (\<lambda>_. files_are F)"
  by (auto simp: holds_def files_are_def fs_control_def fs_step_def split: option.split prod.split)

lemma holds_fs_write:
  assumes "F p = Some f"
  shows "holds (files_are F) (fs_write p c) (\<lambda>_. files_are (F(p \<mapsto> f\<lparr>f_content := c\<rparr>)))
     (\<lambda>_ d. \<exists>t. files_are (F(p := t)) d)"
proof (rule holdsI)
  fix d x d' assume "files_are F d" "fs_write p c d = (Inr x, d')"
  then show "files_are (F(p \<mapsto> f\<lparr>f_content := c\<rparr>)) d'"
    using assms by (cases f) (auto simp: files_are_def fs_write_def fs_step_def put_content_def mode_at_def split: option.splits prod.splits)
next
  fix d e d' assume d: "files_are F d" "fs_write p c d = (Inl e, d')"
  then have "dk_files d' = F \<or> (\<exists>g. dk_files d' = F(p \<mapsto> g))"
    by (auto simp: files_are_def fs_write_def fs_step_def put_content_def split: option.splits prod.splits)
  then show "\<exists>t. files_are (F(p := t)) d'" unfolding files_are_def by (metis fun_upd_triv)
qed

lemma holds_fs_rename:
  assumes "F p = Some f"
  shows "holds (files_are F) (fs_rename p q) (\<lambda>_. files_are (F(p := None, q \<mapsto> f))) (\<lambda>_. files_are F)"
  using assms by (auto simp: holds_def files_are_def fs_rename_def fs_step_def split: option.split prod.split)

lemma holds_ignoring:
  assumes h: "holds P m (\<lambda>_. Q) (\<lambda>_. Q)"
  shows "holds P (ignoring m) (\<lambda>_. Q) E"
proof (rule holdsI)
  fix s x s' assume P: "P s" and i: "ignoring m s = (Inr x, s')"
  obtain r where "m s = (r, s')" using i by (cases "m s") (simp add: ignoring_def)
  then show "Q s'" using holds_Inr [OF h P] holds_Inl [OF h P] by (cases r) auto
qed (simp add: ignoring_def)

lemma holds_write_through:
  "holds (files_are F) (write_through tmp path c mode)
     (\<lambda>_. files_are (F(tmp := None, path \<mapsto> \<lparr>f_mode = mode, f_content = c\<rparr>)))
     (\<lambda>_ d. \<exists>t. files_are (F(tmp := t)) d)"
proof -
  let ?E = "\<lambda>_ d. \<exists>t. files_are (F(tmp := t)) d"
  have self: "files_are F d \<Longrightarrow> ?E e d" for d and e :: io_error unfolding files_are_def by (metis fun_upd_triv)
  let ?F1 = "F(tmp \<mapsto> \<lparr>f_mode = mode, f_content = []\<rparr>)" and ?F2 = "F(tmp \<mapsto> \<lparr>f_mode = mode, f_content = c\<rparr>)"
  have 1: "holds (files_are F) (fs_create_new tmp mode) (\<lambda>_. files_are ?F1) ?E"
    by (rule holds_conseq [OF holds_fs_create_new]) (use self in auto)
  have 2: "holds (files_are ?F1) (fs_write tmp c) (\<lambda>_. files_are ?F2) ?E"
    by (rule holds_conseq [OF holds_fs_write [of ?F1 tmp "\<lparr>f_mode = mode, f_content = []\<rparr>"]]) auto
  have 3: "holds (files_are ?F2) fs_control (\<lambda>_. files_are ?F2) ?E"
    by (rule holds_conseq [OF holds_fs_control]) auto
  have 4: "holds (files_are ?F2) (fs_rename tmp path)
      (\<lambda>_. files_are (F(tmp := None, path \<mapsto> \<lparr>f_mode = mode, f_content = c\<rparr>))) ?E"
    by (rule holds_conseq [OF holds_fs_rename [of ?F2 tmp "\<lparr>f_mode = mode, f_content = c\<rparr>"]]) auto
  show ?thesis unfolding write_through_def
    by (intro holds_and_then [OF 1] holds_and_then [OF 2] holds_and_then [OF 3 4])
qed

text \<open>The name of the temporary file.\<close>

definition temp_of :: "nat \<Rightarrow> string \<Rightarrow> string" where
  "temp_of pid path = path @ ''.tmp.'' @ show_nat pid"

lemma temp_name: "file_name path = Some name \<Longrightarrow> with_file_name path (name @ ''.tmp.'' @ show_nat pid) = temp_of pid path"
proof -
  assume "file_name path = Some name"
  then have n: "name = rev (takeWhile (\<lambda>c. c \<noteq> CHR ''/'') (rev path))"
    by (auto simp: file_name_def Let_def split: if_splits)
  have "rev (dropWhile (\<lambda>c. c \<noteq> CHR ''/'') (rev path)) @ name = path"
    unfolding n rev_append [symmetric] takeWhile_dropWhile_id by simp
  then show ?thesis by (simp add: with_file_name_def temp_of_def)
qed

lemma holds_write_atomic:
  "holds (files_are F) (write_atomic pid path c mode)
     (\<lambda>_. files_are (F(temp_of pid path := None, path \<mapsto> \<lparr>f_mode = mode, f_content = c\<rparr>)))
     (\<lambda>_ d. \<exists>t. files_are (F(temp_of pid path := t)) d)"
proof (cases "file_name path")
  case None
  then show ?thesis unfolding write_atomic_def
    by (auto intro!: holds_throw exI [of _ "F (temp_of pid path)"])
next
  case (Some name)
  let ?t = "temp_of pid path"
  let ?done = "files_are (F(?t := None, path \<mapsto> \<lparr>f_mode = mode, f_content = c\<rparr>))"
  let ?left = "\<lambda>d. \<exists>t. files_are (F(?t := t)) d"
  have 1: "holds (files_are F) (ignoring (fs_remove ?t)) (\<lambda>_. ?left) (\<lambda>_. ?left)"
  proof (rule holds_ignoring, rule holds_conseq [OF holds_fs_remove])
    fix d assume "files_are F d" then show "?left d" unfolding files_are_def by (metis fun_upd_triv)
  qed auto
  have w: "holds ?left (write_through ?t path c mode) (\<lambda>_. ?done) (\<lambda>_. ?left)"
  proof -
    have "holds (files_are (F(?t := t))) (write_through ?t path c mode) (\<lambda>_. ?done) (\<lambda>_. ?left)" for t
      by (rule holds_conseq [OF holds_write_through [of "F(?t := t)"]]) auto
    then show ?thesis by (rule holds_ex)
  qed
  have r: "holds ?left (and_then (ignoring (fs_remove ?t)) (\<lambda>_. throw (StoreWrite path e))) (\<lambda>_. ?done) (\<lambda>_. ?left)" for e
  proof (rule holds_and_then [where R = "\<lambda>_. ?left"])
    have "holds (files_are (F(?t := t))) (fs_remove ?t) (\<lambda>_. ?left) (\<lambda>_. ?left)" for t
      by (rule holds_conseq [OF holds_fs_remove [of "F(?t := t)"]]) auto
    then have "holds ?left (fs_remove ?t) (\<lambda>_. ?left) (\<lambda>_. ?left)" by (rule holds_ex)
    then show "holds ?left (ignoring (fs_remove ?t)) (\<lambda>_. ?left) (\<lambda>_. ?left)" by (rule holds_ignoring)
  qed (auto intro: holds_throw)
  note 2 = holds_or_else [OF w r]
  show ?thesis unfolding write_atomic_def Some option.case Let_def temp_name [OF Some] by (rule holds_and_then [OF 1 2])
qed

text \<open>Saving one of the two files.\<close>

definition store_is ::
  "string \<Rightarrow> config_file \<Rightarrow> credentials_file \<Rightarrow> (string \<Rightarrow> stored_file option) \<Rightarrow> prov_store \<Rightarrow> bool" where
  "store_is dir cfg crd F s \<longleftrightarrow>
     ps_dir s = dir \<and> ps_config s = cfg \<and> ps_credentials s = crd \<and> files_are F (ps_disk s)"

lemma holds_on_store_disk:
  assumes "holds (files_are F) m (\<lambda>_. files_are G) (\<lambda>_ d. \<exists>t. files_are (H t) d)"
  shows "holds (store_is dir cfg crd F) (on_store_disk m) (\<lambda>_. store_is dir cfg crd G)
     (\<lambda>_ s. \<exists>t. store_is dir cfg crd (H t) s)"
proof -
  let ?F = "\<lambda>s. ps_dir s = dir \<and> ps_config s = cfg \<and> ps_credentials s = crd"
  show ?thesis
    unfolding on_store_disk_def
    by (rule holds_conseq [OF store_disk_part.lift [OF assms, where F = ?F]]) (auto simp: store_is_def)
qed

lemma holds_store_save:
  assumes "\<And>s. store_is dir cfg crd F s \<Longrightarrow> contents s = content"
  shows "holds (store_is dir cfg crd F) (store_save env name contents mode)
     (\<lambda>_ s. \<exists>c. content = Inr c \<and>
        store_is dir cfg crd (F(temp_of (te_pid env) (path_join dir name) := None,
                                path_join dir name \<mapsto> \<lparr>f_mode = mode, f_content = c\<rparr>)) s)
     (\<lambda>_ s. \<exists>t. store_is dir cfg crd (F(temp_of (te_pid env) (path_join dir name) := t)) s)"
proof -
  let ?p = "path_join dir name" and ?t = "temp_of (te_pid env) (path_join dir name)"
  let ?S = "store_is dir cfg crd"
  let ?Q = "\<lambda>_ s. \<exists>c. content = Inr c \<and> ?S (F(?t := None, ?p \<mapsto> \<lparr>f_mode = mode, f_content = c\<rparr>)) s"
  let ?E = "\<lambda>(_ :: store_error) s. \<exists>t. ?S (F(?t := t)) s"
  have self: "?E e s" if "?S F s" for e s
  proof -
    have "?S (F(?t := F ?t)) s" using that by (simp only: fun_upd_triv)
    then show ?thesis by blast
  qed
  have "holds (?S F) (on_store_disk fs_control) (\<lambda>_. ?S F) (\<lambda>_ s. \<exists>t. ?S F s)"
    by (rule holds_on_store_disk) (rule holds_conseq [OF holds_fs_control], auto)
  then have 1: "holds (?S F) (with_err (StoreWrite dir) (on_store_disk fs_control)) (\<lambda>_. ?S F) ?E"
    by (intro holds_with_err) (erule holds_conseq, use self in auto)
  have 2: "holds (?S F) (lift_result (map_err Serialize content)) (\<lambda>c s. ?S F s \<and> content = Inr c) ?E"
    by (rule holds_lift) (use self in \<open>cases content; auto\<close>)+
  have w: "holds (files_are F) (write_atomic (te_pid env) ?p c mode)
      (\<lambda>_. files_are (F(?t := None, ?p \<mapsto> \<lparr>f_mode = mode, f_content = c\<rparr>)))
      (\<lambda>_ d. \<exists>t. files_are (F(?t := t)) d)" for c by (rule holds_write_atomic)
  have 3: "holds (\<lambda>s. ?S F s \<and> content = Inr c) (on_store_disk (write_atomic (te_pid env) ?p c mode)) ?Q ?E" for c
    by (rule holds_pure, rule holds_conseq [OF holds_on_store_disk [OF w [of c]]]) auto
  have "holds (?S F) (and_then (with_err (StoreWrite dir) (on_store_disk fs_control)) (\<lambda>_.
          and_then (lift_result (map_err Serialize content)) (\<lambda>c. on_store_disk (write_atomic (te_pid env) ?p c mode)))) ?Q ?E"
    by (intro holds_and_then [OF 1] holds_and_then [OF 2 3])
  moreover have "store_save env name contents mode s =
      and_then (with_err (StoreWrite dir) (on_store_disk fs_control)) (\<lambda>_.
        and_then (lift_result (map_err Serialize content)) (\<lambda>c. on_store_disk (write_atomic (te_pid env) ?p c mode))) s"
    if "?S F s" for s
    using assms [OF that] that by (simp add: store_save_def store_is_def)
  ultimately show ?thesis by (simp add: holds_def)
qed

lemma paths_distinct:
  "path_join dir CONFIG_FILE \<noteq> path_join dir CREDENTIALS_FILE"
  "temp_of pid (path_join dir CONFIG_FILE) \<noteq> path_join dir CREDENTIALS_FILE"
  "temp_of pid (path_join dir CONFIG_FILE) \<noteq> path_join dir CONFIG_FILE"
  "temp_of pid (path_join dir CREDENTIALS_FILE) \<noteq> path_join dir CONFIG_FILE"
  "temp_of pid (path_join dir CREDENTIALS_FILE) \<noteq> path_join dir CREDENTIALS_FILE"
  by (auto simp: path_join_def temp_of_def CONFIG_FILE_def CREDENTIALS_FILE_def)

lemma store_login_files:
  assumes "store_login env profile api_url creds s = (r, s')" "store_login_url s profile api_url = Inr u"
  defines "F \<equiv> dk_files (ps_disk s)" and "F' \<equiv> dk_files (ps_disk s')" and "s1 \<equiv> logged_in s profile u creds"
  defines "cpath \<equiv> path_join (ps_dir s) CONFIG_FILE" and "kpath \<equiv> path_join (ps_dir s) CREDENTIALS_FILE"
  shows "(\<exists>e t. r = Inl e \<and> F' = F(temp_of (te_pid env) cpath := t))
     \<or> (\<exists>c. te_config_to env (ps_config s1) = Inr c \<and>
          (let F1 = F(temp_of (te_pid env) cpath := None, cpath \<mapsto> \<lparr>f_mode = CONFIG_MODE, f_content = c\<rparr>) in
           (\<exists>e t. r = Inl e \<and> F' = F1(temp_of (te_pid env) kpath := t))
         \<or> (\<exists>k. r = Inr () \<and> te_credentials_to env (ps_credentials s1) = Inr k \<and>
              F' = F1(temp_of (te_pid env) kpath := None, kpath \<mapsto> \<lparr>f_mode = CREDENTIALS_MODE, f_content = k\<rparr>))))"
proof -
  let ?S = "store_is (ps_dir s) (ps_config s1) (ps_credentials s1)"
  have s1: "?S F s1" by (simp add: store_is_def s1_def logged_in_def F_def files_are_def)
  have run: "and_then (save_config env) (\<lambda>_. save_credentials env) s1 = (r, s')"
    using assms(1,2) by (simp add: store_login_def s1_def)
  have files: "?S G s' \<Longrightarrow> F' = G" for G by (simp add: store_is_def files_are_def F'_def)
  note c = holds_store_save [of "ps_dir s" "ps_config s1" "ps_credentials s1" F "\<lambda>s. te_config_to env (ps_config s)"
      "te_config_to env (ps_config s1)" env CONFIG_FILE CONFIG_MODE, folded save_config_def cpath_def]
  have k: "holds (?S G) (save_credentials env)
     (\<lambda>_ s. \<exists>c. te_credentials_to env (ps_credentials s1) = Inr c \<and>
        ?S (G(temp_of (te_pid env) kpath := None, kpath \<mapsto> \<lparr>f_mode = CREDENTIALS_MODE, f_content = c\<rparr>)) s)
     (\<lambda>_ s. \<exists>t. ?S (G(temp_of (te_pid env) kpath := t)) s)" for G
    unfolding save_credentials_def kpath_def by (rule holds_store_save) (simp add: store_is_def)
  obtain q s2 where q: "save_config env s1 = (q, s2)" by fastforce
  show ?thesis
  proof (cases q)
    case (Inl e)
    then have "r = Inl e" "s2 = s'" using run q by simp_all
    moreover have "\<exists>t. ?S (F(temp_of (te_pid env) cpath := t)) s2"
      using holds_Inl [OF c s1] q Inl by (simp add: store_is_def)
    ultimately show ?thesis using files by blast
  next
    case (Inr x)
    then have r: "save_credentials env s2 = (r, s')" using run q by simp
    obtain c where c: "te_config_to env (ps_config s1) = Inr c"
      "?S (F(temp_of (te_pid env) cpath := None, cpath \<mapsto> \<lparr>f_mode = CONFIG_MODE, f_content = c\<rparr>)) s2"
      using holds_Inr [OF c s1] q Inr by (auto simp: store_is_def)
    show ?thesis
    proof (cases r)
      case (Inl e)
      then show ?thesis using holds_Inl [OF k c(2)] r c(1) files unfolding Let_def by blast
    next
      case (Inr y)
      note all = holds_Inr [OF k c(2) r [unfolded Inr]]
      obtain d where d: "te_credentials_to env (ps_credentials s1) = Inr d" "F' = F(temp_of (te_pid env) cpath := None,
          cpath \<mapsto> \<lparr>f_mode = CONFIG_MODE, f_content = c\<rparr>, temp_of (te_pid env) kpath := None,
          kpath \<mapsto> \<lparr>f_mode = CREDENTIALS_MODE, f_content = d\<rparr>)"
        using all files by blast
      then show ?thesis using c(1) Inr unfolding Let_def by (intro disjI2 exI [of _ c]) auto
    qed
  qed
qed

lemma login_done:
  assumes "store_login env profile api_url creds s = (Inr (), s')" "store_login_url s profile api_url = Inr u"
  shows "\<exists>c k. te_config_to env (ps_config (logged_in s profile u creds)) = Inr c
    \<and> te_credentials_to env (ps_credentials (logged_in s profile u creds)) = Inr k
    \<and> dk_files (ps_disk s') (path_join (ps_dir s) CONFIG_FILE) = Some \<lparr>f_mode = CONFIG_MODE, f_content = c\<rparr>
    \<and> dk_files (ps_disk s') (path_join (ps_dir s) CREDENTIALS_FILE) = Some \<lparr>f_mode = CREDENTIALS_MODE, f_content = k\<rparr>"
proof -
  note ne = paths_distinct(1) [of "ps_dir s"] paths_distinct(2-) [of "te_pid env" "ps_dir s"]
  show ?thesis
    using store_login_files [OF assms] ne ne [symmetric] unfolding Let_def
    by (elim disjE exE conjE) simp_all
qed

section \<open>Properties\<close>

text \<open>C20: A login never leaves half a file or a token without its profile. Whatever fails, and with
  whatever a failed write leaves behind, \<open>config.toml\<close> afterwards is the old file or the complete
  new one and \<open>credentials.toml\<close> is the old file, or, once the configuration is the new one, the
  complete new one, readable by its owner only; it is new exactly when the login reported success.
  Apart from the two temporary files nothing else changes.\<close>

theorem login_old_or_new:
  assumes "store_login env profile api_url creds s = (r, s')" "store_login_url s profile api_url = Inr u"
  shows "(let F = dk_files (ps_disk s); F' = dk_files (ps_disk s'); s1 = logged_in s profile u creds;
              cpath = path_join (ps_dir s) CONFIG_FILE; kpath = path_join (ps_dir s) CREDENTIALS_FILE;
              new_config = (\<exists>c. te_config_to env (ps_config s1) = Inr c \<and> F' cpath = Some \<lparr>f_mode = CONFIG_MODE, f_content = c\<rparr>);
              new_credentials = (\<exists>k. te_credentials_to env (ps_credentials s1) = Inr k
                                   \<and> F' kpath = Some \<lparr>f_mode = CREDENTIALS_MODE, f_content = k\<rparr>)
          in (if r = Inr () then new_config \<and> new_credentials
              else F' kpath = F kpath \<and> (F' cpath = F cpath \<or> new_config))
             \<and> (\<forall>p. p \<notin> {cpath, kpath, temp_of (te_pid env) cpath, temp_of (te_pid env) kpath} \<longrightarrow> F' p = F p))"
proof -
  note ne = paths_distinct(1) [of "ps_dir s"] paths_distinct(2-) [of "te_pid env" "ps_dir s"]
  show ?thesis
    using store_login_files [OF assms] ne ne [symmetric] unfolding Let_def
    by (elim disjE exE conjE) simp_all
qed

definition sample_config :: config_file where
  "sample_config = \<lparr>cfg_default_profile = Some ''p'', cfg_profiles = [''p'' \<mapsto> ''https://h'']\<rparr>"
definition sample_credentials :: credentials where
  "sample_credentials = \<lparr>cr_token = ''t'', cr_subject = None, cr_expires_at = None\<rparr>"

text \<open>A stand-in for TOML that knows one file of each kind.\<close>

definition sample_toml :: toml_env where
  "sample_toml =
     \<lparr>te_config_to = (\<lambda>c. if c = sample_config then Inr [1] else Inl []),
      te_config_from = (\<lambda>bs. if bs = [1] then Inr sample_config else Inl []),
      te_credentials_to = (\<lambda>c. if c = [''p'' \<mapsto> sample_credentials] then Inr [2] else Inl []),
      te_credentials_from = (\<lambda>bs. if bs = [2] then Inr [''p'' \<mapsto> sample_credentials] else Inl []), te_pid = 1\<rparr>"

definition fresh_store :: "(nat \<Rightarrow> (string \<times> nat option) option) \<Rightarrow> prov_store" where
  "fresh_store faults =
     \<lparr>ps_dir = ''d'', ps_config = EMPTY_CONFIG, ps_credentials = Map.empty,
      ps_disk = \<lparr>dk_files = Map.empty, dk_step = 0, dk_script = faults\<rparr>\<rparr>"

lemma sample_url: "parse_url ''https://h'' = Inr ''https://h''"
  by (subst parse_url_graphic) (simp_all add: graphic_def starts_with_def)

lemma sample_login:
  "\<exists>d. store_login sample_toml ''p'' (Some ''https://h'') sample_credentials (fresh_store (\<lambda>_. None))
     = (Inr (), logged_in (fresh_store (\<lambda>_. None)) ''p'' ''https://h'' sample_credentials\<lparr>ps_disk := d\<rparr>)
   \<and> dk_files d ''d/config.toml'' = Some \<lparr>f_mode = CONFIG_MODE, f_content = [1]\<rparr>
   \<and> dk_files d ''d/credentials.toml'' = Some \<lparr>f_mode = CREDENTIALS_MODE, f_content = [2]\<rparr> \<and> dk_script d = (\<lambda>_. None)"
  by (simp add: store_login_def store_login_url_def sample_url logged_in_def fresh_store_def EMPTY_CONFIG_def
      save_config_def save_credentials_def store_save_def and_then_def with_err_def on_store_disk_def on_part_def
      fs_control_def fs_step_def lift_result_def sample_toml_def sample_config_def write_atomic_def file_name_def
      with_file_name_def path_join_def CONFIG_FILE_def CREDENTIALS_FILE_def write_through_def or_else_def ignoring_def
      fs_remove_def fs_create_new_def fs_write_def fs_rename_def put_content_def mode_at_def Let_def)

text \<open>A disk that fills up while the credentials are written: the new configuration stays, the
  credentials are as they were, absent.\<close>

theorem login_old_or_new_witness:
  "fst (store_login sample_toml ''p'' (Some ''https://h'') sample_credentials (fresh_store (\<lambda>_. None))) = Inr ()
   \<and> (let s' = snd (store_login sample_toml ''p'' (Some ''https://h'') sample_credentials
                 (fresh_store (\<lambda>n. if n = 8 then Some (''no space left on device'', Some 0) else None))) in
        dk_files (ps_disk s') ''d/credentials.toml'' = None)"
proof -
  let ?s = "fresh_store (\<lambda>n. if n = 8 then Some (''no space left on device'', Some 0) else None)"
  let ?run = "store_login sample_toml ''p'' (Some ''https://h'') sample_credentials ?s"
  have u: "store_login_url ?s ''p'' (Some ''https://h'') = Inr ''https://h''" by (simp add: store_login_url_def sample_url)
  have r: "fst ?run \<noteq> Inr ()"
    by (simp add: store_login_def store_login_url_def sample_url logged_in_def fresh_store_def EMPTY_CONFIG_def
      save_config_def save_credentials_def store_save_def and_then_def with_err_def on_store_disk_def on_part_def
      fs_control_def fs_step_def lift_result_def sample_toml_def sample_config_def write_atomic_def file_name_def
      with_file_name_def path_join_def CONFIG_FILE_def CREDENTIALS_FILE_def write_through_def or_else_def ignoring_def
      fs_remove_def fs_create_new_def fs_write_def fs_rename_def put_content_def mode_at_def Let_def throw_def)
  have "dk_files (ps_disk (snd ?run)) ''d/credentials.toml'' = dk_files (ps_disk ?s) ''d/credentials.toml''"
    using login_old_or_new [OF prod.collapse [symmetric] u] r
    by (simp add: Let_def path_join_def fresh_store_def CREDENTIALS_FILE_def)
  then show ?thesis using sample_login by (auto simp: fresh_store_def)
qed

text \<open>What a login stored is what the next run resolves: after a successful login the files, read
  back, give a store in which the profile stands for the URL and the token just stored - and for no
  other profile's - and a profile logged in before keeps its own.\<close>

theorem login_resolves:
  assumes "store_login env profile api_url creds s = (Inr (), s')" "store_login_url s profile api_url = Inr u"
    and "parse_url u = Inr u" "\<And>c bs. te_config_to env c = Inr bs \<Longrightarrow> te_config_from env bs = Inr c \<and> utf8_ok bs"
    and "\<And>c bs. te_credentials_to env c = Inr bs \<Longrightarrow> te_credentials_from env bs = Inr c \<and> utf8_ok bs"
    and "dk_files d = dk_files (ps_disk s')" "store_at env (ps_dir s) d = (Inr s2, d')"
  shows "store_resolve s2 env_token (Some profile) None
       = Inr \<lparr>target_label = profile, target_url = u, target_token = cr_token creds\<rparr>
    \<and> (other \<noteq> profile \<longrightarrow> store_resolve s2 env_token (Some other) None = store_resolve s env_token (Some other) None)"
proof -
  obtain c k where c: "te_config_to env (ps_config (logged_in s profile u creds)) = Inr c"
    "te_credentials_to env (ps_credentials (logged_in s profile u creds)) = Inr k"
    "dk_files d (path_join (ps_dir s) CONFIG_FILE) = Some \<lparr>f_mode = CONFIG_MODE, f_content = c\<rparr>"
    "dk_files d (path_join (ps_dir s) CREDENTIALS_FILE) = Some \<lparr>f_mode = CREDENTIALS_MODE, f_content = k\<rparr>"
    using login_done [OF assms(1,2)] assms(6) by auto
  have "ps_config s2 = ps_config (logged_in s profile u creds) \<and> ps_credentials s2 = ps_credentials (logged_in s profile u creds)"
    using assms(7) c assms(4) [OF c(1)] assms(5) [OF c(2)]
    by (auto simp: store_at_def and_then_def read_toml_def fs_read_to_string_def return_ok_def lift_result_def throw_def with_err_def fs_mode_def fs_read_def
        fs_step_def or_default_def check_private_def CREDENTIALS_MODE_def CONFIG_MODE_def Let_def
        split: prod.splits sum.splits option.splits if_splits)
  then show ?thesis using assms(3) by (auto simp: store_resolve_def logged_in_def)
qed

theorem login_resolves_witness:
  "\<exists>s' s2 d'. store_login sample_toml ''p'' (Some ''https://h'') sample_credentials (fresh_store (\<lambda>_. None)) = (Inr (), s')
     \<and> store_at sample_toml ''d'' (ps_disk s') = (Inr s2, d')
     \<and> store_resolve s2 None (Some ''p'') None = Inr \<lparr>target_label = ''p'', target_url = ''https://h'', target_token = ''t''\<rparr>"
proof -
  let ?s = "fresh_store (\<lambda>_. None)"
  obtain d where d: "store_login sample_toml ''p'' (Some ''https://h'') sample_credentials ?s
     = (Inr (), logged_in ?s ''p'' ''https://h'' sample_credentials\<lparr>ps_disk := d\<rparr>)"
   "dk_files d ''d/config.toml'' = Some \<lparr>f_mode = CONFIG_MODE, f_content = [1]\<rparr>"
   "dk_files d ''d/credentials.toml'' = Some \<lparr>f_mode = CREDENTIALS_MODE, f_content = [2]\<rparr>" "dk_script d = (\<lambda>_. None)"
    using sample_login by blast
  have u: "store_login_url ?s ''p'' (Some ''https://h'') = Inr ''https://h''" by (simp add: store_login_url_def sample_url)
  have utf8: "utf8_ok [1]" "utf8_ok [2]" by (simp_all add: utf8_ok.simps)
  have "\<exists>s2 d'. store_at sample_toml ''d'' d = (Inr s2, d')"
    using d(2-4) utf8 by (simp add: store_at_def and_then_def read_toml_def fs_read_to_string_def return_ok_def fs_mode_def fs_read_def fs_step_def lift_result_def
        with_err_def throw_def check_private_def CREDENTIALS_MODE_def CONFIG_MODE_def sample_toml_def path_join_def
        CONFIG_FILE_def CREDENTIALS_FILE_def)
  then obtain s2 d' where s2: "store_at sample_toml ''d'' d = (Inr s2, d')" by blast
  have dir: "ps_dir ?s = ''d''" by (simp add: fresh_store_def)
  have toml: "te_config_to sample_toml c = Inr bs \<Longrightarrow> te_config_from sample_toml bs = Inr c \<and> utf8_ok bs"
    "te_credentials_to sample_toml k = Inr bs \<Longrightarrow> te_credentials_from sample_toml bs = Inr k \<and> utf8_ok bs" for c k bs
    using utf8 by (auto simp: sample_toml_def split: if_splits)
  show ?thesis
    using login_resolves [OF d(1) u sample_url toml, of d s2 d' None] d(1) s2 dir by (auto simp: sample_credentials_def)
qed

end
