(* ===== verification/Confirm.thy ===== *)
theory Confirm
  imports Effects UicrRecord Url
begin

text \<open>\<open>src/provision/src/confirm.rs\<close>: the consent gates. The terminal answers with a list of lines; an
  \<open>Inl\<close> is the failure of writing the prompt or of reading the answer, the end of the list a closed
  stdin. What is asked is a value of \<open>question\<close>; its wording is not modelled.\<close>

datatype question =
    UnreadableRecord record_error
  | DestroysKey
  | GoesDark string
  | BlindErase

datatype confirm_error = Aborted | NoTty | ConfirmIo string

record terminal =
  tty_stdin_is_terminal :: bool
  tty_lines :: "(string + string) list"
  tty_asked :: "question list"

datatype policy = Granted | Ask | Refuse

fun confirm_policy :: "bool \<Rightarrow> bool \<Rightarrow> policy" where
  "confirm_policy True _ = Granted"
| "confirm_policy False True = Ask"
| "confirm_policy False False = Refuse"

definition ask :: "question \<Rightarrow> bool \<Rightarrow> (terminal, confirm_error, string option) comp" where
  "ask q assume_yes t =
     (case confirm_policy assume_yes (tty_stdin_is_terminal t) of
        Granted \<Rightarrow> (Inr None, t)
      | Refuse \<Rightarrow> (Inl NoTty, t)
      | Ask \<Rightarrow>
          (let t1 = t\<lparr>tty_asked := tty_asked t @ [q], tty_lines := tl (tty_lines t)\<rparr> in
           case tty_lines t of
             [] \<Rightarrow> (Inr (Some []), t1)
           | Inl e # _ \<Rightarrow> (Inl (ConfirmIo e), t1)
           | Inr answer # _ \<Rightarrow> (Inr (Some (trim answer)), t1)))"

definition decide_yes_no :: "string \<Rightarrow> confirm_error + unit" where
  "decide_yes_no answer =
     (let a = map to_lower answer in if a = ''y'' \<or> a = ''yes'' then Inr () else Inl Aborted)"

definition decide_typed :: "string \<Rightarrow> string \<Rightarrow> confirm_error + unit" where
  "decide_typed answer expected = (if answer = expected then Inr () else Inl Aborted)"

definition yes_no :: "question \<Rightarrow> bool \<Rightarrow> (terminal, confirm_error, unit) comp" where
  "yes_no q assume_yes =
     and_then (ask q assume_yes) (\<lambda>r.
       case r of None \<Rightarrow> return_ok () | Some answer \<Rightarrow> lift_result (decide_yes_no answer))"

definition typed :: "question \<Rightarrow> string \<Rightarrow> bool \<Rightarrow> (terminal, confirm_error, unit) comp" where
  "typed q expected assume_yes =
     and_then (ask q assume_yes) (\<lambda>r.
       case r of None \<Rightarrow> return_ok () | Some answer \<Rightarrow> lift_result (decide_typed answer expected))"

section \<open>Facts\<close>

text \<open>Consent is a flag or an answer: without \<open>--yes\<close> the next line of a terminal has to be one of
  the accepted answers.\<close>

definition consented :: "(string \<Rightarrow> bool) \<Rightarrow> bool \<Rightarrow> terminal \<Rightarrow> bool" where
  "consented ok assume_yes t \<longleftrightarrow>
     assume_yes \<or> (tty_stdin_is_terminal t \<and> (\<exists>a rest. tty_lines t = Inr a # rest \<and> ok (trim a)))"

lemma ask_Inr:
  assumes "ask q assume_yes t = (Inr r, t')"
  shows "r = None \<and> assume_yes
    \<or> r = Some [] \<or> (\<exists>a rest. tty_stdin_is_terminal t \<and> tty_lines t = Inr a # rest \<and> r = Some (trim a))"
  using assms by (cases assume_yes; cases "tty_stdin_is_terminal t"; cases "tty_lines t")
    (auto simp: ask_def Let_def split: sum.splits)

lemma yes_no_Inr:
  assumes "yes_no q assume_yes t = (Inr u, t')"
  shows "consented (\<lambda>a. map to_lower a \<in> {''y'', ''yes''}) assume_yes t"
proof -
  obtain r t1 where r: "ask q assume_yes t = (Inr r, t1)"
    "(case r of None \<Rightarrow> return_ok () | Some answer \<Rightarrow> lift_result (decide_yes_no answer)) t1 = (Inr u, t')"
    using assms by (auto simp: yes_no_def and_then_Inr_iff)
  then have "\<And>a. r = Some a \<Longrightarrow> map to_lower a \<in> {''y'', ''yes''}"
    by (auto simp: lift_result_def decide_yes_no_def Let_def split: if_splits)
  then show ?thesis using ask_Inr [OF r(1)] by (auto simp: consented_def)
qed

lemma typed_Inr:
  assumes "typed q expected assume_yes t = (Inr u, t')" "expected \<noteq> []"
  shows "consented (\<lambda>a. a = expected) assume_yes t"
proof -
  obtain r t1 where r: "ask q assume_yes t = (Inr r, t1)"
    "(case r of None \<Rightarrow> return_ok () | Some answer \<Rightarrow> lift_result (decide_typed answer expected)) t1 = (Inr u, t')"
    using assms(1) by (auto simp: typed_def and_then_Inr_iff)
  then have "\<And>a. r = Some a \<Longrightarrow> a = expected"
    by (auto simp: lift_result_def decide_typed_def split: if_splits)
  then show ?thesis using ask_Inr [OF r(1)] assms(2) by (auto simp: consented_def)
qed

end
