(* ===== verification/Commands.thy ===== *)
theory Commands
  imports Confirm Firmware ProvStore
begin

text \<open>\<open>src/provision/src/commands.rs\<close>: the commands that key and flash a board, over the board, the
  service behind its network, the terminal and the files. What the tool prints goes to the terminal's
  output, is not read back and does not decide anything; it is left out, and so are the steps'
  labels. Writing to stderr does not fail.\<close>

section \<open>State\<close>

record bench =
  bench_core :: core
  bench_net :: network
  bench_tty :: terminal
  bench_disk :: disk

text \<open>What does not change while a command runs: the probes and how attaching goes, and the parts of
  probe-rs and defmt the tool calls - writing an image to flash, reading the log.\<close>

record bench_setup =
  su_probes :: "probe_info list"
  su_attach :: "probe_info \<Rightarrow> attach_result"
  su_download :: "string \<Rightarrow> (core, string, unit) comp"
  su_stream :: "bytes \<Rightarrow> nat \<Rightarrow> (core, string, unit) comp"

datatype mint = MintCommitted | MintUntouched | MintUnknown

datatype install_error =
    InstallRecord write_record_error
  | InstallFlash flash_error
  | InstallStorage erase_storage_error
  | InstallReset probe_error
  | InstallImage io_error

datatype command_error =
    CmdClient client_error
  | CmdConnect connect_error
  | CmdProbe probe_error
  | CmdConfirm confirm_error
  | DeviceLocked
  | DeviceAlreadyUnlocked
  | AlreadyRegistered device_addr string
  | NotRegistered device_addr
  | MintFailed mint client_error
  | BadKey from_hex_error
  | InstallFailed install_error
  | CmdFlash flash_error
  | RecordChanged
  | CmdImage io_error
  | CmdFirmware firmware_error
  | NoSuchFirmware string
  | CmdPick pick_error
  | CmdStore store_error

definition on_core :: "(core, 'e, 'a) comp \<Rightarrow> (bench, 'e, 'a) comp" where
  "on_core = on_part bench_core (\<lambda>c b. b\<lparr>bench_core := c\<rparr>)"
definition on_net :: "(network, 'e, 'a) comp \<Rightarrow> (bench, 'e, 'a) comp" where
  "on_net = on_part bench_net (\<lambda>n b. b\<lparr>bench_net := n\<rparr>)"
definition on_tty :: "(terminal, 'e, 'a) comp \<Rightarrow> (bench, 'e, 'a) comp" where
  "on_tty = on_part bench_tty (\<lambda>t b. b\<lparr>bench_tty := t\<rparr>)"
definition on_files :: "(disk, 'e, 'a) comp \<Rightarrow> (bench, 'e, 'a) comp" where
  "on_files = on_part bench_disk (\<lambda>d b. b\<lparr>bench_disk := d\<rparr>)"

interpretation core_part: part bench_core "\<lambda>c b. b\<lparr>bench_core := c\<rparr>" by unfold_locales simp_all
interpretation net_part: part bench_net "\<lambda>n b. b\<lparr>bench_net := n\<rparr>" by unfold_locales simp_all
interpretation tty_part: part bench_tty "\<lambda>t b. b\<lparr>bench_tty := t\<rparr>" by unfold_locales simp_all
interpretation files_part: part bench_disk "\<lambda>d b. b\<lparr>bench_disk := d\<rparr>" by unfold_locales simp_all

section \<open>Preconditions\<close>

datatype action = Provision | Rotate string

fun confirm_question :: "action \<Rightarrow> record_header \<Rightarrow> question option" where
  "confirm_question _ HeaderBlank = None"
| "confirm_question _ (HeaderMalformed err) = Some (UnreadableRecord err)"
| "confirm_question Provision HeaderPresent = Some DestroysKey"
| "confirm_question (Rotate name) HeaderPresent = Some (GoesDark name)"

definition confirm_record :: "record_header \<Rightarrow> action \<Rightarrow> bool \<Rightarrow> (terminal, confirm_error, unit) comp" where
  "confirm_record record action assume_yes =
     (case confirm_question action record of None \<Rightarrow> return_ok () | Some q \<Rightarrow> yes_no q assume_yes)"

definition check_auth_before_unlock :: "api_target \<Rightarrow> bool \<Rightarrow> (network, client_error, unit) comp" where
  "check_auth_before_unlock t unlock = (if unlock then client_check_auth t else return_ok ())"

text \<open>Attaching with leave to erase everything: the debug port's \<open>ERASEALL\<close> clears flash and UICR.\<close>

definition erase_to_unlock :: "(core, probe_error, unit) comp" where
  "erase_to_unlock =
     probe_access (\<lambda>c. c\<lparr>core_mem := \<lambda>x. if in_flash x \<or> in_uicr x then ERASED else core_mem c x\<rparr>) (\<lambda>_ _. ())"

definition connect :: "bench_setup \<Rightarrow> string option \<Rightarrow> bool \<Rightarrow> bool \<Rightarrow> (bench, command_error, unit) comp" where
  "connect su probe unlock assume_yes =
     (case chip_connect (su_probes su) (su_attach su) probe of
        Inl e \<Rightarrow> throw (CmdConnect e)
      | Inr (Attached _) \<Rightarrow> if unlock then throw DeviceAlreadyUnlocked else return_ok ()
      | Inr (Locked _) \<Rightarrow>
          if \<not> unlock then throw DeviceLocked
          else and_then (with_err CmdConfirm (on_tty (typed BlindErase ''ERASE'' assume_yes))) (\<lambda>_.
               with_err (\<lambda>e. CmdConnect (ConnectProbe e)) (on_core erase_to_unlock)))"

section \<open>Minting\<close>

fun classify_mint :: "int option \<Rightarrow> int option \<Rightarrow> mint" where
  "classify_mint None (Some _) = MintCommitted"
| "classify_mint (Some before) (Some now) = (if now > before then MintCommitted else MintUntouched)"
| "classify_mint None None = MintUntouched"
| "classify_mint (Some _) None = MintUnknown"

definition mint_key ::
  "api_target \<Rightarrow> device_addr \<Rightarrow> int option \<Rightarrow> (network, client_error, device_key_response) comp
     \<Rightarrow> (network, command_error, device_key_response) comp" where
  "mint_key t addr epoch_before request =
     or_else request (\<lambda>err.
       if \<not> may_have_committed err then throw (CmdClient err)
       else (\<lambda>net. case client_device t addr net of
               (Inr found, net') \<Rightarrow>
                 (Inl (MintFailed (classify_mint epoch_before (map_option sum_key_valid_from found)) err), net')
             | (Inl _, net') \<Rightarrow> (Inl (MintFailed MintUnknown err), net')))"

section \<open>Installing\<close>

definition report_boot :: "bench_setup \<Rightarrow> string \<Rightarrow> nat \<Rightarrow> (bench, io_error, unit) comp" where
  "report_boot su img logs =
     (if logs = 0 then return_ok ()
      else and_then (on_files (fs_read img)) (\<lambda>elf. on_core (ignoring (su_stream su elf logs))))"

definition flash_image :: "bench_setup \<Rightarrow> artifact \<Rightarrow> string \<Rightarrow> (bench, flash_error, unit) comp" where
  "flash_image su artifact img = on_core (chip_flash (su_download su img) (art_app_start artifact))"

text \<open>The firmware half of \<open>install_key\<close>, with the storage range read from the image's row.\<close>

definition install_firmware :: "bench_setup \<Rightarrow> (artifact \<times> string) option \<Rightarrow> (bench, install_error, unit) comp" where
  "install_firmware su firmware =
     (case firmware of
        None \<Rightarrow> return_ok ()
      | Some (artifact, img) \<Rightarrow>
          and_then (with_err InstallFlash (flash_image su artifact img)) (\<lambda>_.
            case storage_range artifact of
              None \<Rightarrow> return_ok ()
            | Some (first, beyond) \<Rightarrow> with_err InstallStorage (on_core (erase_storage first beyond))))"

definition install_steps ::
  "bench_setup \<Rightarrow> record_header \<Rightarrow> device_key \<Rightarrow> (artifact \<times> string) option \<Rightarrow> nat \<Rightarrow> (bench, install_error, unit) comp" where
  "install_steps su record key firmware logs =
     and_then (if \<not> is_blank record then with_err InstallRecord (on_core erase_uicr_record) else return_ok ()) (\<lambda>_.
     and_then (with_err InstallRecord (on_core (write_uicr_record key))) (\<lambda>_.
     and_then (install_firmware su firmware) (\<lambda>_.
     and_then (with_err InstallReset (on_core chip_reset)) (\<lambda>_.
       case firmware of None \<Rightarrow> return_ok () | Some (_, img) \<Rightarrow> with_err InstallImage (report_boot su img logs)))))"

definition install_key ::
  "bench_setup \<Rightarrow> record_header \<Rightarrow> device_key_response \<Rightarrow> (artifact \<times> string) option \<Rightarrow> nat
     \<Rightarrow> (bench, command_error, unit) comp" where
  "install_key su record response firmware logs =
     and_then (lift_result (map_err BadKey (key_from_hex (dkr_key response)))) (\<lambda>key.
       with_err InstallFailed (install_steps su record key firmware logs))"

section \<open>Commands\<close>

text \<open>The image to flash; \<open>optional_firmware\<close> only picks one when \<open>--firmware\<close> names it.\<close>

definition choose_firmware :: "firmware_store \<Rightarrow> string option \<Rightarrow> (terminal, command_error, artifact \<times> string) comp" where
  "choose_firmware store name t =
     (case name of
        Some n \<Rightarrow> (map_ok (\<lambda>a. (a, image_path store a)) (ok_or (NoSuchFirmware n) (firmware_get store n)), t)
      | None \<Rightarrow>
          (map_ok (\<lambda>a. (a, image_path store a))
             (map_err CmdPick (firmware_pick (fst_artifacts store) (tty_stdin_is_terminal t)
                (case tty_lines t of [] \<Rightarrow> Inr [] | l # _ \<Rightarrow> l))),
           if fst_artifacts store \<noteq> [] \<and> tty_stdin_is_terminal t then t\<lparr>tty_lines := tl (tty_lines t)\<rparr> else t))"

definition optional_firmware ::
  "firmware_store \<Rightarrow> string option \<Rightarrow> (terminal, command_error, (artifact \<times> string) option) comp" where
  "optional_firmware store name =
     (case name of
        None \<Rightarrow> return_ok None
      | Some n \<Rightarrow> and_then (choose_firmware store (Some n)) (\<lambda>f. return_ok (Some f)))"

record prov_args =
  pa_store :: firmware_store
  pa_target :: "command_error + api_target"
  pa_firmware :: "string option"
  pa_probe :: "string option"
  pa_logs :: nat
  pa_yes :: bool
  pa_unlock :: bool

text \<open>What \<open>provision\<close> and \<open>rotate\<close> do before they ask the registry.\<close>

definition identify :: "bench_setup \<Rightarrow> prov_args \<Rightarrow>
    (bench, command_error, (artifact \<times> string) option \<times> api_target \<times> chip_state \<times> device_summary option) comp" where
  "identify su args =
     and_then (on_tty (optional_firmware (pa_store args) (pa_firmware args))) (\<lambda>firmware.
     and_then (lift_result (pa_target args)) (\<lambda>t.
     and_then (with_err CmdClient (on_net (check_auth_before_unlock t (pa_unlock args)))) (\<lambda>_.
     and_then (connect su (pa_probe args) (pa_unlock args) (pa_yes args)) (\<lambda>_.
     and_then (with_err CmdProbe (on_core read_state)) (\<lambda>state.
     and_then (with_err CmdClient (on_net (client_device t (cs_device_addr state)))) (\<lambda>registered.
       return_ok (firmware, t, state, registered)))))))"

definition provision :: "bench_setup \<Rightarrow> prov_args \<Rightarrow> string \<Rightarrow> (bench, command_error, device_addr \<times> string) comp" where
  "provision su args name =
     and_then (identify su args) (\<lambda>(firmware, t, state, registered).
       case registered of
         Some existing \<Rightarrow> throw (AlreadyRegistered (cs_device_addr state) (sum_name existing))
       | None \<Rightarrow>
          and_then (with_err CmdConfirm (on_tty (confirm_record (cs_record state) Provision (pa_yes args)))) (\<lambda>_.
          and_then (with_err CmdProbe (on_core chip_halt)) (\<lambda>_.
          and_then (on_net (mint_key t (cs_device_addr state) None (client_provision t name (cs_device_addr state)))) (\<lambda>response.
          and_then (install_key su (cs_record state) response firmware (pa_logs args)) (\<lambda>_.
            return_ok (dkr_addr response, dkr_name response))))))"

definition rotate_key :: "bench_setup \<Rightarrow> prov_args \<Rightarrow> (bench, command_error, device_addr \<times> string) comp" where
  "rotate_key su args =
     and_then (identify su args) (\<lambda>(firmware, t, state, registered).
       case registered of
         None \<Rightarrow> throw (NotRegistered (cs_device_addr state))
       | Some existing \<Rightarrow>
          and_then (with_err CmdConfirm (on_tty (confirm_record (cs_record state) (Rotate (sum_name existing)) (pa_yes args)))) (\<lambda>_.
          and_then (with_err CmdProbe (on_core chip_halt)) (\<lambda>_.
          and_then (on_net (mint_key t (cs_device_addr state) (Some (sum_key_valid_from existing))
                     (client_rotate_key t (cs_device_addr state)))) (\<lambda>response.
          and_then (install_key su (cs_record state) response firmware (pa_logs args)) (\<lambda>_.
            return_ok (dkr_addr response, dkr_name response))))))"

definition flash :: "bench_setup \<Rightarrow> prov_args \<Rightarrow> (bench, command_error, device_addr \<times> string) comp" where
  "flash su args =
     and_then (on_tty (choose_firmware (pa_store args) (pa_firmware args))) (\<lambda>(artifact, img).
     and_then (case chip_connect (su_probes su) (su_attach su) (pa_probe args) of
                 Inl e \<Rightarrow> throw (CmdConnect e)
               | Inr (Locked _) \<Rightarrow> throw DeviceLocked
               | Inr (Attached _) \<Rightarrow> return_ok ()) (\<lambda>_.
     and_then (with_err CmdProbe (on_core read_state)) (\<lambda>state.
     and_then (with_err CmdProbe (on_core read_uicr_words)) (\<lambda>before.
     and_then (with_err CmdFlash (flash_image su artifact img)) (\<lambda>_.
     and_then (with_err CmdProbe (on_core read_uicr_words)) (\<lambda>after.
     and_then (if after = before then return_ok () else throw RecordChanged) (\<lambda>_.
     and_then (with_err CmdProbe (on_core chip_reset)) (\<lambda>_.
     and_then (with_err CmdImage (report_boot su img (pa_logs args))) (\<lambda>_.
       return_ok (cs_device_addr state, art_name artifact))))))))))"

text \<open>A locked chip is a state to report: no address.\<close>

definition info :: "bench_setup \<Rightarrow> string option \<Rightarrow> (bench, command_error, chip_state option) comp" where
  "info su probe =
     (case chip_connect (su_probes su) (su_attach su) probe of
        Inl e \<Rightarrow> throw (CmdConnect e)
      | Inr (Locked _) \<Rightarrow> return_ok None
      | Inr (Attached _) \<Rightarrow> and_then (with_err CmdProbe (on_core read_state)) (\<lambda>state. return_ok (Some state)))"

end
