(* ===== verification/CommandFacts.thy ===== *)
theory CommandFacts
  imports Commands
begin

text \<open>What the commands guarantee across the board and the service, as contracts over both.\<close>

section \<open>Contracts on the bench\<close>

definition board ::
  "(network \<Rightarrow> bool) \<Rightarrow> (nat \<Rightarrow> access) \<Rightarrow> ((nat \<Rightarrow> u32) \<Rightarrow> bool) \<Rightarrow> bench \<Rightarrow> bool" where
  "board N sc R b \<longleftrightarrow> N (bench_net b) \<and> core_script (bench_core b) = sc \<and> R (core_mem (bench_core b))"

definition mem_in :: "(nat \<Rightarrow> access) \<Rightarrow> ((nat \<Rightarrow> u32) \<Rightarrow> bool) \<Rightarrow> core \<Rightarrow> bool" where
  "mem_in sc R c \<longleftrightarrow> (\<exists>m. at_mem sc m c \<and> R m)"

lemma board_mono: "board N sc R b \<Longrightarrow> (\<And>n. N n \<Longrightarrow> N' n) \<Longrightarrow> (\<And>m. R m \<Longrightarrow> R' m) \<Longrightarrow> board N' sc R' b"
  by (simp add: board_def)

lemma holds_on_core:
  assumes "\<And>m. R m \<Longrightarrow> holds (at_mem sc m) f (\<lambda>x. mem_in sc (Q x)) (\<lambda>e. mem_in sc (E e))"
  shows "holds (board N sc R) (on_core f) (\<lambda>x. board N sc (Q x)) (\<lambda>e. board N sc (E e))"
  unfolding on_core_def
proof (rule holds_on_part)
  fix b
  show "holds (\<lambda>c. board N sc R b \<and> c = bench_core b) f (\<lambda>x c. board N sc (Q x) (b\<lparr>bench_core := c\<rparr>))
     (\<lambda>e c. board N sc (E e) (b\<lparr>bench_core := c\<rparr>))"
  proof (cases "board N sc R b")
    case True
    then have R: "R (core_mem (bench_core b))" by (simp add: board_def)
    show ?thesis
      by (rule holds_conseq [OF assms [OF R]]) (use True in \<open>auto simp: board_def mem_in_def at_mem_def\<close>)
  qed (simp add: holds_def)
qed

lemma holds_on_net:
  assumes "holds N f N' E"
  shows "holds (board N sc R) (on_net f) (\<lambda>x. board (N' x) sc R) (\<lambda>e. board (E e) sc R)"
  unfolding on_net_def board_def by (rule net_part.lift [OF assms]) simp

lemma holds_frame_tty: "holds (board N sc R) (on_tty f) (\<lambda>_. board N sc R) (\<lambda>_. board N sc R)"
  unfolding on_tty_def board_def by (rule tty_part.frame) simp

lemma holds_frame_files: "holds (board N sc R) (on_files f) (\<lambda>_. board N sc R) (\<lambda>_. board N sc R)"
  unfolding on_files_def board_def by (rule files_part.frame) simp

text \<open>Operations that leave the memory alone.\<close>

lemma holds_core_frame:
  assumes "\<And>m. holds (at_mem sc m) f (\<lambda>_. at_mem sc m) (\<lambda>_. at_mem sc m)"
  shows "holds (board N sc R) (on_core f) (\<lambda>_. board N sc R) (\<lambda>_. board N sc R)"
  by (rule holds_on_core, rule holds_conseq [OF assms]) (auto simp: mem_in_def)

lemma holds_probe_control_mem: "holds (at_mem sc m) probe_control (\<lambda>_. at_mem sc m) (\<lambda>_. at_mem sc m)"
  by (rule holds_at_mem, rule holds_conseq [OF holds_probe_control]) (auto simp: at_def at_mem_def)

lemma holds_halt: "holds (board N sc R) (on_core chip_halt) (\<lambda>_. board N sc R) (\<lambda>_. board N sc R)"
  unfolding chip_halt_def by (rule holds_core_frame, rule holds_and_then) (rule holds_probe_control_mem)+

lemma holds_reset: "holds (board N sc R) (on_core chip_reset) (\<lambda>_. board N sc R) (\<lambda>_. board N sc R)"
  unfolding chip_reset_def by (rule holds_core_frame, rule holds_and_then) (rule holds_probe_control_mem)+

definition ficr_is :: "device_addr \<Rightarrow> (nat \<Rightarrow> u32) \<Rightarrow> bool" where
  "ficr_is a m \<longleftrightarrow> from_ficr (m FICR_DEVICE_ADDR) (m (FICR_DEVICE_ADDR + 4)) = a"

lemma holds_board_read_state:
  assumes "\<And>m. R m \<Longrightarrow> ficr_is a m"
  shows "holds (board N sc R) (on_core read_state)
    (\<lambda>st b. board N sc (\<lambda>m. R m \<and> cs_record st = decode_header (m UICR_CUSTOMER)) b \<and> cs_device_addr st = a)
    (\<lambda>_. board N sc R)"
proof -
  have "holds (board N sc R) (on_core read_state)
    (\<lambda>st. board N sc (\<lambda>m. R m \<and> cs_record st = decode_header (m UICR_CUSTOMER) \<and> cs_device_addr st = a))
    (\<lambda>_. board N sc R)"
    by (rule holds_on_core, rule holds_conseq [OF holds_read_state]) (use assms in \<open>auto simp: mem_in_def ficr_is_def\<close>)
  then show ?thesis by (rule holds_conseq) (auto simp: board_def)
qed

section \<open>Installing a key\<close>

text \<open>What the tool relies on from probe-rs with \<open>do_chip_erase\<close> off, and from reading a log: the
  key record is not touched.\<close>

definition keeps_record :: "(core, 'e, 'a) comp \<Rightarrow> bool" where
  "keeps_record f \<longleftrightarrow> (\<forall>sc m. holds (at_mem sc m) f (\<lambda>_. mem_in sc (\<lambda>m'. record_words m' = record_words m))
     (\<lambda>_. mem_in sc (\<lambda>m'. record_words m' = record_words m)))"

definition setup_ok :: "bench_setup \<Rightarrow> bool" where
  "setup_ok su \<longleftrightarrow> (\<forall>img. keeps_record (su_download su img)) \<and> (\<forall>elf logs. keeps_record (su_stream su elf logs))"

abbreviation has_record :: "device_key \<Rightarrow> (nat \<Rightarrow> u32) \<Rightarrow> bool" where
  "has_record key \<equiv> \<lambda>m. record_words m = uicr_encode key"

lemma holds_keeps_record:
  assumes "keeps_record f"
  shows "holds (board N sc (has_record key)) (on_core f) (\<lambda>_. board N sc (has_record key)) (\<lambda>_. board N sc (has_record key))"
  using assms unfolding keeps_record_def
  by (intro holds_on_core) (rule holds_conseq, blast, auto simp: mem_in_def)

lemma keeps_record_flash:
  assumes "keeps_record download"
  shows "keeps_record (chip_flash download start)"
  unfolding keeps_record_def
proof (intro allI)
  fix sc m
  let ?I = "mem_in sc (\<lambda>m'. record_words m' = record_words m)"
  have self: "at_mem sc m c \<Longrightarrow> ?I c" for c by (auto simp: mem_in_def)
  have c: "holds (at_mem sc m) (with_err FlashProbe probe_control) (\<lambda>_. at_mem sc m) (\<lambda>_. ?I)"
    by (rule holds_with_err, rule holds_conseq [OF holds_probe_control_mem]) (use self in auto)
  have r: "holds (at_mem sc m) (with_err FlashProbe (read_word_32 0)) (\<lambda>_. at_mem sc m) (\<lambda>_. ?I)"
    by (rule holds_with_err, rule holds_at_mem, rule holds_conseq [OF holds_read_word_32])
       (use self in \<open>auto simp: nvmc_addresses at_def at_mem_def\<close>)
  have d: "holds (at_mem sc m) (with_err Download download) (\<lambda>_. ?I) (\<lambda>_. ?I)"
    using assms by (intro holds_with_err) (simp add: keeps_record_def)
  show "holds (at_mem sc m) (chip_flash download start) (\<lambda>_. ?I) (\<lambda>_. ?I)"
    unfolding chip_flash_def
  proof (rule holds_and_then [where R = "\<lambda>_. at_mem sc m", OF holds_if [OF _ holds_return] d])
    show "holds (at_mem sc m) (and_then (with_err FlashProbe probe_control) (\<lambda>_.
          and_then (with_err FlashProbe (read_word_32 0)) (\<lambda>beneath.
            if beneath = ERASED then throw (NothingBeneath start) else return_ok ()))) (\<lambda>_. at_mem sc m) (\<lambda>_. ?I)"
      by (intro holds_and_then [OF c] holds_and_then [OF r] holds_if holds_throw holds_return self)
  qed simp
qed

lemma record_not_flash: "i < UICR_RECORD_WORDS \<Longrightarrow> \<not> in_flash (UICR_CUSTOMER + 4 * i)"
  by (simp add: in_flash_def UICR_CUSTOMER_def)

lemma holds_storage_record:
  assumes "beyond \<le> 2 ^ 32"
  shows "holds (board N sc (has_record key)) (on_core (erase_storage first beyond)) (\<lambda>_. board N sc (has_record key))
    (\<lambda>_. board N sc (\<lambda>_. True))"
proof (rule holds_on_core, rule holds_conseq [OF holds_erase_storage [OF assms]])
  fix m u c
  let ?m' = "\<lambda>x. if in_flash x \<and> first \<le> x \<and> x < beyond then ERASED else m x"
  assume key: "has_record key m" and post: "first < beyond \<and> first mod PAGE_SIZE = 0 \<and> beyond mod PAGE_SIZE = 0
      \<and> at sc 0 ?m' c \<and> words_at (core_mem c) first ((beyond - first) div 4) = replicate ((beyond - first) div 4) ERASED"
  have "record_words ?m' = record_words m"
    using record_not_flash by (auto simp: record_words_def words_at_def)
  then show "mem_in sc (has_record key) c"
    using key post by (auto simp: mem_in_def at_def at_mem_def intro!: exI [of _ ?m'])
qed (auto simp: mem_in_def)

definition storage_ok :: "(artifact \<times> string) option \<Rightarrow> bool" where
  "storage_ok firmware \<longleftrightarrow>
     (case firmware of None \<Rightarrow> True
      | Some (a, _) \<Rightarrow> (case storage_range a of None \<Rightarrow> True | Some (_, beyond) \<Rightarrow> beyond \<le> 2 ^ 32))"

lemma holds_install_steps:
  assumes "key_ok key" "setup_ok su" "storage_ok firmware"
  shows "holds (board N sc R) (install_steps su record key firmware logs) (\<lambda>_. board N sc (has_record key))
    (\<lambda>_. board N sc (\<lambda>_. True))"
proof -
  let ?T = "board N sc (\<lambda>_. True)" and ?K = "board N sc (has_record key)"
  have any: "board N sc S b \<Longrightarrow> ?T b" for S b by (simp add: board_def)
  have "holds (board N sc R) (on_core erase_uicr_record) (\<lambda>_. ?T) (\<lambda>_. ?T)"
    by (rule holds_on_core, rule holds_conseq [OF holds_erase_uicr_record]) (auto simp: mem_in_def at_def at_mem_def)
  then have 1: "holds (board N sc R)
      (if \<not> is_blank record then with_err InstallRecord (on_core erase_uicr_record) else return_ok ()) (\<lambda>_. ?T) (\<lambda>_. ?T)"
    by (intro holds_if holds_with_err holds_return any)
  have "holds ?T (on_core (write_uicr_record key)) (\<lambda>_. ?K) (\<lambda>_. ?T)"
    by (rule holds_on_core, rule holds_conseq [OF holds_write_uicr_record [OF assms(1)]])
       (auto simp: mem_in_def at_def at_mem_def)
  then have 2: "holds ?T (with_err InstallRecord (on_core (write_uicr_record key))) (\<lambda>_. ?K) (\<lambda>_. ?T)"
    by (rule holds_with_err)
  have flash: "holds ?K (with_err InstallFlash (flash_image su a img)) (\<lambda>_. ?K) (\<lambda>_. ?T)" for a img
    unfolding flash_image_def
    by (rule holds_with_err, rule holds_conseq [OF holds_keeps_record [OF keeps_record_flash, where key = key]])
       (use assms(2) any in \<open>auto simp: setup_ok_def\<close>)
  have 3: "holds ?K (install_firmware su firmware) (\<lambda>_. ?K) (\<lambda>_. ?T)"
  proof (cases firmware)
    case None
    then show ?thesis by (simp add: install_firmware_def holds_return)
  next
    case (Some f)
    obtain a img where f: "f = (a, img)" by fastforce
    have "holds ?K (case storage_range a of None \<Rightarrow> return_ok ()
        | Some (first, beyond) \<Rightarrow> with_err InstallStorage (on_core (erase_storage first beyond))) (\<lambda>_. ?K) (\<lambda>_. ?T)"
      using assms(3) Some f
      by (cases "storage_range a") (auto simp: storage_ok_def holds_return intro!: holds_with_err holds_storage_record)
    then show ?thesis using Some f by (auto simp: install_firmware_def intro!: holds_and_then [OF flash])
  qed
  have 4: "holds ?K (with_err InstallReset (on_core chip_reset)) (\<lambda>_. ?K) (\<lambda>_. ?T)"
    by (rule holds_with_err, rule holds_conseq [OF holds_reset [where R = "has_record key"]]) (use any in auto)
  have boot: "holds ?K (report_boot su img logs) (\<lambda>_. ?K) (\<lambda>_. ?T)" for img
  proof -
    have s: "holds ?K (on_core (ignoring (su_stream su elf logs) :: (core, io_error, unit) comp)) (\<lambda>_. ?K) (\<lambda>_. ?T)" for elf
    proof (rule holds_conseq [of ?K _ "\<lambda>_. ?K" "\<lambda>_. ?K"])
      have "keeps_record (ignoring (su_stream su elf logs) :: (core, io_error, unit) comp)"
        using assms(2) by (auto simp: keeps_record_def setup_ok_def intro!: holds_ignoring)
      then show "holds ?K (on_core (ignoring (su_stream su elf logs) :: (core, io_error, unit) comp)) (\<lambda>_. ?K) (\<lambda>_. ?K)"
        by (rule holds_keeps_record)
    qed (use any in auto)
    have "holds ?K (on_files (fs_read img)) (\<lambda>_. ?K) (\<lambda>_. ?T)"
      by (rule holds_conseq [OF holds_frame_files [where R = "has_record key"]]) (use any in auto)
    then show ?thesis unfolding report_boot_def by (intro holds_if holds_return holds_and_then [OF _ s])
  qed
  have 5: "holds ?K (case firmware of None \<Rightarrow> return_ok () | Some (_, img) \<Rightarrow> with_err InstallImage (report_boot su img logs))
      (\<lambda>_. ?K) (\<lambda>_. ?T)"
    by (cases firmware) (auto intro!: holds_with_err boot holds_return)
  show ?thesis unfolding install_steps_def
    by (intro holds_and_then [OF 1] holds_and_then [OF 2] holds_and_then [OF 3] holds_and_then [OF 4 5])
qed

lemma holds_install_key:
  assumes "key_ok key" "setup_ok su" "storage_ok firmware" "dkr_key response = key_to_hex key"
  shows "holds (board N sc R) (install_key su record response firmware logs) (\<lambda>_. board N sc (has_record key))
    (\<lambda>e b. board N sc (\<lambda>_. True) b \<and> (\<exists>ie. e = InstallFailed ie))"
proof -
  have "install_key su record response firmware logs = with_err InstallFailed (install_steps su record key firmware logs)"
    using key_from_to_hex [OF assms(1)] assms(4)
    by (intro ext) (simp add: install_key_def and_then_def lift_result_def)
  then show ?thesis
    by (simp only:) (rule holds_with_err, rule holds_conseq [OF holds_install_steps [OF assms(1-3)]], auto)
qed

section \<open>The service's side\<close>

definition service_ok :: "network \<Rightarrow> bool" where
  "service_ok net \<longleftrightarrow>
     xaead_ok (net_xaead net) \<and> ring_ok (keyring (svc_registry (net_service net)))
     \<and> db_ok (svc_db (net_service net)) \<and> coherent (net_xaead net) (svc_registry (net_service net)) (svc_db (net_service net))
     \<and> (\<forall>n. length (ex_iv (net_script net n)) = NONCE_SIZE
          \<and> (\<forall>bs. ex_random (net_script net n) = Inr bs \<longrightarrow> length bs = DEVICE_KEY_SIZE))"

text \<open>The service opens the device's packets with this key.\<close>

definition service_has :: "network \<Rightarrow> device_addr \<Rightarrow> device_key \<Rightarrow> bool" where
  "service_has net a key \<longleftrightarrow>
     (\<exists>d. registry_get (svc_registry (net_service net)) a = Some d \<and> reg_addr d = a
        \<and> cipher_key (reg_cipher d) = key \<and> cipher_addr (reg_cipher d) = a)"

lemma cipher_of_service:
  assumes "service_has net a key"
  obtains d where "registry_get (svc_registry (net_service net)) a = Some d" "reg_cipher d = cipher_new key a"
  using assms unfolding service_has_def by (metis cipher_new_def packet_cipher.surjective old.unit.exhaust)

lemma call_service:
  assumes "call t h net = (r, net')"
  shows "net_script net' = net_script net" "net_xaead net' = net_xaead net"
    and "net_service net' = net_service net
       \<or> net_service net' = snd (h (net_script net (net_calls net)) (net_xaead net) (net_service net))"
  using assms unfolding call_def guarded_def Let_def by (auto split: if_splits prod.splits sum.splits)

lemma call_Inr:
  assumes "call t h net = (Inr v, net')"
  shows "\<exists>status svc'. h (net_script net (net_calls net)) (net_xaead net) (net_service net) = (Some (Inr (status, v)), svc')
     \<and> net_service net' = svc'"
proof -
  let ?ex = "net_script net (net_calls net)"
  obtain r svc' where g: "guarded (net_admin_token net) t (h ?ex (net_xaead net)) (net_service net) = (r, svc')" by fastforce
  have sv: "net_service net' = svc'" and r: "\<exists>status. r = Some (Inr (status, v))"
    using assms g
    by (auto simp: call_def Let_def served_def handle_response_def reject_on_error_status_def
        split: if_splits option.splits sum.splits prod.splits)
  then have "h ?ex (net_xaead net) (net_service net) = (r, svc')"
    using g by (auto simp: guarded_def split: sum.splits)
  then show ?thesis using r sv by blast
qed

lemma client_device_service:
  assumes "client_device t a net = (r, net')"
  shows "net_service net' = net_service net \<and> net_script net' = net_script net \<and> net_xaead net' = net_xaead net"
proof -
  obtain q net1 where q: "call t (serve_get a) net = (q, net1)" by fastforce
  then have "net' = net1" using assms by (simp add: client_device_def)
  then show ?thesis using call_service [OF q] by (auto simp: serve_get_def)
qed

lemma check_auth_service:
  assumes "client_check_auth t net = (r, net')"
  shows "net_service net' = net_service net \<and> net_script net' = net_script net \<and> net_xaead net' = net_xaead net"
proof -
  let ?h = "\<lambda>ex X svc. case serve_list ex X svc of (r, svc') \<Rightarrow> (map_option (map_ok (\<lambda>(s, _). (s, ()))) r, svc')"
  obtain q net1 where q: "call t ?h net = (q, net1)" by fastforce
  then have "net' = net1"
    using assms by (auto simp: client_check_auth_def split: sum.splits client_error.splits)
  then show ?thesis using call_service [OF q] by (auto simp: serve_list_def)
qed

lemma same_service_ok:
  "net_service net' = net_service net \<and> net_script net' = net_script net \<and> net_xaead net' = net_xaead net \<Longrightarrow>
   service_ok net' = service_ok net"
  by (simp add: service_ok_def)

lemma expected_entry_addr: "expected_entry X ring db a = Some d \<Longrightarrow> reg_addr d = a \<and> cipher_addr (reg_cipher d) = a"
  by (auto simp: expected_entry_def load_entry_def register_def cipher_new_def dest: record_of_row_addr find_row_Some
      split: option.splits sum.splits)

lemma published:
  assumes "coherent X reg db"
    and "\<And>b. expected_entry X (keyring reg) db1 b = (if b = a then Some d else expected_entry X (keyring reg) db b)"
  shows "coherent X (publish reg a d) db1" "registry_get (publish reg a d) a = Some d" "reg_addr d = a"
    "cipher_addr (reg_cipher d) = a"
  using assms expected_entry_addr [of X "keyring reg" db1 a d] by (auto simp: coherent_def publish_def registry_get_def)

text \<open>A key the service handed out is the one it opens packets with.\<close>

definition minted :: "device_addr \<Rightarrow> device_key_response \<Rightarrow> device_key \<Rightarrow> network \<Rightarrow> bool" where
  "minted a resp key net \<longleftrightarrow>
     key_ok key \<and> dkr_key resp = key_to_hex key \<and> dkr_addr resp = a \<and> service_has net a key"

lemma client_provision_minted:
  assumes ok: "service_ok net" and run: "client_provision t name a net = (Inr resp, net')"
  shows "\<exists>key. minted a resp key net'"
proof -
  define ex where "ex = net_script net (net_calls net)"
  define X where "X = net_xaead net"
  define reg where "reg = svc_registry (net_service net)"
  define db where "db = svc_db (net_service net)"
  obtain status svc' where h: "serve_provision name a ex X (net_service net) = (Some (Inr (status, resp)), svc')"
    "net_service net' = svc'"
    using call_Inr [of t "serve_provision name a" net] run unfolding client_provision_def ex_def X_def by blast
  obtain q db1 where q: "provision_store X reg (ex_random ex) (ex_iv ex) (ex_fault ex) (ex_fault2 ex) (\<lambda>d. d) (ex_now ex) a name db = (q, db1)"
    by fastforce
  obtain d key where dk: "q = Some (Inr (d, key))" "svc' = \<lparr>svc_registry = publish reg a d, svc_db = db1\<rparr>" "resp = key_response (d, key)"
    using h(1) q unfolding serve_provision_def provision_device_def registry_provision_def reg_def [symmetric] db_def [symmetric] q
    by (cases "(reg, a, q, db1)" rule: finish_store.cases) (auto simp: respond_key_def)
  obtain bs where bs: "ex_random ex = Inr bs"
    using q dk(1) by (cases "ex_random ex") (auto simp: provision_store_def generate_key_def)
  have len: "length bs = DEVICE_KEY_SIZE" "length (ex_iv ex) = NONCE_SIZE"
    using ok bs by (auto simp: service_ok_def ex_def)
  note s = provision_store_Inr [OF _ _ len(2,1) q [unfolded bs dk(1)]]
  have ok': "xaead_ok X" "ring_ok (keyring reg)" "coherent X reg db" using ok by (simp_all add: service_ok_def X_def reg_def db_def)
  note p = published [OF ok'(3) s(4) [OF ok'(1,2)]]
  have "key_ok key" using s(1) [OF ok'(1,2)] len(1) by (simp add: key_ok_def)
  then show ?thesis
    using s(2) [OF ok'(1,2)] p h(2) dk by (auto simp: minted_def service_has_def key_response_def)
qed

lemma client_rotate_minted:
  assumes ok: "service_ok net" and run: "client_rotate_key t a net = (Inr resp, net')"
  shows "\<exists>key. minted a resp key net'"
proof -
  define ex where "ex = net_script net (net_calls net)"
  define X where "X = net_xaead net"
  define reg where "reg = svc_registry (net_service net)"
  define db where "db = svc_db (net_service net)"
  obtain status svc' where h: "serve_rotate a ex X (net_service net) = (Some (Inr (status, resp)), svc')"
    "net_service net' = svc'"
    using call_Inr [of t "serve_rotate a" net] run unfolding client_rotate_key_def ex_def X_def by blast
  obtain q db1 where q: "rotate_store X reg (ex_random ex) (ex_iv ex) (ex_fault ex) (ex_now ex) a db = (q, db1)"
    by fastforce
  obtain d key where dk: "q = Some (Inr (d, key))" "svc' = \<lparr>svc_registry = publish reg a d, svc_db = db1\<rparr>" "resp = key_response (d, key)"
    using h(1) q unfolding serve_rotate_def rotate_device_key_def registry_rotate_key_def reg_def [symmetric] db_def [symmetric] q
    by (cases "(reg, a, q, db1)" rule: finish_store.cases) (auto simp: respond_key_def)
  obtain bs where bs: "ex_random ex = Inr bs"
    using q dk(1) by (cases "ex_random ex") (auto simp: rotate_store_def generate_key_def)
  have len: "length bs = DEVICE_KEY_SIZE" "length (ex_iv ex) = NONCE_SIZE"
    using ok bs by (auto simp: service_ok_def ex_def)
  have ok': "xaead_ok X" "ring_ok (keyring reg)" "coherent X reg db" "db_ok db"
    using ok by (simp_all add: service_ok_def X_def reg_def db_def)
  note s = rotate_store_Inr [OF ok'(1,2) len(2) ok'(4) len(1) q [unfolded bs dk(1)]]
  note p = published [OF ok'(3) s(3)]
  have "key_ok key" using s(1) len(1) by (simp add: key_ok_def)
  then show ?thesis
    using s(2) p h(2) dk by (auto simp: minted_def service_has_def key_response_def)
qed

lemma mint_key_Inr: "mint_key t a before request net = (Inr resp, net') \<Longrightarrow> request net = (Inr resp, net')"
  by (auto simp: mint_key_def or_else_def throw_def split: prod.splits sum.splits if_splits)

text \<open>A request the service refused changed nothing.\<close>

lemma call_refused:
  assumes "call t h net = (Inl e, net')" "\<not> may_have_committed e"
    and "\<And>s v svc'. h (net_script net (net_calls net)) (net_xaead net) (net_service net) = (Some (Inr (s, v)), svc') \<Longrightarrow> is_success s"
    and "\<And>f svc'. h (net_script net (net_calls net)) (net_xaead net) (net_service net) = (Some (Inl f), svc') \<Longrightarrow> svc' = net_service net"
  shows "net_service net' = net_service net"
proof -
  let ?ex = "net_script net (net_calls net)"
  obtain r svc' where g: "guarded (net_admin_token net) t (h ?ex (net_xaead net)) (net_service net) = (r, svc')" by fastforce
  obtain q svc1 where q: "h ?ex (net_xaead net) (net_service net) = (q, svc1)" by fastforce
  consider "svc' = net_service net" | "r = q" "svc' = svc1"
    using g q by (auto simp: guarded_def split: sum.splits)
  then show ?thesis
  proof cases
    case 1
    then show ?thesis using assms(1) g by (auto simp: call_def Let_def split: if_splits prod.splits sum.splits)
  next
    case 2
    show ?thesis
    proof (cases "\<exists>f. q = Some (Inl f)")
      case True
      then show ?thesis using assms(1) assms(4) g q 2
        by (auto simp: call_def Let_def split: if_splits prod.splits sum.splits)
    next
      case False
      then show ?thesis
        using assms(1,2) assms(3) g q 2
        by (auto simp: call_def Let_def served_def handle_response_def reject_on_error_status_def
            split: if_splits option.splits sum.splits prod.splits)
    qed
  qed
qed

lemma serve_provision_result:
  assumes "serve_provision name a ex X svc = (Some r, svc')"
  shows "(case r of Inr (s, v) \<Rightarrow> is_success s | Inl e \<Rightarrow> svc' = svc)"
proof -
  obtain q db1 where q: "provision_store X (svc_registry svc) (ex_random ex) (ex_iv ex) (ex_fault ex) (ex_fault2 ex) (\<lambda>d. d)
      (ex_now ex) a name (svc_db svc) = (q, db1)" by fastforce
  consider "q = None" | e where "q = Some (Inl e)" | d key where "q = Some (Inr (d, key))" by (cases q) (auto, metis sum.exhaust surj_pair)
  then show ?thesis
  proof cases
    case 2
    then show ?thesis
      using assms q provision_store_failed [of X "svc_registry svc" _ _ _ _ _ a name "svc_db svc"]
      by (auto simp: serve_provision_def provision_device_def registry_provision_def respond_key_def)
  qed (use assms q in \<open>auto simp: serve_provision_def provision_device_def registry_provision_def respond_key_def is_success_def\<close>)
qed

lemma serve_rotate_result:
  assumes "serve_rotate a ex X svc = (Some r, svc')"
  shows "(case r of Inr (s, v) \<Rightarrow> is_success s | Inl e \<Rightarrow> svc' = svc)"
proof -
  obtain q db1 where q: "rotate_store X (svc_registry svc) (ex_random ex) (ex_iv ex) (ex_fault ex) (ex_now ex) a (svc_db svc) = (q, db1)"
    by fastforce
  consider "q = None" | e where "q = Some (Inl e)" | d key where "q = Some (Inr (d, key))" by (cases q) (auto, metis sum.exhaust surj_pair)
  then show ?thesis
  proof cases
    case 2
    then show ?thesis
      using assms q rotate_store_failed [of X "svc_registry svc" _ _ _ _ a "svc_db svc"]
      by (auto simp: serve_rotate_def rotate_device_key_def registry_rotate_key_def respond_key_def)
  qed (use assms q in \<open>auto simp: serve_rotate_def rotate_device_key_def registry_rotate_key_def respond_key_def is_success_def\<close>)
qed

lemma client_refused:
  assumes "client_provision t name a net = (Inl e, net') \<or> client_rotate_key t a net = (Inl e, net')" "\<not> may_have_committed e"
  shows "net_service net' = net_service net"
  using assms(1)
proof
  assume "client_provision t name a net = (Inl e, net')"
  then show ?thesis unfolding client_provision_def
    by (rule call_refused [OF _ assms(2)]) (use serve_provision_result in \<open>fastforce+\<close>)
next
  assume "client_rotate_key t a net = (Inl e, net')"
  then show ?thesis unfolding client_rotate_key_def
    by (rule call_refused [OF _ assms(2)]) (use serve_rotate_result in \<open>fastforce+\<close>)
qed

lemma mint_key_Inl:
  assumes "mint_key t a before request net = (Inl e, net')"
    and "\<And>err net1. request net = (Inl err, net1) \<Longrightarrow> \<not> may_have_committed err \<Longrightarrow> net_service net1 = net_service net"
  shows "(\<exists>v err. e = MintFailed v err) \<or> net_service net' = net_service net"
  using assms by (auto simp: mint_key_def or_else_def throw_def split: prod.splits sum.splits if_splits)

section \<open>The commands\<close>

definition wiped :: "(nat \<Rightarrow> u32) \<Rightarrow> nat \<Rightarrow> u32" where
  "wiped m x = (if in_flash x \<or> in_uicr x then ERASED else m x)"

lemma ficr_wiped: "ficr_is a (wiped m) = ficr_is a m"
  by (simp add: ficr_is_def wiped_def in_flash_def in_uicr_def FICR_DEVICE_ADDR_def)

lemma holds_erase_to_unlock:
  "holds (at_mem sc m) erase_to_unlock (\<lambda>_. at_mem sc (wiped m)) (\<lambda>_ c. at_mem sc m c \<or> at_mem sc (wiped m) c)"
  by (auto simp: holds_def erase_to_unlock_def probe_access_def at_mem_def wiped_def Let_def split: option.splits)

text \<open>What the first half of a run keeps: anything about the service that the network's clock-work does
  not decide, and anything about the memory that an unlock, if one was asked for, does not erase.\<close>

definition net_fact :: "(network \<Rightarrow> bool) \<Rightarrow> bool" where
  "net_fact N \<longleftrightarrow> (\<forall>n n'. N n \<longrightarrow> net_service n' = net_service n \<and> net_script n' = net_script n \<and> net_xaead n' = net_xaead n \<longrightarrow> N n')"

lemma holds_net_frame:
  assumes "net_fact N"
    and "\<And>n r n'. f n = (r, n') \<Longrightarrow> net_service n' = net_service n \<and> net_script n' = net_script n \<and> net_xaead n' = net_xaead n"
  shows "holds (board N sc R) (on_net f) (\<lambda>_. board N sc R) (\<lambda>_. board N sc R)"
proof (rule holds_on_net, rule holdsI)
  fix n x n' assume "N n" "f n = (Inr x, n')" then show "N n'" using assms unfolding net_fact_def by blast
next
  fix n e n' assume "N n" "f n = (Inl e, n')" then show "N n'" using assms unfolding net_fact_def by blast
qed

lemma holds_connect:
  assumes "\<And>m. unlock \<Longrightarrow> R m \<Longrightarrow> R (wiped m)"
  shows "holds (board N sc R) (connect su probe unlock yes) (\<lambda>_. board N sc R) (\<lambda>_. board N sc R)"
proof -
  have e: "holds (board N sc R) (with_err (\<lambda>e. CmdConnect (ConnectProbe e)) (on_core erase_to_unlock))
      (\<lambda>_. board N sc R) (\<lambda>_. board N sc R)" if unlock
    by (rule holds_with_err, rule holds_on_core, rule holds_conseq [OF holds_erase_to_unlock])
       (use assms [OF that] in \<open>auto simp: mem_in_def\<close>)
  have t: "holds (board N sc R) (with_err CmdConfirm (on_tty (typed BlindErase ''ERASE'' yes))) (\<lambda>_. board N sc R) (\<lambda>_. board N sc R)"
    by (rule holds_with_err) (rule holds_frame_tty)
  show ?thesis unfolding connect_def
    by (auto split: sum.split connection.split intro!: holds_throw holds_return holds_and_then [OF t] e)
qed

lemma choose_firmware_stored:
  assumes "choose_firmware store name t = (Inr (a, p), t')"
  shows "a \<in> set (fst_artifacts store)"
proof (cases name)
  case None
  then obtain l where "firmware_pick (fst_artifacts store) (tty_stdin_is_terminal t) l = Inr a"
    using assms by (auto simp: choose_firmware_def map_ok_Inr_iff split: sum.splits)
  then show ?thesis by (auto simp: firmware_pick_def split: if_splits sum.splits option.splits)
next
  case (Some n)
  then have "firmware_get store n = Some a"
    using assms by (cases "firmware_get store n") (auto simp: choose_firmware_def)
  then show ?thesis by (auto simp: firmware_get_def find_Some_iff)
qed

lemma optional_firmware_stored:
  "optional_firmware store name t = (Inr (Some (a, p)), t') \<Longrightarrow> a \<in> set (fst_artifacts store)"
  by (auto simp: optional_firmware_def return_ok_def and_then_Inr_iff split: option.splits dest: choose_firmware_stored)

definition ranges_ok :: "firmware_store \<Rightarrow> bool" where
  "ranges_ok store \<longleftrightarrow> (\<forall>a\<in>set (fst_artifacts store). \<forall>p. storage_ok (Some (a, p)))"

lemma holds_identify:
  assumes "net_fact N" "\<And>m. R m \<Longrightarrow> ficr_is a m" "\<And>m. pa_unlock args \<Longrightarrow> R m \<Longrightarrow> R (wiped m)" "ranges_ok (pa_store args)"
  shows "holds (board N sc R) (identify su args)
    (\<lambda>(firmware, t, state, registered) b. board N sc R b \<and> cs_device_addr state = a \<and> storage_ok firmware)
    (\<lambda>_. board N sc R)"
proof -
  let ?B = "board N sc R"
  have 1: "holds ?B (on_tty (optional_firmware (pa_store args) (pa_firmware args))) (\<lambda>fw b. ?B b \<and> storage_ok fw) (\<lambda>_. ?B)"
  proof (rule holdsI)
    fix b fw b' assume B: "?B b" and r: "on_tty (optional_firmware (pa_store args) (pa_firmware args)) b = (Inr fw, b')"
    have "storage_ok fw"
    proof (cases fw)
      case (Some f)
      obtain x p where f: "f = (x, p)" by fastforce
      have "x \<in> set (fst_artifacts (pa_store args))"
        using r Some f by (auto simp: on_tty_def on_part_def split: prod.splits dest: optional_firmware_stored)
      then show ?thesis using assms(4) Some f by (simp add: ranges_ok_def)
    qed (simp add: storage_ok_def)
    then show "?B b' \<and> storage_ok fw" using holds_Inr [OF holds_frame_tty B r] by simp
  next
    fix b e b' assume "?B b" "on_tty (optional_firmware (pa_store args) (pa_firmware args)) b = (Inl e, b')"
    then show "?B b'" by (rule holds_Inl [OF holds_frame_tty])
  qed
  have 2: "holds (\<lambda>b. ?B b \<and> storage_ok fw) (lift_result (pa_target args)) (\<lambda>_. ?B) (\<lambda>_. ?B)" for fw
    by (rule holds_lift) simp_all
  have 3: "holds ?B (with_err CmdClient (on_net (check_auth_before_unlock t (pa_unlock args)))) (\<lambda>_. ?B) (\<lambda>_. ?B)" for t
    by (rule holds_with_err, rule holds_net_frame [OF assms(1)])
       (auto simp: check_auth_before_unlock_def return_ok_def split: if_splits dest: check_auth_service)
  have 4: "holds ?B (connect su (pa_probe args) (pa_unlock args) (pa_yes args)) (\<lambda>_. ?B) (\<lambda>_. ?B)"
    by (rule holds_connect) (rule assms(3))
  have 5: "holds ?B (with_err CmdProbe (on_core read_state)) (\<lambda>st b. ?B b \<and> cs_device_addr st = a) (\<lambda>_. ?B)"
    by (rule holds_with_err, rule holds_conseq [OF holds_board_read_state [OF assms(2)]]) (auto simp: board_def)
  have 6: "holds ?B (with_err CmdClient (on_net (client_device t x))) (\<lambda>_. ?B) (\<lambda>_. ?B)" for t x
    by (rule holds_with_err, rule holds_net_frame [OF assms(1)]) (rule client_device_service)
  let ?Q = "\<lambda>(firmware, t, state, registered) b. ?B b \<and> cs_device_addr state = a \<and> storage_ok firmware"
  show ?thesis unfolding identify_def
  proof (rule holds_and_then [OF 1], rule holds_pure)
    fix fw assume fw: "storage_ok fw"
    show "holds ?B (and_then (lift_result (pa_target args)) (\<lambda>t.
     and_then (with_err CmdClient (on_net (check_auth_before_unlock t (pa_unlock args)))) (\<lambda>_.
     and_then (connect su (pa_probe args) (pa_unlock args) (pa_yes args)) (\<lambda>_.
     and_then (with_err CmdProbe (on_core read_state)) (\<lambda>state.
     and_then (with_err CmdClient (on_net (client_device t (cs_device_addr state)))) (\<lambda>registered.
       return_ok (fw, t, state, registered))))))) ?Q (\<lambda>_. ?B)"
      using 2 [of fw] fw
      by (intro holds_and_then [where R = "\<lambda>_. ?B", OF _ holds_and_then [OF 3]] holds_and_then [OF 4] holds_and_then [OF 5]
          holds_pure holds_and_then [OF 6] holds_return) auto
  qed
qed

text \<open>The second half of both commands, once the registry was asked.\<close>

definition keying where
  "keying su record firmware logs yes action mint =
     and_then (with_err CmdConfirm (on_tty (confirm_record record action yes))) (\<lambda>_.
     and_then (with_err CmdProbe (on_core chip_halt)) (\<lambda>_.
     and_then (on_net mint) (\<lambda>response.
     and_then (install_key su record response firmware logs) (\<lambda>_.
       return_ok (dkr_addr response, dkr_name response)))))"

definition keyed :: "device_addr \<Rightarrow> bench \<Rightarrow> bool" where
  "keyed a b \<longleftrightarrow> (\<exists>key. uicr_decode (record_words (core_mem (bench_core b))) = Provisioned key \<and> service_has (bench_net b) a key)"

lemma holds_keying:
  assumes "setup_ok su" "storage_ok firmware"
    and "\<And>net resp net'. service_ok net \<Longrightarrow> mint net = (Inr resp, net') \<Longrightarrow> \<exists>key. minted a resp key net'"
  shows "holds (board service_ok sc R) (keying su record firmware logs yes action mint)
    (\<lambda>(addr, _) b. addr = a \<and> keyed a b) (\<lambda>_ _. True)"
proof -
  have 1: "holds (board service_ok sc R) (with_err CmdConfirm (on_tty (confirm_record record action yes)))
      (\<lambda>_. board service_ok sc R) (\<lambda>_ _. True)"
    by (rule holds_with_err, rule holds_conseq [OF holds_frame_tty [where R = R and N = service_ok and sc = sc]]) auto
  have 2: "holds (board service_ok sc R) (with_err CmdProbe (on_core chip_halt)) (\<lambda>_. board service_ok sc R) (\<lambda>_ _. True)"
    by (rule holds_with_err, rule holds_conseq [OF holds_halt [where R = R and N = service_ok and sc = sc]]) auto
  have m: "holds service_ok mint (\<lambda>resp net. \<exists>key. minted a resp key net) (\<lambda>_ _. True)"
    by (rule holdsI) (use assms(3) in auto)
  have 3: "holds (board service_ok sc R) (on_net mint) (\<lambda>resp b. \<exists>key. board (minted a resp key) sc R b) (\<lambda>_ _. True)"
    by (rule holds_conseq [OF holds_on_net [OF m]]) (auto simp: board_def)
  have 4: "holds (board (minted a resp key) sc R)
      (and_then (install_key su record resp firmware logs) (\<lambda>_. return_ok (dkr_addr resp, dkr_name resp)))
      (\<lambda>(addr, _) b. addr = a \<and> keyed a b) (\<lambda>_ _. True)" for resp key
  proof (cases "key_ok key \<and> dkr_key resp = key_to_hex key \<and> dkr_addr resp = a")
    case True
    have i: "holds (board (minted a resp key) sc R) (install_key su record resp firmware logs)
        (\<lambda>_. board (minted a resp key) sc (has_record key)) (\<lambda>_ _. True)"
      by (rule holds_conseq [OF holds_install_key [where N = "minted a resp key" and sc = sc and R = R and key = key]])
         (use True assms(1,2) in auto)
    show ?thesis
      by (rule holds_and_then [OF i], rule holds_return)
         (use True uicr_decode_encode [of key] in \<open>auto simp: board_def minted_def keyed_def\<close>)
  qed (auto simp: holds_def board_def minted_def)
  show ?thesis unfolding keying_def
    by (rule holds_and_then [OF 1], rule holds_and_then [OF 2], rule holds_and_then [OF 3], rule holds_ex, rule 4)
qed

lemma provision_keying:
  "provision su args name =
     and_then (identify su args) (\<lambda>(firmware, t, state, registered).
       case registered of
         Some existing \<Rightarrow> throw (AlreadyRegistered (cs_device_addr state) (sum_name existing))
       | None \<Rightarrow> keying su (cs_record state) firmware (pa_logs args) (pa_yes args) Provision
                   (mint_key t (cs_device_addr state) None (client_provision t name (cs_device_addr state))))"
  unfolding provision_def keying_def ..

lemma rotate_keying:
  "rotate_key su args =
     and_then (identify su args) (\<lambda>(firmware, t, state, registered).
       case registered of
         None \<Rightarrow> throw (NotRegistered (cs_device_addr state))
       | Some existing \<Rightarrow> keying su (cs_record state) firmware (pa_logs args) (pa_yes args) (Rotate (sum_name existing))
                   (mint_key t (cs_device_addr state) (Some (sum_key_valid_from existing))
                     (client_rotate_key t (cs_device_addr state))))"
  unfolding rotate_key_def keying_def ..

lemma net_fact_service_ok: "net_fact service_ok"
  unfolding net_fact_def using same_service_ok by blast

lemma keying_commands:
  assumes "setup_ok su" "ranges_ok (pa_store args)"
  shows "holds (board service_ok sc (ficr_is a)) (provision su args name) (\<lambda>(addr, _) b. addr = a \<and> keyed a b) (\<lambda>_ _. True)"
    and "holds (board service_ok sc (ficr_is a)) (rotate_key su args) (\<lambda>(addr, _) b. addr = a \<and> keyed a b) (\<lambda>_ _. True)"
proof -
  let ?I = "\<lambda>(firmware, t, state, registered) b. board service_ok sc (ficr_is a) b \<and> cs_device_addr state = a \<and> storage_ok firmware"
  have id: "holds (board service_ok sc (ficr_is a)) (identify su args) ?I (\<lambda>_ _. True)"
    by (rule holds_conseq [OF holds_identify [OF net_fact_service_ok, where R = "ficr_is a" and a = a and sc = sc]])
       (use assms(2) ficr_wiped in auto)
  have pro: "\<exists>key. minted a resp key net'"
    if "service_ok net" "mint_key t a before (client_provision t name a) net = (Inr resp, net')" for t before net resp net'
    by (rule client_provision_minted [OF that(1) mint_key_Inr [OF that(2)]])
  have rot: "\<exists>key. minted a resp key net'"
    if "service_ok net" "mint_key t a before (client_rotate_key t a) net = (Inr resp, net')" for t before net resp net'
    by (rule client_rotate_minted [OF that(1) mint_key_Inr [OF that(2)]])
  show "holds (board service_ok sc (ficr_is a)) (provision su args name) (\<lambda>(addr, _) b. addr = a \<and> keyed a b) (\<lambda>_ _. True)"
    unfolding provision_keying
  proof (rule holds_and_then [OF id])
    fix x :: "(artifact \<times> string) option \<times> api_target \<times> chip_state \<times> device_summary option"
    obtain fw t state registered where x: "x = (fw, t, state, registered)" by (cases x) auto
    show "holds (?I x) ((\<lambda>(firmware, t, state, registered).
       case registered of
         Some existing \<Rightarrow> throw (AlreadyRegistered (cs_device_addr state) (sum_name existing))
       | None \<Rightarrow> keying su (cs_record state) firmware (pa_logs args) (pa_yes args) Provision
                   (mint_key t (cs_device_addr state) None (client_provision t name (cs_device_addr state)))) x)
      (\<lambda>(addr, _) b. addr = a \<and> keyed a b) (\<lambda>_ _. True)"
      unfolding x prod.case
    proof (rule holds_pure)
      assume st: "cs_device_addr state = a \<and> storage_ok fw"
      show "holds (board service_ok sc (ficr_is a)) (case registered of
         Some existing \<Rightarrow> throw (AlreadyRegistered (cs_device_addr state) (sum_name existing))
       | None \<Rightarrow> keying su (cs_record state) fw (pa_logs args) (pa_yes args) Provision
                   (mint_key t (cs_device_addr state) None (client_provision t name (cs_device_addr state)))) (\<lambda>(addr, _) b. addr = a \<and> keyed a b) (\<lambda>_ _. True)"
        using st
      proof (cases registered)
        case None
        have "holds (board service_ok sc (ficr_is a)) (keying su (cs_record state) fw (pa_logs args) (pa_yes args) act mint)
            (\<lambda>(addr, _) b. addr = a \<and> keyed a b) (\<lambda>_ _. True)"
          if "mint = mint_key t a bf (client_provision t name a)" for act mint and bf :: "int option"
          by (rule holds_keying [OF assms(1)]) (use st that pro in blast)+
        then show ?thesis using st None by simp
      qed (simp add: holds_throw)
    qed
  qed
  show "holds (board service_ok sc (ficr_is a)) (rotate_key su args) (\<lambda>(addr, _) b. addr = a \<and> keyed a b) (\<lambda>_ _. True)"
    unfolding rotate_keying
  proof (rule holds_and_then [OF id])
    fix x :: "(artifact \<times> string) option \<times> api_target \<times> chip_state \<times> device_summary option"
    obtain fw t state registered where x: "x = (fw, t, state, registered)" by (cases x) auto
    show "holds (?I x) ((\<lambda>(firmware, t, state, registered).
       case registered of
         None \<Rightarrow> throw (NotRegistered (cs_device_addr state))
       | Some existing \<Rightarrow> keying su (cs_record state) firmware (pa_logs args) (pa_yes args) (Rotate (sum_name existing))
                   (mint_key t (cs_device_addr state) (Some (sum_key_valid_from existing))
                     (client_rotate_key t (cs_device_addr state)))) x)
      (\<lambda>(addr, _) b. addr = a \<and> keyed a b) (\<lambda>_ _. True)"
      unfolding x prod.case
    proof (rule holds_pure)
      assume st: "cs_device_addr state = a \<and> storage_ok fw"
      show "holds (board service_ok sc (ficr_is a)) (case registered of
         None \<Rightarrow> throw (NotRegistered (cs_device_addr state))
       | Some existing \<Rightarrow> keying su (cs_record state) fw (pa_logs args) (pa_yes args) (Rotate (sum_name existing))
                   (mint_key t (cs_device_addr state) (Some (sum_key_valid_from existing))
                     (client_rotate_key t (cs_device_addr state)))) (\<lambda>(addr, _) b. addr = a \<and> keyed a b) (\<lambda>_ _. True)"
        using st
      proof (cases registered)
        case (Some existing)
        have "holds (board service_ok sc (ficr_is a)) (keying su (cs_record state) fw (pa_logs args) (pa_yes args) act mint)
            (\<lambda>(addr, _) b. addr = a \<and> keyed a b) (\<lambda>_ _. True)"
          if "mint = mint_key t a bf (client_rotate_key t a)" for act mint and bf :: "int option"
          by (rule holds_keying [OF assms(1)]) (use st that rot in blast)+
        then show ?thesis using st Some by simp
      qed (simp add: holds_throw)
    qed
  qed
qed

text \<open>How a run may fail.\<close>

definition harmless :: "service \<Rightarrow> (nat \<Rightarrow> u32) \<Rightarrow> command_error \<Rightarrow> bench \<Rightarrow> bool" where
  "harmless svc m e b \<longleftrightarrow>
     (\<exists>ie. e = InstallFailed ie)
     \<or> core_mem (bench_core b) = m
       \<and> ((\<exists>v err. e = MintFailed v err) \<or> (\<exists>fe. e = BadKey fe) \<or> net_service (bench_net b) = svc)"

lemma install_key_Inl:
  "install_key su record response firmware logs b = (Inl e, b') \<Longrightarrow> (\<exists>ie. e = InstallFailed ie) \<or> (\<exists>fe. e = BadKey fe) \<and> b' = b"
  by (auto simp: install_key_def and_then_def lift_result_def with_err_def split: sum.splits prod.splits)

lemma holds_keying_failure:
  assumes "\<And>net err net'. mint net = (Inl err, net') \<Longrightarrow> (\<exists>v x. err = MintFailed v x) \<or> net_service net' = net_service net"
  shows "holds (board (\<lambda>n. net_service n = svc) sc (\<lambda>x. x = m)) (keying su record firmware logs yes action mint)
    (\<lambda>_ _. True) (harmless svc m)"
proof -
  let ?B = "board (\<lambda>n. net_service n = svc) sc (\<lambda>x. x = m)"
  have B: "?B b \<Longrightarrow> harmless svc m e b" for e b by (simp add: board_def harmless_def)
  have 1: "holds ?B (with_err CmdConfirm (on_tty (confirm_record record action yes))) (\<lambda>_. ?B) (harmless svc m)"
    by (rule holds_with_err, rule holds_conseq [OF holds_frame_tty [where R = "\<lambda>x. x = m" and N = "\<lambda>n. net_service n = svc" and sc = sc]])
       (use B in auto)
  have 2: "holds ?B (with_err CmdProbe (on_core chip_halt)) (\<lambda>_. ?B) (harmless svc m)"
    by (rule holds_with_err, rule holds_conseq [OF holds_halt [where R = "\<lambda>x. x = m" and N = "\<lambda>n. net_service n = svc" and sc = sc]])
       (use B in auto)
  have n: "holds (\<lambda>n. net_service n = svc) mint (\<lambda>_ _. True) (\<lambda>e n. (\<exists>v x. e = MintFailed v x) \<or> net_service n = svc)"
    by (rule holdsI) (use assms in blast)+
  have 3: "holds ?B (on_net mint) (\<lambda>_. board (\<lambda>_. True) sc (\<lambda>x. x = m)) (harmless svc m)"
    by (rule holds_conseq [OF holds_on_net [OF n]]) (auto simp: board_def harmless_def)
  have i: "holds (board (\<lambda>_. True) sc (\<lambda>x. x = m)) (install_key su record resp firmware logs) (\<lambda>_ _. True) (harmless svc m)" for resp
  proof (rule holdsI)
    fix b e b' assume "board (\<lambda>_. True) sc (\<lambda>x. x = m) b" "install_key su record resp firmware logs b = (Inl e, b')"
    then show "harmless svc m e b'" using install_key_Inl by (fastforce simp: board_def harmless_def)
  qed simp
  have 4: "holds (board (\<lambda>_. True) sc (\<lambda>x. x = m))
      (and_then (install_key su record resp firmware logs) (\<lambda>_. return_ok (dkr_addr resp, dkr_name resp))) (\<lambda>_ _. True) (harmless svc m)" for resp
    by (rule holds_and_then [OF i]) (rule holds_return, simp)
  show ?thesis unfolding keying_def
    by (rule holds_and_then [OF 1], rule holds_and_then [OF 2], rule holds_and_then [OF 3 4])
qed

lemma failing_commands:
  assumes "ranges_ok (pa_store args)" "\<not> pa_unlock args" "ficr_is a m"
  shows "holds (board (\<lambda>n. net_service n = svc) sc (\<lambda>x. x = m)) (provision su args name) (\<lambda>_ _. True) (harmless svc m)"
    and "holds (board (\<lambda>n. net_service n = svc) sc (\<lambda>x. x = m)) (rotate_key su args) (\<lambda>_ _. True) (harmless svc m)"
proof -
  let ?B = "board (\<lambda>n. net_service n = svc) sc (\<lambda>x. x = m)"
  have B: "?B b \<Longrightarrow> harmless svc m e b" for e b by (simp add: board_def harmless_def)
  have id: "holds ?B (identify su args) (\<lambda>_. ?B) (harmless svc m)"
    by (rule holds_conseq [OF holds_identify [where R = "\<lambda>x. x = m" and a = a and sc = sc and N = "\<lambda>n. net_service n = svc"]])
       (use assms B in \<open>auto simp: net_fact_def\<close>)
  have pro: "(\<exists>v x. err = MintFailed v x) \<or> net_service net' = net_service net"
    if "mint_key t x bf (client_provision t name y) net = (Inl err, net')" for t x y bf net err net'
    by (rule mint_key_Inl [OF that]) (use client_refused in blast)
  have rot: "(\<exists>v x. err = MintFailed v x) \<or> net_service net' = net_service net"
    if "mint_key t x bf (client_rotate_key t y) net = (Inl err, net')" for t x y bf net err net'
    by (rule mint_key_Inl [OF that]) (use client_refused in blast)
  show "holds ?B (provision su args name) (\<lambda>_ _. True) (harmless svc m)"
    unfolding provision_keying
  proof (rule holds_and_then [OF id], clarify)
    fix fw t state registered
    show "holds ?B (case registered of
         Some existing \<Rightarrow> throw (AlreadyRegistered (cs_device_addr state) (sum_name existing))
       | None \<Rightarrow> keying su (cs_record state) fw (pa_logs args) (pa_yes args) Provision
                   (mint_key t (cs_device_addr state) None (client_provision t name (cs_device_addr state)))) (\<lambda>_ _. True) (harmless svc m)"
      by (cases registered) (simp_all add: holds_throw B holds_keying_failure [OF pro])
  qed
  show "holds ?B (rotate_key su args) (\<lambda>_ _. True) (harmless svc m)"
    unfolding rotate_keying
  proof (rule holds_and_then [OF id], clarify)
    fix fw t state registered
    show "holds ?B (case registered of
         None \<Rightarrow> throw (NotRegistered (cs_device_addr state))
       | Some existing \<Rightarrow> keying su (cs_record state) fw (pa_logs args) (pa_yes args) (Rotate (sum_name existing))
                   (mint_key t (cs_device_addr state) (Some (sum_key_valid_from existing))
                     (client_rotate_key t (cs_device_addr state)))) (\<lambda>_ _. True) (harmless svc m)"
      by (cases registered) (simp_all add: holds_throw B holds_keying_failure [OF rot])
  qed
qed

section \<open>Properties\<close>

text \<open>C10: After \<open>provision\<close> or \<open>rotate\<close> reports success, board and fleet share the key: the board's
  record decodes to exactly the key under which the service opens the packets of the board's own
  address, which is the address reported - whatever the record held before, with or without an unlock,
  a flash and a cleared counter, and however the probe behaves.\<close>

theorem keyed_board_matches_service:
  assumes "setup_ok su" "ranges_ok (pa_store args)" "service_ok (bench_net b)" "ficr_is a (core_mem (bench_core b))"
    and "provision su args name b = (Inr (addr, nm), b') \<or> rotate_key su args b = (Inr (addr, nm), b')"
  shows "addr = a \<and> (\<exists>key. uicr_decode (record_words (core_mem (bench_core b'))) = Provisioned key
           \<and> service_has (bench_net b') a key)"
proof -
  have b: "board service_ok (core_script (bench_core b)) (ficr_is a) b" using assms(3,4) by (simp add: board_def)
  show ?thesis
    using assms(5) holds_Inr [OF keying_commands(1) [OF assms(1,2)] b] holds_Inr [OF keying_commands(2) [OF assms(1,2)] b]
    unfolding keyed_def by fastforce
qed


section \<open>A run\<close>

text \<open>A new chip on a healthy probe, a service that knows another device, a reliable network.\<close>

definition sample_exchange :: exchange where
  "sample_exchange =
     \<lparr>ex_delivered = True, ex_returned = True, ex_readable = True, ex_random = Inr (replicate 32 3),
      ex_iv = replicate 24 0, ex_fault = None, ex_fault2 = None, ex_now = 200\<rparr>"

definition sample_network :: "nat \<Rightarrow> network" where
  "sample_network calls =
     \<lparr>net_service = \<lparr>svc_registry = sample_registry, svc_db = sample_db\<rparr>, net_script = (\<lambda>_. sample_exchange),
      net_calls = calls, net_xaead = clear_xaead, net_admin_token = AdminToken ''secret''\<rparr>"

definition sample_target :: api_target where
  "sample_target = \<lparr>target_label = ''p'', target_url = ''https://h'', target_token = ''secret''\<rparr>"

definition sample_setup :: bench_setup where
  "sample_setup =
     \<lparr>su_probes = [\<lparr>pi_identifier = ''probe'', pi_serial = None\<rparr>], su_attach = (\<lambda>_. SessionOpen),
      su_download = (\<lambda>_. return_ok ()), su_stream = (\<lambda>_ _. return_ok ())\<rparr>"

definition sample_bench :: bench where
  "sample_bench =
     \<lparr>bench_core = new_chip (\<lambda>_. quiet), bench_net = sample_network 0,
      bench_tty = \<lparr>tty_stdin_is_terminal = False, tty_lines = [], tty_asked = []\<rparr>,
      bench_disk = \<lparr>dk_files = Map.empty, dk_step = 0, dk_script = (\<lambda>_. None)\<rparr>\<rparr>"

definition sample_args :: prov_args where
  "sample_args =
     \<lparr>pa_store = sample_store (\<lambda>_. None), pa_target = Inr sample_target, pa_firmware = None, pa_probe = None,
      pa_logs = 3, pa_yes = False, pa_unlock = False\<rparr>"

definition sample_addr :: device_addr where "sample_addr = from_ficr ERASED ERASED"

lemma sample_addr_absent: "find_row sample_db (addr_as_i64 sample_addr) = None"
proof -
  have "u32_from_le [0xFF, 0xFF, 0xFF, 0xFF] = ERASED" by (simp add: u32_from_le_def ERASED_def)
  then have "u32_to_le ERASED = [0xFF, 0xFF, 0xFF, 0xFF]" using u32_to_from_le [of "[0xFF, 0xFF, 0xFF, 0xFF]"] by simp
  then show ?thesis by (simp add: sample_db_def find_row_def sample_addr_def addr_as_i64_inject from_ficr_def)
qed

lemma sample_guard:
  "guarded (AdminToken ''secret'') sample_target h svc = h svc"
proof -
  have "trim_end ''secret'' = ''secret''"
    by (simp add: trim_end_def, subst trim_front_id)
       (auto simp: white_space_def dest!: arg_cong [of _ "CHR ''t''" "of_char :: char \<Rightarrow> nat"])
  then have "require_bearer Some (AdminToken ''secret'') (Some (auth_header sample_target)) (\<lambda>_. Inr ()) = (Inr () :: api_error + unit)"
    by (simp add: require_bearer_def auth_header_def sample_target_def strip_prefix_def starts_with_def token_verify_def)
  then show ?thesis by (simp add: guarded_def)
qed

lemma sample_device: "client_device sample_target sample_addr (sample_network 0) = (Inr None, sample_network 1)"
  using sample_addr_absent
  by (simp add: client_device_def call_def sample_network_def sample_exchange_def sample_guard serve_get_def get_device_def
      registry_summary_def activity_by_addr_def served_def handle_response_def reject_on_error_status_def is_success_def
      api_error_new_def error_body_new_def absent_if_not_registered_def Let_def)

lemma sample_mint: "\<exists>resp net'. client_provision sample_target ''kitchen'' sample_addr (sample_network 1) = (Inr resp, net')"
proof -
  have k: "key_ok (DeviceKey (replicate 32 3))" by (simp add: key_ok_def DEVICE_KEY_SIZE_def)
  obtain s where s: "seal_with_nonce clear_xaead (keyring sample_registry) (DeviceKey (replicate 32 3)) sample_addr (replicate 24 0) = Some s"
    using seal_bytes [OF clear_xaead_ok sample_registry_facts(1) k sample_registry_facts(5)] by blast
  then show ?thesis
    using sample_addr_absent
    by (simp add: client_provision_def call_def sample_network_def sample_exchange_def sample_guard serve_provision_def
        provision_device_def registry_provision_def provision_store_def generate_key_def insert_device_def sql_insert_device_def
        record_of_row_def respond_key_def served_def handle_response_def reject_on_error_status_def is_success_def Let_def)
qed

text \<open>With a healthy probe no operation on the core fails.\<close>

lemma holds_healthy_core:
  assumes "healthy sc" "\<And>m. R m \<Longrightarrow> holds (at_mem sc m) f (\<lambda>x. mem_in sc (Q x)) (\<lambda>_ _. \<not> healthy sc)"
  shows "holds (board N sc R) (on_core f) (\<lambda>x. board N sc (Q x)) (\<lambda>_ _. False)"
proof -
  have "holds (board N sc R) (on_core f) (\<lambda>x. board N sc (Q x)) (\<lambda>_. board N sc (\<lambda>_. False))"
    by (rule holds_on_core, rule holds_conseq [OF assms(2)]) (use assms(1) in auto)
  then show ?thesis by (rule holds_conseq) (auto simp: board_def)
qed

lemma holds_control_healthy:
  "holds (at_mem sc m) (and_then probe_control (\<lambda>_. probe_control)) (\<lambda>_. at_mem sc m) (\<lambda>_ _. \<not> healthy sc)"
proof -
  have "holds (at_mem sc m) probe_control (\<lambda>_. at_mem sc m) (\<lambda>_ _. \<not> healthy sc)"
    by (rule holds_at_mem, rule holds_conseq [OF holds_probe_control]) (auto simp: at_def at_mem_def)
  then show ?thesis by (intro holds_and_then)
qed

lemma healthy_install:
  assumes "healthy sc" "key_ok key" "dkr_key resp = key_to_hex key"
  shows "holds (board N sc (\<lambda>m. record_words m = replicate UICR_RECORD_WORDS ERASED))
     (install_key su HeaderBlank resp None logs) (\<lambda>_. board N sc (\<lambda>_. True)) (\<lambda>_ _. False)"
proof -
  let ?blank = "\<lambda>m. record_words m = replicate UICR_RECORD_WORDS ERASED"
  have w: "holds (board N sc ?blank) (with_err InstallRecord (on_core (write_uicr_record key))) (\<lambda>_. board N sc (\<lambda>_. True)) (\<lambda>_ _. False)"
    by (rule holds_with_err, rule holds_healthy_core [OF assms(1)], rule holds_conseq [OF holds_write_uicr_record [OF assms(2)]])
       (use blank_record_written [OF assms(2)] in \<open>auto simp: mem_in_def at_def at_mem_def\<close>)
  have r: "holds (board N sc (\<lambda>_. True)) (with_err InstallReset (on_core chip_reset)) (\<lambda>_. board N sc (\<lambda>_. True)) (\<lambda>_ _. False)"
    unfolding chip_reset_def
    by (rule holds_with_err, rule holds_healthy_core [OF assms(1)], rule holds_conseq [OF holds_control_healthy]) (auto simp: mem_in_def)
  have "install_key su HeaderBlank resp None logs =
      with_err InstallFailed (and_then (return_ok ()) (\<lambda>_. and_then (with_err InstallRecord (on_core (write_uicr_record key)))
        (\<lambda>_. and_then (return_ok ()) (\<lambda>_. and_then (with_err InstallReset (on_core chip_reset)) (\<lambda>_. return_ok ())))))"
    using key_from_to_hex [OF assms(2)] assms(3)
    by (intro ext) (simp add: install_key_def install_steps_def install_firmware_def is_blank_def and_then_def lift_result_def)
  then show ?thesis
    by (simp only:) (rule holds_with_err, rule holds_and_then [OF holds_return], assumption, rule holds_and_then [OF w],
        rule holds_and_then [OF holds_return], assumption, rule holds_and_then [OF r], rule holds_return, assumption)
qed

lemma sample_service_ok: "service_ok (sample_network n)"
  using clear_xaead_ok sample_registry_facts by (simp add: service_ok_def sample_network_def sample_exchange_def)

lemma holds_sample_identify:
  "holds (board (\<lambda>net. net = sample_network 0) (\<lambda>_. quiet) (\<lambda>m. m = (\<lambda>_. ERASED))) (identify sample_setup sample_args)
     (\<lambda>x b. board (\<lambda>net. net = sample_network 1) (\<lambda>_. quiet) (\<lambda>m. m = (\<lambda>_. ERASED)) b
        \<and> x = (None, sample_target, \<lparr>cs_device_addr = sample_addr, cs_record = HeaderBlank\<rparr>, None)) (\<lambda>_ _. False)"
proof -
  let ?sc = "\<lambda>_ :: nat. quiet"
  have h: "healthy ?sc" by (simp add: healthy_def quiet_def)
  let ?B = "\<lambda>n. board (\<lambda>net. net = sample_network n) ?sc (\<lambda>m. m = (\<lambda>_. ERASED))"
  let ?F = "\<lambda>_ _. False"
  let ?st = "\<lparr>cs_device_addr = sample_addr, cs_record = HeaderBlank\<rparr>"
  have st: "holds (?B 0) (with_err CmdProbe (on_core read_state)) (\<lambda>st b. ?B 0 b \<and> st = ?st) ?F"
  proof (rule holds_with_err)
    have "holds (?B 0) (on_core read_state) (\<lambda>st. board (\<lambda>net. net = sample_network 0) ?sc (\<lambda>m. m = (\<lambda>_. ERASED) \<and> st = ?st)) ?F"
      by (rule holds_healthy_core [OF h], rule holds_conseq [OF holds_read_state])
         (auto simp: mem_in_def sample_addr_def decode_header_def ERASED_def)
    then show "holds (?B 0) (on_core read_state) (\<lambda>st b. ?B 0 b \<and> st = ?st) ?F"
      by (rule holds_conseq) (auto simp: board_def)
  qed
  have dev: "holds (?B 0) (with_err CmdClient (on_net (client_device sample_target sample_addr))) (\<lambda>r b. ?B 1 b \<and> r = None) ?F"
    by (rule holds_with_err) (use sample_device in \<open>auto simp: holds_def on_net_def on_part_def board_def\<close>)
  show "holds (?B 0) (identify sample_setup sample_args) (\<lambda>x b. ?B 1 b \<and> x = (None, sample_target, ?st, None)) ?F"
  proof -
    have pre: "identify sample_setup sample_args b =
        and_then (with_err CmdProbe (on_core read_state)) (\<lambda>state.
        and_then (with_err CmdClient (on_net (client_device sample_target (cs_device_addr state)))) (\<lambda>registered.
          return_ok (None, sample_target, state, registered))) b" for b
      by (simp add: identify_def sample_args_def optional_firmware_def return_ok_def on_tty_def on_part_def and_then_def
          lift_result_def check_auth_before_unlock_def on_net_def with_err_def connect_def chip_connect_def sample_setup_def)
    have "holds (?B 0) (and_then (with_err CmdProbe (on_core read_state)) (\<lambda>state.
        and_then (with_err CmdClient (on_net (client_device sample_target (cs_device_addr state)))) (\<lambda>registered.
          return_ok (None, sample_target, state, registered)))) (\<lambda>x b. ?B 1 b \<and> x = (None, sample_target, ?st, None)) ?F"
      by (rule holds_and_then [OF st], rule holds_pure, simp only: chip_state.simps, rule holds_and_then [OF dev], rule holds_return) simp
    then show ?thesis by (simp add: holds_def pre)
  qed
qed

lemma sample_bench_board:
  "board (\<lambda>net. net = sample_network 0) (\<lambda>_. quiet) (\<lambda>m. m = (\<lambda>_. ERASED)) sample_bench"
  by (simp add: board_def sample_bench_def new_chip_def)

lemma sample_run: "\<exists>nm b'. provision sample_setup sample_args ''kitchen'' sample_bench = (Inr (sample_addr, nm), b')"
proof -
  let ?sc = "\<lambda>_ :: nat. quiet"
  have h: "healthy ?sc" by (simp add: healthy_def quiet_def)
  let ?B = "\<lambda>n. board (\<lambda>net. net = sample_network n) ?sc (\<lambda>m. m = (\<lambda>_. ERASED))"
  let ?F = "\<lambda>_ _. False"
  let ?st = "\<lparr>cs_device_addr = sample_addr, cs_record = HeaderBlank\<rparr>"
  note id = holds_sample_identify
  obtain resp net2 where m: "client_provision sample_target ''kitchen'' sample_addr (sample_network 1) = (Inr resp, net2)"
    using sample_mint by blast
  obtain key where key: "minted sample_addr resp key net2" using client_provision_minted [OF sample_service_ok m] by blast
  let ?C = "board (\<lambda>net. net = net2) ?sc (\<lambda>m. record_words m = replicate UICR_RECORD_WORDS ERASED)"
  have blank: "record_words (\<lambda>_. ERASED) = replicate UICR_RECORD_WORDS ERASED"
    by (simp add: record_words_def words_at_def map_replicate_const)
  have t1: "holds (?B 1) (with_err CmdConfirm (on_tty (confirm_record HeaderBlank Provision False))) (\<lambda>_. ?B 1) ?F"
    by (rule holds_with_err) (auto simp: holds_def on_tty_def on_part_def confirm_record_def return_ok_def board_def)
  have t2: "holds (?B 1) (with_err CmdProbe (on_core chip_halt)) (\<lambda>_. ?B 1) ?F"
    unfolding chip_halt_def
    by (rule holds_with_err, rule holds_healthy_core [OF h], rule holds_conseq [OF holds_control_healthy]) (auto simp: mem_in_def)
  have t3: "holds (?B 1) (on_net (mint_key sample_target sample_addr None (client_provision sample_target ''kitchen'' sample_addr)))
      (\<lambda>r b. ?C b \<and> r = resp) ?F"
    using m blank by (auto simp: holds_def on_net_def on_part_def board_def mint_key_def or_else_def)
  have t4: "holds ?C (install_key sample_setup HeaderBlank resp None 3) (\<lambda>_ _. True) ?F"
    by (rule holds_conseq [OF healthy_install [OF h]]) (use key in \<open>auto simp: minted_def\<close>)
  have "holds (?B 0) (provision sample_setup sample_args ''kitchen'') (\<lambda>(a, _) _. a = sample_addr) ?F"
    unfolding provision_keying
  proof (rule holds_and_then [OF id], rule holds_pure)
    fix x assume x: "x = (None :: (artifact \<times> string) option, sample_target, ?st, None :: device_summary option)"
    have "holds (?B 1) (keying sample_setup HeaderBlank None 3 False Provision
        (mint_key sample_target sample_addr None (client_provision sample_target ''kitchen'' sample_addr))) (\<lambda>(a, _) _. a = sample_addr) ?F"
      unfolding keying_def
      by (rule holds_and_then [OF t1], rule holds_and_then [OF t2], rule holds_and_then [OF t3], rule holds_pure,
          simp only:, rule holds_and_then [OF t4], rule holds_return) (use key in \<open>simp add: minted_def\<close>)
    then show "holds (?B 1) (case x of (firmware, t, state, registered) \<Rightarrow>
       (case registered of
         Some existing \<Rightarrow> throw (AlreadyRegistered (cs_device_addr state) (sum_name existing))
       | None \<Rightarrow> keying sample_setup (cs_record state) firmware (pa_logs sample_args) (pa_yes sample_args) Provision
                   (mint_key t (cs_device_addr state) None (client_provision t ''kitchen'' (cs_device_addr state)))))
      (\<lambda>(a, _) _. a = sample_addr) ?F"
      by (simp add: x sample_args_def)
  qed
  note whole = this
  obtain r b' where r: "provision sample_setup sample_args ''kitchen'' sample_bench = (r, b')" by fastforce
  show ?thesis
  proof (cases r)
    case (Inl e)
    then show ?thesis using holds_Inl [OF whole sample_bench_board] r by simp
  next
    case (Inr x)
    then show ?thesis using holds_Inr [OF whole sample_bench_board] r by (cases x) auto
  qed
qed

lemma sample_ready:
  "setup_ok sample_setup" "ranges_ok (pa_store sample_args)" "service_ok (bench_net sample_bench)"
  "ficr_is sample_addr (core_mem (bench_core sample_bench))"
proof -
  show "setup_ok sample_setup"
    by (auto simp: setup_ok_def sample_setup_def keeps_record_def mem_in_def intro!: holds_return)
  show "ranges_ok (pa_store sample_args)"
    by (simp add: ranges_ok_def sample_args_def sample_store_def sample_artifact_def storage_ok_def storage_range_def)
  show "ficr_is sample_addr (core_mem (bench_core sample_bench))"
    by (simp add: ficr_is_def sample_bench_def new_chip_def sample_addr_def)
  show "service_ok (bench_net sample_bench)" using sample_service_ok by (simp add: sample_bench_def)
qed

theorem keyed_board_matches_service_witness:
  "\<exists>nm b' key. provision sample_setup sample_args ''kitchen'' sample_bench = (Inr (sample_addr, nm), b')
     \<and> uicr_decode (record_words (core_mem (bench_core b'))) = Provisioned key \<and> service_has (bench_net b') sample_addr key"
proof -
  obtain nm b' where run: "provision sample_setup sample_args ''kitchen'' sample_bench = (Inr (sample_addr, nm), b')"
    using sample_run by blast
  show ?thesis using keyed_board_matches_service [OF sample_ready disjI1 [OF run]] run by blast
qed


end
