(* ===== verification/MintFacts.thy ===== *)
theory MintFacts
  imports CommandFacts
begin

text \<open>Whether a key was handed out when the answer got lost: the follow-up query of \<open>mint_key\<close>
  (\<open>src/provision/src/commands.rs\<close>) against what the service really did.\<close>

section \<open>What a mint does to the database\<close>

definition service_row :: "service \<Rightarrow> device_addr \<Rightarrow> device_row option" where
  "service_row svc a = find_row (svc_db svc) (addr_as_i64 a)"

text \<open>The device carries a key valid from the given time.\<close>

definition newly_issued :: "device_addr \<Rightarrow> int \<Rightarrow> service \<Rightarrow> bool" where
  "newly_issued a now svc' \<longleftrightarrow> (\<exists>row. service_row svc' a = Some row \<and> row_key_valid_from row = now)"

lemma record_of_row_Some: "row_addr row = addr_as_i64 a \<Longrightarrow> \<exists>r. record_of_row row = Some r \<and> rec_key_valid_from r = row_key_valid_from row"
  by (simp add: record_of_row_def)

lemma provision_store_effect:
  assumes "provision_store X reg random iv fault1 fault2 (\<lambda>d. d) now a name db = (q, db')"
  shows "db' = db \<and> (\<forall>dk. q \<noteq> Some (Inr dk))
    \<or> find_row db (addr_as_i64 a) = None
       \<and> (\<exists>row. find_row db' (addr_as_i64 a) = Some row \<and> row_key_valid_from row = now)"
proof (cases "\<exists>e. q = Some (Inl e)")
  case True
  then show ?thesis using assms provision_store_failed by blast
next
  case False
  note q = this
  show ?thesis
  proof (cases "generate_key random")
    case (Inl e)
    then show ?thesis using assms q by (auto simp: provision_store_def)
  next
    case (Inr key)
    show ?thesis
    proof (cases "seal_with_nonce X (keyring reg) key a iv")
      case None
      then show ?thesis using assms Inr by (auto simp: provision_store_def)
    next
      case (Some s)
      let ?args = "\<lparr>ins_name = name, ins_addr = a, ins_key = s\<rparr>"
      obtain p db1 where p: "insert_device fault1 fault2 (\<lambda>d. d) now ?args db = (p, db1)" by fastforce
      have "p \<noteq> None"
        using p by (auto simp: insert_device_def sql_insert_device_def Let_def record_of_row_def
            split: option.splits if_splits prod.splits sum.splits)
      moreover have "\<nexists>e. p = Some (Inl e)"
        using assms q Inr Some p by (auto simp: provision_store_def split: insert_device_error.splits)
      ultimately obtain r where r: "p = Some (Inr r)" by (metis not_None_eq sum.exhaust)
      have "db' = db1" using assms Inr Some p r by (simp add: provision_store_def)
      then show ?thesis using insert_device_Inr(2,3) [OF p [unfolded r]] by simp
    qed
  qed
qed

lemma rotate_store_effect:
  assumes "db_ok db" "rotate_store X reg random iv fault now a db = (q, db')"
  shows "db' = db \<and> (\<forall>dk. q \<noteq> Some (Inr dk)) \<or> (\<exists>row. find_row db' (addr_as_i64 a) = Some row \<and> row_key_valid_from row = now)"
proof (cases "\<exists>e. q = Some (Inl e)")
  case True
  then show ?thesis using assms rotate_store_failed by blast
next
  case False
  note q = this
  show ?thesis
  proof (cases "generate_key random")
    case (Inl e)
    then show ?thesis using assms q by (auto simp: rotate_store_def)
  next
    case (Inr key)
    show ?thesis
    proof (cases "seal_with_nonce X (keyring reg) key a iv")
      case None
      then show ?thesis using assms Inr by (auto simp: rotate_store_def)
    next
      case (Some s)
      obtain p db1 where p: "update_key fault now a s db = (p, db1)" by fastforce
      have "p \<noteq> None"
        using p by (auto simp: update_key_def Let_def record_of_row_def dest: find_row_Some split: option.splits)
      moreover have "\<nexists>e. p = Some (Inl e)" "p \<noteq> Some (Inr None)"
        using assms q Inr Some p by (auto simp: rotate_store_def)
      ultimately obtain r where r: "p = Some (Inr (Some r))" by (metis not_None_eq sum.exhaust)
      have "db' = db1" using assms Inr Some p r by (simp add: rotate_store_def)
      moreover have "fault = None" using p r by (cases fault) (simp_all add: update_key_def)
      ultimately show ?thesis using find_row_update_key(1) [OF assms(1) p [unfolded r \<open>fault = None\<close>]] by auto
    qed
  qed
qed

lemma finish_store_unchanged: "\<forall>dk. q \<noteq> Some (Inr dk) \<Longrightarrow> finish_store reg a (q, db) = (q, reg, db)"
  by (cases "(reg, a, q, db)" rule: finish_store.cases) auto

lemma serve_provision_effect:
  assumes "serve_provision name a ex X svc = (r, svc')"
  shows "svc' = svc \<or> service_row svc a = None \<and> newly_issued a (ex_now ex) svc'"
proof -
  obtain q db1 where q: "provision_store X (svc_registry svc) (ex_random ex) (ex_iv ex) (ex_fault ex) (ex_fault2 ex) (\<lambda>d. d)
      (ex_now ex) a name (svc_db svc) = (q, db1)" by fastforce
  have "svc_db svc' = db1"
    using assms q by (cases "(svc_registry svc, a, q, db1)" rule: finish_store.cases)
      (auto simp: serve_provision_def provision_device_def registry_provision_def)
  moreover have "svc' = svc" if "db1 = svc_db svc" "\<forall>dk. q \<noteq> Some (Inr dk)"
    using assms q finish_store_unchanged [OF that(2)] that(1)
    by (auto simp: serve_provision_def provision_device_def registry_provision_def)
  ultimately show ?thesis using provision_store_effect [OF q] by (auto simp: newly_issued_def service_row_def)
qed

lemma serve_rotate_effect:
  assumes "serve_rotate a ex X svc = (r, svc')" "db_ok (svc_db svc)"
  shows "svc' = svc \<or> newly_issued a (ex_now ex) svc'"
proof -
  obtain q db1 where q: "rotate_store X (svc_registry svc) (ex_random ex) (ex_iv ex) (ex_fault ex) (ex_now ex) a (svc_db svc) = (q, db1)"
    by fastforce
  have "svc_db svc' = db1"
    using assms q by (cases "(svc_registry svc, a, q, db1)" rule: finish_store.cases)
      (auto simp: serve_rotate_def rotate_device_key_def registry_rotate_key_def)
  moreover have "svc' = svc" if "db1 = svc_db svc" "\<forall>dk. q \<noteq> Some (Inr dk)"
    using assms q finish_store_unchanged [OF that(2)] that(1)
    by (auto simp: serve_rotate_def rotate_device_key_def registry_rotate_key_def)
  ultimately show ?thesis using rotate_store_effect [OF assms(2) q] by (auto simp: newly_issued_def service_row_def)
qed

section \<open>What the query sees\<close>

lemma get_device_row:
  "(case get_device X reg fault db a of
      Inr (s, v) \<Rightarrow> (\<exists>row. find_row db (addr_as_i64 a) = Some row \<and> sum_key_valid_from v = row_key_valid_from row)
    | Inl e \<Rightarrow> body_code (err_body e) = CodeDeviceNotFound \<longrightarrow> find_row db (addr_as_i64 a) = None)"
  by (auto simp: get_device_def registry_summary_def activity_by_addr_def activity_of_row_def classify_def record_of_row_def Let_def
      api_error_of_sqlx_def api_error_internal_def api_error_new_def error_body_new_def
      split: option.splits dest!: find_row_Some)

lemma client_device_row:
  assumes "client_device t a net = (Inr found, net')"
  shows "map_option sum_key_valid_from found = map_option row_key_valid_from (service_row (net_service net) a)"
proof -
  let ?ex = "net_script net (net_calls net)" and ?svc = "net_service net"
  let ?r = "get_device (net_xaead net) (svc_registry ?svc) (ex_fault ?ex) (svc_db ?svc) a"
  obtain q net1 where q: "call t (serve_get a) net = (q, net1)" by fastforce
  have found: "absent_if_not_registered q = Inr found" using assms q by (simp add: client_device_def)
  obtain g svc1 where g: "guarded (net_admin_token net) t (serve_get a ?ex (net_xaead net)) ?svc = (g, svc1)" by fastforce
  have g': "g = Some ?r \<or> g = Some (Inl unauthorized)"
    using g require_bearer_cases [of Some "net_admin_token net" "Some (auth_header t)" "\<lambda>_. Inr () :: api_error + unit"]
    by (auto simp: guarded_def serve_get_def split: sum.splits if_splits)
  have q': "(\<exists>s v. q = Inr v \<and> g = Some (Inr (s, v))) \<or> (\<exists>e s. q = Inl (Rejected s (err_body e)) \<and> g = Some (Inl e))
      \<or> (\<exists>e. q = Inl e \<and> may_have_committed e)"
    using q g by (cases g)
      (auto simp: call_def Let_def served_def handle_response_def reject_on_error_status_def split: if_splits sum.splits)
  show ?thesis
  proof (cases found)
    case None
    then obtain e s where e: "q = Inl (Rejected s (err_body e))" "g = Some (Inl e)" "body_code (err_body e) = CodeDeviceNotFound"
      using found q' by (auto simp: absent_if_not_registered_def split: if_splits client_error.splits)
    then have "?r = Inl e" using g' by (auto simp: unauthorized_def add_header_def api_error_new_def error_body_new_def)
    then show ?thesis using get_device_row [where X = "net_xaead net" and reg = "svc_registry ?svc" and fault = "ex_fault ?ex" and db = "svc_db ?svc" and a = a] e(3) None
      by (simp add: service_row_def)
  next
    case (Some v)
    then have "q = Inr v" using found by (auto simp: absent_if_not_registered_def split: if_splits client_error.splits sum.splits)
    then obtain s where "g = Some (Inr (s, v))" using q' by auto
    then have "?r = Inr (s, v)" using g' by auto
    then show ?thesis using get_device_row [where X = "net_xaead net" and reg = "svc_registry ?svc" and fault = "ex_fault ?ex" and db = "svc_db ?svc" and a = a] Some
      by (auto simp: service_row_def)
  qed
qed

section \<open>Properties\<close>


text \<open>The first answer is lost on the way back.\<close>

definition lossy_network :: network where
  "lossy_network = (sample_network 0)\<lparr>net_script := (\<lambda>n. if n = 0 then sample_exchange\<lparr>ex_returned := False\<rparr> else sample_exchange)\<rparr>"

lemma lossy_mint:
  "\<exists>err net'. mint_key sample_target sample_addr None (client_provision sample_target ''kitchen'' sample_addr) lossy_network
     = (Inl (MintFailed MintCommitted err), net')"
proof -
  have k: "key_ok (DeviceKey (replicate 32 3))" by (simp add: key_ok_def DEVICE_KEY_SIZE_def)
  obtain s where s: "seal_with_nonce clear_xaead (keyring sample_registry) (DeviceKey (replicate 32 3)) sample_addr (replicate 24 0) = Some s"
    using seal_bytes [OF clear_xaead_ok sample_registry_facts(1) k sample_registry_facts(5)] by blast
  obtain d key db' where p: "provision_store clear_xaead sample_registry (Inr (replicate 32 3)) (replicate 24 0) None None (\<lambda>d. d)
      200 sample_addr ''kitchen'' sample_db = (Some (Inr (d, key)), db')"
    using s sample_addr_absent
    by (simp add: provision_store_def generate_key_def insert_device_def sql_insert_device_def record_of_row_def Let_def)
  have row: "\<exists>row. find_row db' (addr_as_i64 sample_addr) = Some row" using provision_store_effect [OF p] by blast
  define svc where "svc = \<lparr>svc_registry = publish sample_registry sample_addr d, svc_db = db'\<rparr>"
  have req: "client_provision sample_target ''kitchen'' sample_addr lossy_network
      = (Inl (TransportError ''timeout: global''), lossy_network\<lparr>net_calls := 1, net_service := svc\<rparr>)"
    using p by (simp add: client_provision_def call_def lossy_network_def sample_network_def sample_exchange_def sample_guard
        serve_provision_def provision_device_def registry_provision_def svc_def Let_def)
  obtain v where v: "get_device clear_xaead (publish sample_registry sample_addr d) None db' sample_addr = Inr (200, v)"
    using row record_of_row_Some find_row_Some
    by (fastforce simp: get_device_def registry_summary_def activity_by_addr_def activity_of_row_def split: option.splits)
  have "\<exists>net'. client_device sample_target sample_addr (lossy_network\<lparr>net_calls := 1, net_service := svc\<rparr>) = (Inr (Some v), net')"
    using v by (simp add: client_device_def call_def lossy_network_def sample_network_def sample_exchange_def sample_guard
        serve_get_def svc_def served_def handle_response_def reject_on_error_status_def is_success_def
        absent_if_not_registered_def Let_def)
  then show ?thesis using req by (auto simp: mint_key_def or_else_def)
qed


end
