(* ===== verification/StorageFacts.thy ===== *)
theory StorageFacts
  imports Board Elf SeqCounter
begin

text \<open>The sequence counter's pages from the linker script to the chip: the layout
  \<open>src/firmware/board/build.rs\<close> derives, the symbols \<open>src/provision/src/elf.rs\<close> reads back from the
  image, the erase of \<open>src/provision/src/chip.rs\<close>, and the counter the firmware then loads
  (\<open>src/firmware/sensor/src/seq_counter.rs\<close>).\<close>

text \<open>A symbol the linker defines by an assignment is absolute.\<close>

definition linked_symbols :: "linker_script \<Rightarrow> elf_symbol list" where
  "linked_symbols script = map (\<lambda>(name, a). \<lparr>sym_shndx = SHN_ABS, sym_name = Some name, sym_address = a\<rparr>) (ls_symbols script)"

definition declares_layout :: "layout \<Rightarrow> elf_file \<Rightarrow> bool" where
  "declares_layout l file \<longleftrightarrow>
     filter storage_symbol (elf_symbols file) = linked_symbols (layout_render l)
     \<or> filter storage_symbol (elf_symbols file) = rev (linked_symbols (layout_render l))"

lemma declared_storage:
  assumes "layout_derive board = Inr l" "declares_layout l file"
  shows "elf_storage file = Inr (Some (lay_storage_start l, bm_flash_top board))"
proof -
  have l: "lay_storage_start l + STORAGE_LEN = bm_flash_top board" "lay_storage_start l mod PAGE_SIZE = 0"
    "bm_flash_top board mod PAGE_SIZE = 0" "lay_storage_start l < bm_flash_top board"
  proof -
    have "bm_flash_top board mod BUILD_PAGE_SIZE = 0" "bm_app_start board + STORAGE_LEN < bm_flash_top board"
      and e: "lay_storage_start l = bm_flash_top board - STORAGE_LEN"
      using assms(1) by (auto simp: layout_derive_Inr_iff)
    then show "lay_storage_start l + STORAGE_LEN = bm_flash_top board" "lay_storage_start l mod PAGE_SIZE = 0"
      "bm_flash_top board mod PAGE_SIZE = 0" "lay_storage_start l < bm_flash_top board"
      by (auto simp: STORAGE_LEN_def BUILD_PAGE_SIZE_def PAGE_SIZE_def mod_eq_0_iff_dvd)
  qed
  have "STORAGE_START \<noteq> STORAGE_END" by (simp add: STORAGE_START_def STORAGE_END_def)
  then have "storage_symbols (elf_symbols file) (None, None) = (Some (lay_storage_start l), Some (bm_flash_top board))"
    using assms(2) l(1) unfolding storage_symbols_filter [of "elf_symbols file"] declares_layout_def
    by (auto simp: linked_symbols_def layout_render_def Let_def STORAGE_START_def STORAGE_END_def)
  then show ?thesis using l by (simp add: elf_storage_def)
qed

lemma erased_counter:
  assumes "rd 0 = Inr ERASED" "rd WORDS_PER_PAGE = Inr ERASED"
  shows "seq_load rd = Inr \<lparr>next_seq = 0, reserved_until = 0, next_slot = 0\<rparr>"
  using assms by (simp add: seq_load_def scan_page_def scan_slots.simps is_valid_record_def ERASED_def
      WORDS_PER_PAGE_def SEQ_PAGE_SIZE_def RESERVATION_BLOCK_def)

section \<open>Properties\<close>


text \<open>The linked image of a 1 MB board, its counter at some number.\<close>

definition sample_linked :: elf_file where
  "sample_linked =
     \<lparr>elf_program_headers = [],
      elf_symbols = [\<lparr>sym_shndx = 1, sym_name = Some STORAGE_START, sym_address = 7\<rparr>,
                     \<lparr>sym_shndx = SHN_ABS, sym_name = Some STORAGE_END, sym_address = 0x100000\<rparr>,
                     \<lparr>sym_shndx = SHN_ABS, sym_name = Some STORAGE_START, sym_address = 0xFE000\<rparr>]\<rparr>"


end
