(* ===== verification/Verify.thy ===== *)
theory Verify
  imports MintFacts
begin

text \<open>\<open>src/provision/src/verify.rs\<close> and the \<open>verify\<close> command of \<open>commands.rs\<close>: waiting until the
  service hears from a device under its current key. Between two polls the world goes on: readings
  arrive, others administer. Time is in nanoseconds; a sleep and a request take as long as the
  environment says, a sleep never less than what was asked for.\<close>

definition POLL_INTERVAL :: nat where "POLL_INTERVAL = 5 * 1000000000"

datatype progress = Reported int | Waiting | Undecryptable device_key_status

definition assess :: "int option \<Rightarrow> device_summary \<Rightarrow> progress" where
  "assess baseline current =
     (if sum_key_status current \<noteq> StatusOk \<and> sum_key_status current \<noteq> StatusUnknown
      then Undecryptable (sum_key_status current)
      else case (baseline, sum_last_seen current) of
        (_, None) \<Rightarrow> Waiting
      | (None, Some seen) \<Rightarrow> Reported seen
      | (Some before, Some seen) \<Rightarrow> if seen > before then Reported seen else Waiting)"

definition dash :: string where "dash = [CHR 0xE2, CHR 0x80, CHR 0x94]"

fun remedy :: "device_key_status \<Rightarrow> string" where
  "remedy StatusMissing = ''it has no key on file '' @ dash @ '' provision or rotate it''"
| "remedy StatusInvalid = ''its stored key cannot be parsed '' @ dash @ '' rotate it''"
| "remedy StatusKekUnavailable =
     ''its key is sealed under a KEK generation the API has not loaded '' @ dash @ '' load that ''
     @ ''generation rather than rotating, which would force a re-flash of a device whose key was never wrong''"
| "remedy StatusUnopenable = ''its key does not open for this device '' @ dash @ '' rotate it''"
| "remedy StatusOk = ''the API reports no key problem''"
| "remedy StatusUnknown = ''the API reports no key problem''"

datatype wait_error =
    TimedOut nat
  | Unreachable nat client_error
  | WaitUndecryptable device_key_status
  | Unregistered
  | WaitApi client_error

record waiting =
  wt_oversleep :: "nat \<Rightarrow> nat"
  wt_request :: "nat \<Rightarrow> nat"
  wt_world :: "nat \<Rightarrow> service \<Rightarrow> service"

text \<open>One turn: sleep, ask. \<open>Inl\<close> ends the loop, \<open>Inr\<close> carries what to blame at the deadline.\<close>

definition poll_verdict :: "int option \<Rightarrow> client_error + device_summary option \<Rightarrow> (wait_error + int) + client_error option" where
  "poll_verdict baseline answer =
     (case answer of
        Inr (Some summary) \<Rightarrow>
          (case assess baseline summary of
             Reported seen \<Rightarrow> Inl (Inr seen)
           | Undecryptable status \<Rightarrow> Inl (Inl (WaitUndecryptable status))
           | Waiting \<Rightarrow> Inr None)
      | Inr None \<Rightarrow> Inl (Inl Unregistered)
      | Inl err \<Rightarrow> if is_transient err then Inr (Some err) else Inl (Inl (WaitApi err)))"

function wait_loop ::
  "waiting \<Rightarrow> api_target \<Rightarrow> device_addr \<Rightarrow> int option \<Rightarrow> nat \<Rightarrow> nat \<Rightarrow> nat \<Rightarrow> nat \<Rightarrow> network
     \<Rightarrow> (wait_error + int) \<times> nat \<times> network" where
  "wait_loop w t a baseline secs deadline i now net =
     (let now1 = now + min POLL_INTERVAL (deadline - now) + wt_oversleep w i + wt_request w i in
      case client_device t a (net\<lparr>net_service := wt_world w i (net_service net)\<rparr>) of (answer, net1) \<Rightarrow>
        (case poll_verdict baseline answer of
           Inl result \<Rightarrow> (result, now1, net1)
         | Inr unreachable \<Rightarrow>
             if now1 \<ge> deadline then
               (Inl (case unreachable of Some problem \<Rightarrow> Unreachable secs problem | None \<Rightarrow> TimedOut secs), now1, net1)
             else wait_loop w t a baseline secs deadline (i + 1) now1 net1))"
  by pat_completeness auto
termination
  by (relation "measure (\<lambda>(w, t, a, baseline, secs, deadline, i, now, net). deadline - now)")
     (auto simp: POLL_INTERVAL_def)

declare wait_loop.simps [simp del]

definition wait_for_reading ::
  "waiting \<Rightarrow> api_target \<Rightarrow> device_addr \<Rightarrow> int option \<Rightarrow> nat \<Rightarrow> nat \<Rightarrow> network \<Rightarrow> (wait_error + int) \<times> nat \<times> network" where
  "wait_for_reading w t a baseline timeout_secs now net =
     wait_loop w t a baseline timeout_secs (now + timeout_secs * 1000000000) 0 now net"

section \<open>The command\<close>

datatype verify_error = VerifyCmd command_error | VerifyUnregistered device_addr | VerifyLocked | WaitFailed wait_error

definition address_from_probe :: "bench_setup \<Rightarrow> string option \<Rightarrow> (bench, verify_error, device_addr) comp" where
  "address_from_probe su probe =
     (case chip_connect (su_probes su) (su_attach su) probe of
        Inl e \<Rightarrow> throw (VerifyCmd (CmdConnect e))
      | Inr (Attached _) \<Rightarrow>
          and_then (with_err (\<lambda>e. VerifyCmd (CmdProbe e)) (on_core read_state)) (\<lambda>st. return_ok (cs_device_addr st))
      | Inr (Locked _) \<Rightarrow> throw VerifyLocked)"

definition verify ::
  "waiting \<Rightarrow> bench_setup \<Rightarrow> command_error + api_target \<Rightarrow> string option \<Rightarrow> device_addr option \<Rightarrow> nat \<Rightarrow> nat
     \<Rightarrow> (bench, verify_error, device_addr \<times> int) comp" where
  "verify w su target probe address timeout_secs now =
     and_then (lift_result (map_err VerifyCmd target)) (\<lambda>t.
     and_then (case address of Some a \<Rightarrow> return_ok a | None \<Rightarrow> address_from_probe su probe) (\<lambda>a.
     and_then (with_err (\<lambda>e. VerifyCmd (CmdClient e)) (on_net (client_device t a))) (\<lambda>found.
       case found of
         None \<Rightarrow> throw (VerifyUnregistered a)
       | Some summary \<Rightarrow>
          (case assess None summary of
             Undecryptable status \<Rightarrow> throw (WaitFailed (WaitUndecryptable status))
           | _ \<Rightarrow>
             and_then (with_err WaitFailed (on_net (\<lambda>net.
                 case wait_for_reading w t a (sum_last_seen summary) timeout_secs now net of (r, _, net') \<Rightarrow> (r, net'))))
               (\<lambda>reported_at. return_ok (a, reported_at))))))"

section \<open>Facts\<close>

text \<open>What the service answers about a device.\<close>

lemma client_device_summary:
  assumes "client_device t a net = (Inr (Some v), net')"
  shows "\<exists>row r. service_row (net_service net) a = Some row \<and> record_of_row row = Some r \<and> rec_addr r = a
    \<and> v = classify (net_xaead net) \<lparr>act_record = r,
           act_last_seen = newest_since (readings_table (svc_db (net_service net))) (addr_as_i64 a) (row_key_valid_from row)\<rparr>
         (keyring (svc_registry (net_service net)))"
proof -
  let ?ex = "net_script net (net_calls net)" and ?svc = "net_service net"
  obtain q where q: "call t (serve_get a) net = (q, net')" "absent_if_not_registered q = Inr (Some v)"
    using assms by (auto simp: client_device_def split: prod.splits)
  then have "q = Inr v" by (auto simp: absent_if_not_registered_def split: sum.splits client_error.splits if_splits)
  then obtain s where "get_device (net_xaead net) (svc_registry ?svc) (ex_fault ?ex) (svc_db ?svc) a = Inr (s, v)"
    using call_Inr [of t "serve_get a" net v net'] q by (auto simp: serve_get_def)
  then show ?thesis
    by (auto simp: get_device_def registry_summary_def activity_by_addr_def activity_of_row_def service_row_def record_of_row_def
        split: option.splits dest!: find_row_Some)
qed

definition heard_under_key :: "network \<Rightarrow> device_addr \<Rightarrow> int \<Rightarrow> bool" where
  "heard_under_key net a seen \<longleftrightarrow>
     (\<exists>row key. service_row (net_service net) a = Some row
        \<and> open_key_column (net_xaead net) (row_key row) a (keyring (svc_registry (net_service net))) = Inr key
        \<and> row_key_valid_from row < seen
        \<and> (\<exists>r\<in>set (readings_table (svc_db (net_service net))). rr_addr r = addr_as_i64 a \<and> rr_time r = seen))"

lemma assess_Reported: "assess b v = Reported seen \<Longrightarrow>
   sum_last_seen v = Some seen \<and> (sum_key_status v = StatusOk \<or> sum_key_status v = StatusUnknown) \<and> (\<forall>x. b = Some x \<longrightarrow> x < seen)"
  by (auto simp: assess_def split: if_splits option.splits)

lemma poll_reported:
  assumes "client_device t a net = (answer, net')" "poll_verdict b answer = Inl (Inr seen)"
  shows "heard_under_key net' a seen \<and> (\<forall>x. b = Some x \<longrightarrow> x < seen)"
proof -
  obtain v where v: "answer = Inr (Some v)" "assess b v = Reported seen"
    using assms(2) by (auto simp: poll_verdict_def split: sum.splits option.splits progress.splits if_splits)
  note s = assess_Reported [OF v(2)]
  obtain row r where row: "service_row (net_service net) a = Some row" "record_of_row row = Some r" "rec_addr r = a"
    "v = classify (net_xaead net) \<lparr>act_record = r,
           act_last_seen = newest_since (readings_table (svc_db (net_service net))) (addr_as_i64 a) (row_key_valid_from row)\<rparr>
         (keyring (svc_registry (net_service net)))"
    using client_device_summary assms(1) v(1) by blast
  have "newest_since (readings_table (svc_db (net_service net))) (addr_as_i64 a) (row_key_valid_from row) = Some seen"
    using s row(4) by (simp add: classify_def Let_def)
  moreover obtain key where "open_key_column (net_xaead net) (rec_key r) a (keyring (svc_registry (net_service net))) = Inr key"
    using s row(3,4) by (auto simp: classify_def Let_def split: sum.splits elim: status_of_fault.elims)
  moreover have "rec_key r = row_key row" using row(2) by (auto simp: record_of_row_def)
  ultimately show ?thesis
    using row(1) s client_device_service [OF assms(1)] newest_since_Some by (fastforce simp: heard_under_key_def service_row_def)
qed

lemma wait_loop_reported:
  "wait_loop w t a b secs deadline i now net = (Inr seen, now', net') \<Longrightarrow>
   heard_under_key net' a seen \<and> (\<forall>x. b = Some x \<longrightarrow> x < seen)"
proof (induction w t a b secs deadline i now net rule: wait_loop.induct)
  case (1 w t a b secs deadline i now net)
  let ?net = "net\<lparr>net_service := wt_world w i (net_service net)\<rparr>"
  obtain answer net1 where q: "client_device t a ?net = (answer, net1)" by fastforce
  show ?case
  proof (cases "poll_verdict b answer")
    case (Inl result)
    then have "result = Inr seen" "net1 = net'" using 1(2) q by (subst (asm) wait_loop.simps, simp add: Let_def)+
    then show ?thesis using poll_reported [OF q] Inl by simp
  next
    case (Inr u)
    show ?thesis
      using 1(2) q Inr
      by (subst (asm) wait_loop.simps) (auto simp: Let_def split: if_splits intro!: 1(1) [OF refl q [symmetric] Inr])
  qed
qed

text \<open>The loop asks at most once per interval, and only gives up for want of a reading once the
  deadline has passed.\<close>

lemma client_device_calls: "client_device t a net = (answer, net') \<Longrightarrow> net_calls net' = net_calls net + 1"
  by (auto simp: client_device_def call_def Let_def split: prod.splits sum.splits if_splits)

lemma wait_loop_step:
  assumes "client_device t a (net\<lparr>net_service := wt_world w i (net_service net)\<rparr>) = (answer, net1)"
  shows "wait_loop w t a b secs deadline i now net =
     (let now1 = now + min POLL_INTERVAL (deadline - now) + wt_oversleep w i + wt_request w i in
        (case poll_verdict b answer of
           Inl result \<Rightarrow> (result, now1, net1)
         | Inr unreachable \<Rightarrow>
             if now1 \<ge> deadline then
               (Inl (case unreachable of Some problem \<Rightarrow> Unreachable secs problem | None \<Rightarrow> TimedOut secs), now1, net1)
             else wait_loop w t a b secs deadline (i + 1) now1 net1))"
  by (subst wait_loop.simps) (simp only: assms Let_def prod.case)

lemma wait_loop_bounded:
  "wait_loop w t a b secs deadline i now net = (result, now', net') \<Longrightarrow>
   (\<exists>k. net_calls net' = net_calls net + 1 + k \<and> (k = 0 \<or> POLL_INTERVAL * k < deadline - now))
   \<and> (result = Inl (TimedOut secs) \<or> (\<exists>e. result = Inl (Unreachable secs e)) \<longrightarrow> deadline \<le> now')"
proof (induction w t a b secs deadline i now net rule: wait_loop.induct)
  case (1 w t a b secs deadline i now net)
  let ?net = "net\<lparr>net_service := wt_world w i (net_service net)\<rparr>"
  let ?now = "now + min POLL_INTERVAL (deadline - now) + wt_oversleep w i + wt_request w i"
  obtain answer net1 where q: "client_device t a ?net = (answer, net1)" by fastforce
  have calls: "net_calls net1 = net_calls net + 1" using client_device_calls [OF q] by simp
  note step = 1(2) [unfolded wait_loop_step [OF q] Let_def]
  show ?case
  proof (cases "poll_verdict b answer")
    case (Inl r)
    then have "result = r" "net' = net1" using step by simp_all
    moreover have "r \<noteq> Inl (TimedOut secs) \<and> (\<forall>e. r \<noteq> Inl (Unreachable secs e))"
      using Inl by (auto simp: poll_verdict_def split: sum.splits option.splits progress.splits if_splits)
    ultimately show ?thesis using calls by auto
  next
    case (Inr u)
    show ?thesis
    proof (cases "deadline \<le> ?now")
      case True
      then have "net' = net1 \<and> now' = ?now" using step Inr by simp
      then show ?thesis using True calls by simp
    next
      case False
      then have "wait_loop w t a b secs deadline (i + 1) ?now net1 = (result, now', net')"
        using step by (simp only: Inr sum.case False if_False)
      note rest = 1(1) [OF refl q [symmetric] Inr False this]
      then obtain k where k: "net_calls net' = net_calls net1 + 1 + k" "k = 0 \<or> POLL_INTERVAL * k < deadline - ?now"
        by blast
      have "POLL_INTERVAL * (k + 1) < deadline - now"
        using k(2) False by (auto simp: min_def distrib_left split: if_splits)
      then show ?thesis using k(1) calls rest by (intro conjI exI [of _ "k + 1"]) auto
    qed
  qed
qed

lemma wait_loop_blames:
  "wait_loop w t a b secs deadline i now net = (result, now', net') \<Longrightarrow>
   result = Inl (TimedOut n) \<or> result = Inl (Unreachable n e) \<Longrightarrow> n = secs"
proof (induction w t a b secs deadline i now net rule: wait_loop.induct)
  case (1 w t a b secs deadline i now net)
  obtain answer net1 where q: "client_device t a (net\<lparr>net_service := wt_world w i (net_service net)\<rparr>) = (answer, net1)"
    by fastforce
  note step = 1(2) [unfolded wait_loop_step [OF q] Let_def]
  show ?case
  proof (cases "poll_verdict b answer")
    case (Inl r)
    then have "result = r" using step by simp
    then show ?thesis
      using Inl 1(3) by (auto simp: poll_verdict_def split: sum.splits option.splits progress.splits if_splits)
  next
    case (Inr u)
    then show ?thesis
      using step 1(3) 1(1) [OF refl q [symmetric] Inr] by (auto split: if_splits option.splits)
  qed
qed

section \<open>Properties\<close>

text \<open>C22: When \<open>verify\<close> reports that a device was heard, it was: whatever else happened to the service in
  the meantime, at the end its row holds a key the service can open, a reading of that very time is stored,
  it is newer than the key, and it is newer than the newest one stored when \<open>verify\<close> began.\<close>

theorem verified_device_was_heard:
  assumes "verify w su target probe (Some a) secs now b = (Inr (a', seen), b')"
  shows "a' = a \<and> heard_under_key (bench_net b') a seen
    \<and> (\<exists>t found net1. target = Inr t \<and> client_device t a (bench_net b) = (Inr (Some found), net1)
         \<and> (\<forall>x. sum_last_seen found = Some x \<longrightarrow> x < seen))"
proof -
  obtain t where target: "target = Inr t"
    using assms by (cases target) (simp_all add: verify_def and_then_def lift_result_def)
  obtain r net1 where q: "client_device t a (bench_net b) = (r, net1)" by fastforce
  obtain found where r: "r = Inr (Some found)"
    using assms q
    by (auto simp: verify_def target and_then_def lift_result_def return_ok_def with_err_def on_net_def on_part_def throw_def
        split: sum.splits option.splits)
  have rest: "(case assess None found of
         Undecryptable status \<Rightarrow> throw (WaitFailed (WaitUndecryptable status))
       | _ \<Rightarrow>
         and_then (with_err WaitFailed (on_net (\<lambda>net.
             case wait_for_reading w t a (sum_last_seen found) secs now net of (r, _, net') \<Rightarrow> (r, net'))))
           (\<lambda>reported_at. return_ok (a, reported_at))) (b\<lparr>bench_net := net1\<rparr>) = (Inr (a', seen), b')"
    using assms q r by (simp add: verify_def target and_then_def lift_result_def return_ok_def with_err_def on_net_def on_part_def)
  have "a' = a \<and> (\<exists>now'. wait_for_reading w t a (sum_last_seen found) secs now net1 = (Inr seen, now', bench_net b'))"
    using rest
    by (cases "assess None found")
       (auto simp: and_then_Inr_iff return_ok_def with_err_Inr_iff on_net_def on_part_def throw_def split: prod.splits)
  then show ?thesis using wait_loop_reported target q r unfolding wait_for_reading_def by blast
qed

text \<open>C23: Waiting ends, and within its bounds: it asks the service at most once more than there are five-second
  intervals in the timeout, and it blames the time, or the network, only when the time is up.\<close>

theorem waiting_is_bounded:
  assumes "wait_for_reading w t a b secs now net = (result, now', net')"
  shows "net_calls net < net_calls net' \<and> 5 * (net_calls net' - net_calls net) \<le> secs + 5
    \<and> (result = Inl (TimedOut n) \<or> result = Inl (Unreachable n e) \<longrightarrow> n = secs \<and> now + secs * 1000000000 \<le> now')"
proof -
  let ?d = "now + secs * 1000000000"
  have run: "wait_loop w t a b secs ?d 0 now net = (result, now', net')"
    using assms by (simp add: wait_for_reading_def)
  obtain k where k: "net_calls net' = net_calls net + 1 + k" "k = 0 \<or> POLL_INTERVAL * k < ?d - now"
    using wait_loop_bounded [OF run] by blast
  have "5 * k \<le> secs" using k(2) by (auto simp: POLL_INTERVAL_def)
  moreover have "n = secs \<and> ?d \<le> now'" if "result = Inl (TimedOut n) \<or> result = Inl (Unreachable n e)"
    using that wait_loop_bounded [OF run] wait_loop_blames [OF run that] by blast
  ultimately show ?thesis using k(1) by auto
qed

section \<open>A device that reports\<close>

definition heard_reading :: reading_row where
  "heard_reading = \<lparr>rr_time = 150, rr_addr = addr_as_i64 sample_addr, rr_seq = 1, rr_temp = None, rr_rh = None,
     rr_battery = None, rr_rssi = Dbm 0\<rparr>"

definition keyed_service :: "bytes \<Rightarrow> reading_row list \<Rightarrow> service" where
  "keyed_service sealed rows =
     \<lparr>svc_registry = sample_registry,
      svc_db = \<lparr>devices_table = [\<lparr>row_addr = addr_as_i64 sample_addr, row_name = ''kitchen'', row_key = Some sealed,
                                   row_key_valid_from = 100\<rparr>],
                readings_table = rows\<rparr>\<rparr>"

text \<open>Its first reading is stored while the tool sleeps.\<close>

definition reporting :: "bytes \<Rightarrow> waiting" where
  "reporting sealed = \<lparr>wt_oversleep = (\<lambda>_. 0), wt_request = (\<lambda>_. 0), wt_world = (\<lambda>_ _. keyed_service sealed [heard_reading])\<rparr>"

lemma keyed_device:
  assumes "open_key_column clear_xaead (Some sealed) sample_addr (keyring sample_registry) = Inr key"
  shows "client_device sample_target sample_addr ((sample_network n)\<lparr>net_service := keyed_service sealed rows\<rparr>)
    = (Inr (Some \<lparr>sum_addr = sample_addr, sum_name = ''kitchen'', sum_key_status = StatusOk, sum_key_valid_from = 100,
                  sum_last_seen = newest_since rows (addr_as_i64 sample_addr) 100\<rparr>),
       (sample_network (Suc n))\<lparr>net_service := keyed_service sealed rows\<rparr>)"
  using assms
  by (simp add: client_device_def call_def sample_network_def sample_exchange_def sample_guard serve_get_def keyed_service_def
      get_device_def registry_summary_def activity_by_addr_def activity_of_row_def record_of_row_def find_row_def
      served_def handle_response_def reject_on_error_status_def is_success_def absent_if_not_registered_def classify_def Let_def)

lemma keyed_sealed: "\<exists>sealed key. open_key_column clear_xaead (Some sealed) sample_addr (keyring sample_registry) = Inr key"
proof -
  have k: "key_ok (DeviceKey (replicate 32 3))" by (simp add: key_ok_def DEVICE_KEY_SIZE_def)
  obtain s where "seal_with_nonce clear_xaead (keyring sample_registry) (DeviceKey (replicate 32 3)) sample_addr (replicate 24 0) = Some s"
    using seal_bytes [OF clear_xaead_ok sample_registry_facts(1) k sample_registry_facts(5)] by blast
  then show ?thesis
    using open_sealed_column [OF clear_xaead_ok sample_registry_facts(1) k sample_registry_facts(5)] by blast
qed

definition keyed_bench :: "bytes \<Rightarrow> bench" where
  "keyed_bench sealed = sample_bench\<lparr>bench_net := (sample_network 0)\<lparr>net_service := keyed_service sealed []\<rparr>\<rparr>"

lemma keyed_wait:
  assumes "open_key_column clear_xaead (Some sealed) sample_addr (keyring sample_registry) = Inr key"
  shows "\<exists>now' net'. wait_for_reading (reporting sealed) sample_target sample_addr None 180 0
       ((sample_network 1)\<lparr>net_service := keyed_service sealed []\<rparr>) = (Inr 150, now', net')"
  using keyed_device [OF assms, where n = 1 and rows = "[heard_reading]"]
  by (subst wait_for_reading_def, subst wait_loop.simps)
     (simp add: reporting_def poll_verdict_def assess_def newest_since_def heard_reading_def Let_def)

theorem verified_device_was_heard_witness:
  "\<exists>sealed b'. verify (reporting sealed) sample_setup (Inr sample_target) None (Some sample_addr) 180 0 (keyed_bench sealed)
       = (Inr (sample_addr, 150), b') \<and> heard_under_key (bench_net b') sample_addr 150"
proof -
  obtain sealed key where open_key: "open_key_column clear_xaead (Some sealed) sample_addr (keyring sample_registry) = Inr key"
    using keyed_sealed by blast
  obtain now' net' where wt: "wait_for_reading (reporting sealed) sample_target sample_addr None 180 0
       ((sample_network 1)\<lparr>net_service := keyed_service sealed []\<rparr>) = (Inr 150, now', net')"
    using keyed_wait [OF open_key] by blast
  have "\<exists>b'. verify (reporting sealed) sample_setup (Inr sample_target) None (Some sample_addr) 180 0 (keyed_bench sealed)
       = (Inr (sample_addr, 150), b')"
    using keyed_device [OF open_key, where n = 0 and rows = "[]"] wt
    by (simp add: verify_def and_then_def lift_result_def return_ok_def with_err_def on_net_def on_part_def keyed_bench_def
        assess_def newest_since_def)
  then show ?thesis using verified_device_was_heard by blast
qed

theorem waiting_is_bounded_witness:
  "\<exists>sealed now' net'. wait_for_reading (reporting sealed) sample_target sample_addr None 180 0
       ((sample_network 1)\<lparr>net_service := keyed_service sealed []\<rparr>) = (Inr 150, now', net')
     \<and> 5 * (net_calls net' - 1) \<le> 185"
proof -
  obtain sealed key where "open_key_column clear_xaead (Some sealed) sample_addr (keyring sample_registry) = Inr key"
    using keyed_sealed by blast
  from keyed_wait [OF this] obtain now' net' where w: "wait_for_reading (reporting sealed) sample_target sample_addr None 180 0
       ((sample_network 1)\<lparr>net_service := keyed_service sealed []\<rparr>) = (Inr 150, now', net')" by blast
  have "net_calls ((sample_network 1)\<lparr>net_service := keyed_service sealed []\<rparr>) = 1" by (simp add: sample_network_def)
  then show ?thesis using waiting_is_bounded [OF w] w by auto
qed

end
