(* ===== verification/Logs.thy ===== *)
theory Logs
  imports Firmware
begin

text \<open>\<open>src/provision/src/logs.rs\<close>: reading the board's own log after a reset. The target and the
  libraries that read it are the environment: what the n-th attempt to attach finds, what a channel
  holds in a round, how long each takes, and the defmt decoder as a state that takes bytes in and
  hands out the frames they complete. Time is in nanoseconds.\<close>

section \<open>Environment\<close>

record log_frame =
  lf_level :: "string option"
  lf_message :: string

record 'd log_env =
  le_table :: "bytes \<Rightarrow> string + 'd option"
  le_attach :: "nat \<Rightarrow> string + nat"
  le_read :: "nat \<Rightarrow> nat \<Rightarrow> string + bytes"
  le_attach_time :: "nat \<Rightarrow> nat"
  le_time :: "nat \<Rightarrow> nat"
  le_received :: "'d \<Rightarrow> bytes \<Rightarrow> 'd"
  le_decode :: "'d \<Rightarrow> log_frame list \<times> bool \<times> 'd"

section \<open>State\<close>

definition LOG_POLL :: nat where "LOG_POLL = 20 * 1000000"
definition ATTACH_TIMEOUT :: nat where "ATTACH_TIMEOUT = 10 * 1000000000"

record log_summary =
  log_frames :: nat
  log_channels :: nat
  log_bytes :: nat
  log_errors :: "string list"
  log_packets :: "bytes list"

definition is_silent :: "log_summary \<Rightarrow> bool" where "is_silent s \<longleftrightarrow> log_frames s = 0"

datatype log_error = LogTable string | NoDefmtData | LogMalformed | NoChannels | LogRtt string

section \<open>A logged packet\<close>

definition PACKET_PREFIX :: string where "PACKET_PREFIX = ''packet: ''"

definition strip_suffix :: "char \<Rightarrow> string \<Rightarrow> string option" where
  "strip_suffix c s = (if s \<noteq> [] \<and> last s = c then Some (butlast s) else None)"

fun collect_some :: "'a option list \<Rightarrow> 'a list option" where
  "collect_some [] = Some []"
| "collect_some (None # _) = None"
| "collect_some (Some x # xs) = map_option (\<lambda>ys. x # ys) (collect_some xs)"

definition parse_packet :: "string \<Rightarrow> bytes option" where
  "parse_packet message =
     Option.bind (strip_prefix PACKET_PREFIX message) (\<lambda>rest.
     Option.bind (strip_prefix ''['' (trim rest)) (\<lambda>opened.
     Option.bind (strip_suffix CHR '']'' opened) (\<lambda>list.
       collect_some (map (\<lambda>t. map_option of_nat (from_str_radix_16 256 (trim t))) (split_on CHR '','' list)))))"

section \<open>The stream\<close>

text \<open>Attaching until a channel appears.\<close>

function rtt_attach :: "'d log_env \<Rightarrow> nat \<Rightarrow> nat \<Rightarrow> nat \<Rightarrow> (log_error + nat) \<times> nat" where
  "rtt_attach env attach_by i now =
     (let now1 = now + 1 + le_attach_time env i in
      case le_attach env i of
        Inr n \<Rightarrow>
          if n \<noteq> 0 then (Inr n, now1)
          else if now1 \<ge> attach_by then (Inl NoChannels, now1)
          else rtt_attach env attach_by (i + 1) (now1 + LOG_POLL)
      | Inl e \<Rightarrow>
          if now1 \<ge> attach_by then (Inl (LogRtt e), now1)
          else rtt_attach env attach_by (i + 1) (now1 + LOG_POLL))"
  by pat_completeness auto
termination by (relation "measure (\<lambda>(env, attach_by, i, now). attach_by - now)") auto

declare rtt_attach.simps [simp del]

record 'd log_run =
  lr_decoder :: 'd
  lr_summary :: log_summary
  lr_out :: "string list"

text \<open>One pass over the channels; the flag says whether anything was read.\<close>

fun read_channels :: "'d log_env \<Rightarrow> nat \<Rightarrow> nat list \<Rightarrow> 'd log_run \<Rightarrow> bool \<Rightarrow> (log_error + bool) \<times> 'd log_run" where
  "read_channels env i [] run anything = (Inr anything, run)"
| "read_channels env i (ch # chs) run anything =
     (case le_read env i ch of
        Inl e \<Rightarrow> (Inl (LogRtt e), run)
      | Inr bs \<Rightarrow>
          if bs = [] then read_channels env i chs run anything
          else read_channels env i chs
                 (run\<lparr>lr_summary := (lr_summary run)\<lparr>log_bytes := log_bytes (lr_summary run) + length bs\<rparr>,
                     lr_decoder := le_received env (lr_decoder run) bs\<rparr>) True)"

definition pad_left_aligned :: "nat \<Rightarrow> string \<Rightarrow> string" where
  "pad_left_aligned w s = s @ replicate (w - length s) (CHR '' '')"

definition frame_level :: "log_frame \<Rightarrow> string" where
  "frame_level f = (case lf_level f of Some l \<Rightarrow> l | None \<Rightarrow> ''print'')"

definition take_frame :: "log_frame \<Rightarrow> 'd log_run \<Rightarrow> 'd log_run" where
  "take_frame f run =
     (let s = lr_summary run; message = lf_message f; level = frame_level f in
      run\<lparr>lr_summary :=
            s\<lparr>log_frames := log_frames s + 1,
              log_errors := (if level = ''error'' then log_errors s @ [message] else log_errors s),
              log_packets := (case parse_packet message of Some p \<Rightarrow> log_packets s @ [p] | None \<Rightarrow> log_packets s)\<rparr>,
          lr_out := lr_out run @ [''  ['' @ pad_left_aligned 5 (map to_upper level) @ ''] '' @ message]\<rparr>)"

definition drain :: "'d log_env \<Rightarrow> 'd log_run \<Rightarrow> (log_error + unit) \<times> 'd log_run" where
  "drain env run =
     (case le_decode env (lr_decoder run) of
        (frames, malformed, d) \<Rightarrow>
          (if malformed then Inl LogMalformed else Inr (), fold take_frame frames (run\<lparr>lr_decoder := d\<rparr>)))"

function read_log :: "'d log_env \<Rightarrow> nat \<Rightarrow> nat \<Rightarrow> nat \<Rightarrow> nat \<Rightarrow> 'd log_run \<Rightarrow> (log_error + unit) \<times> nat \<times> 'd log_run" where
  "read_log env channels deadline i now run =
     (if now \<ge> deadline then (Inr (), now, run)
      else case read_channels env i [0..<channels] run False of
        (Inl e, run1) \<Rightarrow> (Inl e, now + 1 + le_time env i, run1)
      | (Inr anything, run1) \<Rightarrow>
         (case drain env run1 of
            (Inl e, run2) \<Rightarrow> (Inl e, now + 1 + le_time env i, run2)
          | (Inr _, run2) \<Rightarrow>
              read_log env channels deadline (i + 1)
                (now + 1 + le_time env i + (if anything then 0 else LOG_POLL)) run2))"
  by pat_completeness auto
termination by (relation "measure (\<lambda>(env, channels, deadline, i, now, run). deadline - now)") auto

declare read_log.simps [simp del]

definition log_stream :: "'d log_env \<Rightarrow> bytes \<Rightarrow> nat \<Rightarrow> nat \<Rightarrow> (log_error + log_summary) \<times> nat \<times> string list" where
  "log_stream env elf window now =
     (case le_table env elf of
        Inl e \<Rightarrow> (Inl (LogTable e), now, [])
      | Inr None \<Rightarrow> (Inl NoDefmtData, now, [])
      | Inr (Some decoder) \<Rightarrow>
         (case rtt_attach env (now + ATTACH_TIMEOUT) 0 now of
            (Inl e, now1) \<Rightarrow> (Inl e, now1, [])
          | (Inr channels, now1) \<Rightarrow>
             (case read_log env channels (now1 + window) 0 now1
                     \<lparr>lr_decoder = decoder,
                      lr_summary = \<lparr>log_frames = 0, log_channels = channels, log_bytes = 0, log_errors = [], log_packets = []\<rparr>,
                      lr_out = []\<rparr> of
                (r, now2, run) \<Rightarrow> (map_ok (\<lambda>_. lr_summary run) r, now2, lr_out run))))"

section \<open>Facts\<close>

text \<open>The line the firmware logs, \<open>defmt::debug!("packet: {=[u8]:02x}", ..)\<close> in
  \<open>packet_builder.rs\<close>, as defmt prints it.\<close>

definition packet_line :: "bytes \<Rightarrow> string" where
  "packet_line bs = PACKET_PREFIX @ ''['' @ join_text '', '' (map (\<lambda>b. fw_hex [b]) bs) @ '']''"

lemma to_digit_lower_hex: "d < 16 \<Longrightarrow> to_digit_16 (lower_hex_digit d) = Some d"
  by (drule less_16_cases) (auto simp: lower_hex_digit_def to_digit_16_def)

lemma lower_hex_graphic: "d < 16 \<Longrightarrow> graphic (lower_hex_digit d) \<and> lower_hex_digit d \<noteq> CHR '','' \<and> lower_hex_digit d \<noteq> CHR ''+''"
  by (drule less_16_cases) (auto simp: lower_hex_digit_def graphic_def)

lemma nibbles: "unat (b :: byte) div 16 < 16" "unat b mod 16 < 16"
  using unsigned_less [of b] by simp_all

lemma byte_read_back: "map_option of_nat (from_str_radix_16 256 (trim (fw_hex [b]))) = Some (b :: byte)"
proof -
  have h: "fw_hex [b] = [lower_hex_digit (unat b div 16), lower_hex_digit (unat b mod 16)]" by (simp add: fw_hex_def)
  have "trim (fw_hex [b]) = fw_hex [b]" using lower_hex_graphic nibbles by (intro trim_graphic) (simp add: h)
  moreover have "from_str_radix_16 256 (fw_hex [b]) = Some (unat b)"
    using lower_hex_graphic [OF nibbles(1), of b] unsigned_less [of b]
    by (simp add: h from_str_radix_16_def to_digit_lower_hex nibbles)
  ultimately show ?thesis by simp
qed

lemma join_text_comma: "join_text '', '' (p # ps) = join_with CHR '','' (p # map (\<lambda>q. CHR '' '' # q) ps)"
proof (induction ps arbitrary: p)
  case (Cons q qs)
  then show ?case by (cases qs) simp_all
qed simp

lemma collect_some_map: "collect_some (map (\<lambda>x. Some (f x)) xs) = Some (map f xs)"
  by (induction xs) auto

lemma split_packet_bytes:
  "b # bs = cs \<Longrightarrow> split_on CHR '','' (join_text '', '' (map (\<lambda>b. fw_hex [b]) cs)) = fw_hex [b] # map (\<lambda>b. CHR '' '' # fw_hex [b]) bs"
proof -
  assume cs: "b # bs = cs"
  have no_comma: "CHR '','' \<notin> set (fw_hex [x])" for x
    using lower_hex_graphic [OF nibbles(1), of x] lower_hex_graphic [OF nibbles(2), of x] by (auto simp: fw_hex_def)
  show ?thesis
    unfolding cs [symmetric] list.map join_text_comma
    by (subst split_on_join) (auto simp: list_all_iff no_comma)
qed

lemma strip_prefix_append: "strip_prefix p (p @ s) = Some s"
  by (simp add: strip_prefix_def starts_with_def)

text \<open>What a run has accumulated.\<close>

definition run_consistent :: "nat \<Rightarrow> 'd log_run \<Rightarrow> bool" where
  "run_consistent channels run \<longleftrightarrow>
     length (lr_out run) = log_frames (lr_summary run) \<and> log_channels (lr_summary run) = channels
   \<and> length (log_errors (lr_summary run)) \<le> log_frames (lr_summary run)
   \<and> length (log_packets (lr_summary run)) \<le> log_frames (lr_summary run)"

lemma read_channels_consistent:
  "run_consistent n run \<Longrightarrow> read_channels env i chs run b = (r, run') \<Longrightarrow> run_consistent n run'"
proof (induction env i chs run b rule: read_channels.induct)
  case (2 env i ch chs run b)
  then show ?case by (auto simp: run_consistent_def split: sum.splits if_splits)
qed simp

lemma fold_frames_consistent: "run_consistent n run \<Longrightarrow> run_consistent n (fold take_frame fs run)"
  by (induction fs arbitrary: run) (auto simp: run_consistent_def take_frame_def Let_def split: option.split)

lemma drain_consistent: "run_consistent n run \<Longrightarrow> drain env run = (r, run') \<Longrightarrow> run_consistent n run'"
  by (auto simp: drain_def split: prod.splits intro!: fold_frames_consistent) (simp add: run_consistent_def)

lemma read_log_consistent:
  "run_consistent n run \<Longrightarrow> read_log env n deadline i now run = (r, now', run') \<Longrightarrow>
   run_consistent n run' \<and> (r = Inr () \<longrightarrow> deadline \<le> now')"
proof (induction env n deadline i now run rule: read_log.induct)
  case (1 env n deadline i now run)
  show ?case
  proof (cases "deadline \<le> now")
    case True
    then show ?thesis using 1(2,3) by (subst (asm) read_log.simps) auto
  next
    case late: False
    obtain a run1 where c: "read_channels env i [0..<n] run False = (a, run1)" by fastforce
    obtain d run2 where dr: "drain env run1 = (d, run2)" by fastforce
    have ok: "run_consistent n run1" "run_consistent n run2"
      using read_channels_consistent [OF 1(2) c] drain_consistent [OF _ dr] by auto
    show ?thesis
    proof (cases "(\<exists>e. a = Inl e) \<or> (\<exists>e. d = Inl e)")
      case True
      then show ?thesis using 1(3) late c dr ok by (subst (asm) read_log.simps) (auto split: sum.splits)
    next
      case False
      then obtain b where ab: "a = Inr b" "d = Inr ()" by (cases a; cases d) auto
      then have "read_log env n deadline (i + 1) (now + 1 + le_time env i + (if b then 0 else LOG_POLL)) run2 = (r, now', run')"
        using 1(3) late c dr by (subst (asm) read_log.simps) (simp split: if_splits)
      then show ?thesis using 1(1) [OF late c [symmetric] ab(1) dr [unfolded ab(2), symmetric] refl ok(2)] by blast
    qed
  qed
qed

lemma rtt_attach_result:
  "rtt_attach env attach_by i now = (r, now') \<Longrightarrow>
   now < now' \<and> (case r of Inr n \<Rightarrow> n \<noteq> 0 | Inl e \<Rightarrow> attach_by \<le> now')"
proof (induction env attach_by i now rule: rtt_attach.induct)
  case (1 env attach_by i now)
  let ?now = "now + 1 + le_attach_time env i"
  show ?case
  proof (cases "(\<exists>n. le_attach env i = Inr n \<and> n \<noteq> 0) \<or> attach_by \<le> ?now")
    case True
    then show ?thesis using 1(3) by (subst (asm) rtt_attach.simps) (auto simp: Let_def split: sum.splits if_splits)
  next
    case False
    then have "rtt_attach env attach_by (i + 1) (?now + LOG_POLL) = (r, now')"
      using 1(3) by (subst (asm) rtt_attach.simps) (auto simp: Let_def split: sum.splits if_splits)
    moreover have "?now + LOG_POLL < now' \<and> (case r of Inr n \<Rightarrow> n \<noteq> 0 | Inl e \<Rightarrow> attach_by \<le> now')"
    proof (cases "le_attach env i")
      case (Inl e)
      then show ?thesis using 1(1) [OF refl Inl] False calculation by simp
    next
      case (Inr n)
      then show ?thesis using 1(2) [OF refl Inr] False calculation by simp
    qed
    ultimately show ?thesis by simp
  qed
qed

section \<open>Properties\<close>

text \<open>The tool reads a packet back from the board's log: the line the firmware logs for the bytes it puts
  on air parses to exactly those bytes, and the line of an empty buffer to nothing.\<close>

theorem logged_packet_read_back:
  "parse_packet (packet_line bs) = (case bs of [] \<Rightarrow> None | _ \<Rightarrow> Some bs)"
proof (cases bs)
  case Nil
  have "trim ''[]'' = ''[]''" "trim '''' = ''''" by (intro trim_graphic; simp add: graphic_def)+
  then show ?thesis
    by (simp add: Nil packet_line_def parse_packet_def strip_prefix_append strip_suffix_def from_str_radix_16_def
        strip_prefix_def starts_with_def)
next
  case (Cons b cs)
  define body where "body = join_text '', '' (map (\<lambda>b. fw_hex [b]) bs)"
  have "trim (''['' @ body @ '']'') = ''['' @ body @ '']''" by (intro trim_graphic) (simp add: graphic_def)
  moreover have "split_on CHR '','' body = fw_hex [b] # map (\<lambda>b. CHR '' '' # fw_hex [b]) cs"
    unfolding body_def using Cons by (intro split_packet_bytes) simp
  ultimately have "parse_packet (packet_line bs) = collect_some (map (\<lambda>b. Some b) (b # cs))"
    unfolding packet_line_def body_def [symmetric] parse_packet_def strip_prefix_append
    by (simp add: strip_prefix_def starts_with_def strip_suffix_def butlast_append byte_read_back trim_blank o_def)
  then show ?thesis using Cons collect_some_map [of "\<lambda>x. x" "b # cs"] by simp
qed

text \<open>Silence means silence, and the whole window was listened to: when the log was read without an error,
  the board published a channel, at least the window passed after attaching, one line was printed per frame,
  and a summary that is silent reports no line, no error and no packet.\<close>

theorem silence_is_no_frame:
  assumes "log_stream env elf window now = (Inr s, now', out)"
  shows "log_channels s \<noteq> 0 \<and> now + window < now' \<and> length out = log_frames s
    \<and> (is_silent s \<longrightarrow> out = [] \<and> log_errors s = [] \<and> log_packets s = [])"
proof -
  obtain decoder channels now1 run where a: "rtt_attach env (now + ATTACH_TIMEOUT) 0 now = (Inr channels, now1)"
    and r: "read_log env channels (now1 + window) 0 now1
             \<lparr>lr_decoder = decoder,
              lr_summary = \<lparr>log_frames = 0, log_channels = channels, log_bytes = 0, log_errors = [], log_packets = []\<rparr>,
              lr_out = []\<rparr> = (Inr (), now', run)"
    and s: "s = lr_summary run" "out = lr_out run"
    using assms by (auto simp: log_stream_def split: sum.splits option.splits prod.splits) 
  have "run_consistent channels run \<and> now1 + window \<le> now'"
    using read_log_consistent [OF _ r] by (simp add: run_consistent_def)
  then show ?thesis using rtt_attach_result [OF a] s by (auto simp: run_consistent_def is_silent_def)
qed

text \<open>A board that says one thing.\<close>

definition sample_log_env :: "log_frame list log_env" where
  "sample_log_env =
     \<lparr>le_table = (\<lambda>_. Inr (Some [\<lparr>lf_level = Some ''info'', lf_message = ''boot''\<rparr>])), le_attach = (\<lambda>i. Inr i),
      le_read = (\<lambda>i _. if i = 0 then Inr [1] else Inr []), le_attach_time = (\<lambda>_. 0), le_time = (\<lambda>_. 3000000000),
      le_received = (\<lambda>d _. d), le_decode = (\<lambda>d. (d, False, []))\<rparr>"

theorem silence_is_no_frame_witness:
  "\<exists>s now' out. log_stream sample_log_env [] 3000000000 0 = (Inr s, now', out) \<and> log_channels s \<noteq> 0 \<and> \<not> is_silent s
     \<and> length out = log_frames s"
proof -
  obtain s now' out where run: "log_stream sample_log_env [] 3000000000 0 = (Inr s, now', out)" "\<not> is_silent s"
    by (simp add: log_stream_def sample_log_env_def rtt_attach.simps [of _ _ 0] rtt_attach.simps [of _ _ "Suc 0"] Let_def
        ATTACH_TIMEOUT_def LOG_POLL_def read_log.simps drain_def take_frame_def is_silent_def)
  then show ?thesis using silence_is_no_frame [OF run(1)] by auto
qed

end
