(* ===== verification/Output.thy ===== *)
theory Output
  imports Logs Board ApiStore "HOL-Library.Product_Lexorder"
begin

text \<open>\<open>src/provision/src/output.rs\<close> and the listing half of \<open>firmware.rs\<close>: the texts the tool prints.
  A \<open>str\<close> is the list of its UTF-8 bytes, so its characters are groups of them. Formatting a time
  and Rust's \<open>{:?}\<close> of a name are library code and parameters; times are in nanoseconds.\<close>

section \<open>Characters\<close>

definition continuation_char :: "char \<Rightarrow> bool" where
  "continuation_char c = (let n = of_char c :: nat in 128 \<le> n \<and> n < 192)"

definition ascii_char :: "char \<Rightarrow> bool" where "ascii_char c = ((of_char c :: nat) < 128)"

function utf8_chars :: "string \<Rightarrow> string list" where
  "utf8_chars [] = []"
| "utf8_chars (c # cs) =
     (if ascii_char c then [c] # utf8_chars cs
      else (c # takeWhile continuation_char cs) # utf8_chars (dropWhile continuation_char cs))"
  by pat_completeness auto
termination by (relation "measure length") (simp_all add: length_dropWhile_le le_imp_less_Suc)

definition char_count :: "string \<Rightarrow> nat" where "char_count s = length (utf8_chars s)"

text \<open>\<open>{:<w$}\<close>.\<close>

definition pad_chars :: "nat \<Rightarrow> string \<Rightarrow> string" where
  "pad_chars w s = s @ replicate (w - char_count s) (CHR '' '')"

definition NEWLINE :: char where "NEWLINE = CHR 0x0A"
definition TAB :: char where "TAB = CHR 0x09"
definition MIDDLE_DOT :: string where "MIDDLE_DOT = [CHR 0xC2, CHR 0xB7]"

section \<open>Times\<close>

record out_env =
  oe_timestamp :: "int \<Rightarrow> string"
  oe_rfc3339 :: "int \<Rightarrow> string"
  oe_debug :: "string \<Rightarrow> string"

text \<open>\<open>TimeDelta::num_seconds\<close> rounds towards zero.\<close>

definition num_seconds :: "int \<Rightarrow> int" where
  "num_seconds d = (if d < 0 then - ((- d) div 1000000000) else d div 1000000000)"

definition age :: "int \<Rightarrow> int \<Rightarrow> string" where
  "age before now =
     (let secs = num_seconds (now - before) in
      if secs < 60 then ''just now''
      else if secs < 3600 then show_int (secs div 60) @ ''m ago''
      else if secs < 86400 then show_int (secs div 3600) @ ''h ago''
      else show_int (secs div 86400) @ ''d ago'')"

definition seen_at :: "out_env \<Rightarrow> int \<Rightarrow> int \<Rightarrow> string" where
  "seen_at oe seen now = oe_timestamp oe seen @ '' ('' @ age seen now @ '')''"

section \<open>The identity block\<close>

definition TARGET :: string where "TARGET = ''nRF52840_xxAA''"

fun record_summary :: "record_header \<Rightarrow> string" where
  "record_summary HeaderBlank = ''blank''"
| "record_summary HeaderPresent = ''provisioned''"
| "record_summary (HeaderMalformed err) = ''malformed '' @ em_dash @ '' '' @ record_error_display err"

fun key_status_label :: "device_key_status \<Rightarrow> string" where
  "key_status_label StatusOk = ''ok''"
| "key_status_label StatusMissing = ''missing''"
| "key_status_label StatusInvalid = ''invalid''"
| "key_status_label StatusKekUnavailable = ''kek unavailable''"
| "key_status_label StatusUnopenable = ''unopenable''"
| "key_status_label StatusUnknown = ''unknown''"

definition identity_text :: "string \<Rightarrow> string \<Rightarrow> chip_state \<Rightarrow> string" where
  "identity_text probe target state =
     ''Probe    '' @ probe @ [NEWLINE] @ ''Target   '' @ target @ [NEWLINE]
     @ ''Address  '' @ encode_hex (cs_device_addr state) @ [NEWLINE]
     @ ''Record   '' @ record_summary (cs_record state) @ [NEWLINE]"

definition identity_locked_text :: "string \<Rightarrow> string \<Rightarrow> string" where
  "identity_locked_text probe target =
     ''Probe    '' @ probe @ [NEWLINE] @ ''Target   '' @ target @ [NEWLINE]
     @ ''Status   locked (APPROTECT) '' @ em_dash @ '' address unreadable'' @ [NEWLINE]"

definition fleet_summary :: "out_env \<Rightarrow> device_summary option \<Rightarrow> int \<Rightarrow> string" where
  "fleet_summary oe summary now =
     (case summary of
        None \<Rightarrow> ''not registered''
      | Some device \<Rightarrow>
          oe_debug oe (sum_name device) @ '' '' @ MIDDLE_DOT @ '' key '' @ key_status_label (sum_key_status device)
          @ '' '' @ MIDDLE_DOT @ '' ''
          @ (case sum_last_seen device of
               Some seen \<Rightarrow> ''last seen '' @ seen_at oe seen now
             | None \<Rightarrow> ''never reported under this key''))"

definition fleet_text :: "out_env \<Rightarrow> string \<Rightarrow> device_summary option \<Rightarrow> int \<Rightarrow> string" where
  "fleet_text oe api_label summary now =
     ''API      '' @ api_label @ [NEWLINE] @ ''Fleet    '' @ fleet_summary oe summary now @ [NEWLINE]"

section \<open>The listing\<close>

text \<open>The status as serde writes it.\<close>

fun wire_status :: "device_key_status \<Rightarrow> string" where
  "wire_status StatusOk = ''OK''"
| "wire_status StatusMissing = ''MISSING''"
| "wire_status StatusInvalid = ''INVALID''"
| "wire_status StatusKekUnavailable = ''KEK_UNAVAILABLE''"
| "wire_status StatusUnopenable = ''UNOPENABLE''"
| "wire_status StatusUnknown = ''UNKNOWN''"

definition one_line :: "string \<Rightarrow> string" where
  "one_line name = concat (map (\<lambda>c. if c \<in> set control_chars then '' '' else c) (utf8_chars name))"

definition listing_key :: "device_summary \<Rightarrow> string \<times> int" where
  "listing_key d = (sum_name d, sint (addr_as_i64 (sum_addr d)))"

definition LISTING_HEADER :: "string list" where "LISTING_HEADER = [''ADDRESS'', ''NAME'', ''KEY'', ''LAST SEEN'']"

definition table_cells :: "out_env \<Rightarrow> int \<Rightarrow> device_summary \<Rightarrow> string list" where
  "table_cells oe now d =
     [encode_hex (sum_addr d), one_line (sum_name d), key_status_label (sum_key_status d),
      (case sum_last_seen d of None \<Rightarrow> ''never'' | Some seen \<Rightarrow> seen_at oe seen now)]"

definition table_widths :: "string list list \<Rightarrow> nat list" where
  "table_widths cells =
     foldl (\<lambda>widths row. map2 (\<lambda>w c. max w (char_count c)) widths row) (map char_count LISTING_HEADER) cells"

definition table_line :: "nat list \<Rightarrow> string list \<Rightarrow> string" where
  "table_line widths row = trim_end (join_text ''  '' (map2 (\<lambda>cell width. pad_chars width cell) row widths)) @ [NEWLINE]"

definition listing_table :: "out_env \<Rightarrow> device_summary list \<Rightarrow> int \<Rightarrow> string" where
  "listing_table oe rows now =
     (let cells = map (table_cells oe now) rows
      in concat (map (table_line (table_widths cells)) (LISTING_HEADER # cells)))"

definition row_fields :: "out_env \<Rightarrow> device_summary \<Rightarrow> string list" where
  "row_fields oe d =
     [encode_hex (sum_addr d), one_line (sum_name d), wire_status (sum_key_status d),
      (case sum_last_seen d of Some seen \<Rightarrow> oe_rfc3339 oe seen | None \<Rightarrow> [])]"

definition tab_separated :: "out_env \<Rightarrow> device_summary list \<Rightarrow> string" where
  "tab_separated oe rows = concat (map (\<lambda>d. join_with TAB (row_fields oe d) @ [NEWLINE]) rows)"

definition fleet_listing :: "out_env \<Rightarrow> device_summary list \<Rightarrow> int \<Rightarrow> bool \<Rightarrow> string" where
  "fleet_listing oe devices now for_terminal =
     (let rows = sort_key listing_key devices
      in if for_terminal then listing_table oe rows now else tab_separated oe rows)"

section \<open>Stored firmware\<close>

definition name_width :: "artifact list \<Rightarrow> nat" where
  "name_width artifacts = fold max (map (\<lambda>a. char_count (art_name a)) artifacts) 0"

definition describe :: "artifact \<Rightarrow> int \<Rightarrow> nat \<Rightarrow> string" where
  "describe a now width =
     (let provenance_text = (case art_git a of
                               Some commit \<Rightarrow> if art_dirty a then commit @ ''+dirty'' else commit
                             | None \<Rightarrow> ''no commit'')
      in pad_chars width (art_name a) @ '' '' @ pad_chars 14 provenance_text @ '' '' @ pad_chars 12 (art_id a)
         @ '' built '' @ age (art_built_at a) now)"

section \<open>Facts\<close>

lemma utf8_chars_concat: "concat (utf8_chars s) = s"
  by (induction s rule: utf8_chars.induct) auto

text \<open>A separator survives in no cell: it is ASCII, so a character of its own, and a control character.\<close>

lemma one_line_ascii_control:
  assumes "ascii_char c" "[c] \<in> set control_chars" "c \<noteq> CHR '' ''"
  shows "c \<notin> set (one_line name)"
proof (induction name rule: utf8_chars.induct)
  case 1
  then show ?case by (simp add: one_line_def)
next
  case (2 d cs)
  have cont: "\<not> continuation_char c" using assms(1) by (simp add: continuation_char_def ascii_char_def Let_def)
  have "c \<notin> set (takeWhile continuation_char cs)" using cont set_takeWhileD by fastforce
  then show ?case
    using 2 assms by (cases "d = c") (auto simp: one_line_def)
qed

lemma separators: "ascii_char TAB" "ascii_char NEWLINE" "[TAB] \<in> set control_chars" "[NEWLINE] \<in> set control_chars"
  "TAB \<noteq> CHR '' ''" "NEWLINE \<noteq> CHR '' ''" "TAB \<noteq> NEWLINE"
  by (code_simp)+

lemma encode_hex_graphic: "x \<in> set (encode_hex a) \<Longrightarrow> is_ascii_hexdigit x"
  using encode_hex_digits by (auto simp: list_all_iff)

lemma separators_not_hex: "\<not> is_ascii_hexdigit TAB" "\<not> is_ascii_hexdigit NEWLINE"
  by (code_simp)+

lemma wire_status_clean: "TAB \<notin> set (wire_status st) \<and> NEWLINE \<notin> set (wire_status st)"
  by (cases st) (auto simp: TAB_def NEWLINE_def)

lemma row_fields_clean:
  assumes "\<And>t. TAB \<notin> set (oe_rfc3339 oe t) \<and> NEWLINE \<notin> set (oe_rfc3339 oe t)"
  shows "list_all (\<lambda>f. TAB \<notin> set f \<and> NEWLINE \<notin> set f) (row_fields oe d)"
  using assms encode_hex_graphic [of _ "sum_addr d"] separators_not_hex wire_status_clean
    one_line_ascii_control [OF separators(1,3,5)] one_line_ascii_control [OF separators(2,4,6)]
  by (auto simp: row_fields_def split: option.split)

lemma join_with_clean: "list_all (\<lambda>f. x \<notin> set f) fs \<Longrightarrow> x \<noteq> c \<Longrightarrow> x \<notin> set (join_with c fs)"
  by (induction c fs rule: join_with.induct) auto

lemma tab_separated_lines:
  assumes "\<And>d. NEWLINE \<notin> set (join_with TAB (row_fields oe d))"
  shows "split_on NEWLINE (tab_separated oe rows) = map (\<lambda>d. join_with TAB (row_fields oe d)) rows @ [[]]"
  using assms by (induction rows) (simp_all add: tab_separated_def split_on_append)

text \<open>A clock that lags shows no negative age.\<close>

lemma age_future: "now \<le> before \<Longrightarrow> age before now = ''just now''"
  by (auto simp: age_def num_seconds_def Let_def)

section \<open>Properties\<close>

text \<open>C35: The piped listing is one row per registered device and nothing else, sorted by name and then address,
  and cutting a row at its tabs gives the four fields whatever the device is called: splitting undoes the
  formatting, provided that the library's RFC 3339 text has no tab or line break in it.\<close>

theorem piped_rows_exact:
  assumes "\<And>t. TAB \<notin> set (oe_rfc3339 oe t) \<and> NEWLINE \<notin> set (oe_rfc3339 oe t)"
  shows "\<exists>rows. mset rows = mset devices \<and> sorted (map listing_key rows)
    \<and> map (split_on TAB) (split_on NEWLINE (fleet_listing oe devices now False)) = map (row_fields oe) rows @ [[[]]]
    \<and> map (\<lambda>d. addr_from_str (hd (row_fields oe d))) rows = map (\<lambda>d. Inr (sum_addr d)) rows"
proof -
  let ?rows = "sort_key listing_key devices"
  note clean = row_fields_clean [OF assms]
  have nl: "NEWLINE \<notin> set (join_with TAB (row_fields oe d))" for d
    using clean [of d] separators(7) by (intro join_with_clean) (auto simp: list_all_iff)
  have tabs: "split_on TAB (join_with TAB (row_fields oe d)) = row_fields oe d" for d
    using clean [of d] by (intro split_on_join) (auto simp: list_all_iff row_fields_def)
  have "map (split_on TAB) (split_on NEWLINE (fleet_listing oe devices now False)) = map (row_fields oe) ?rows @ [[[]]]"
    by (simp add: fleet_listing_def tab_separated_lines [OF nl] tabs)
  moreover have "addr_from_str (hd (row_fields oe d)) = Inr (sum_addr d)" for d
    by (simp add: row_fields_def addr_from_encode_hex)
  ultimately show ?thesis by (intro exI [of _ ?rows]) simp
qed

definition plain_env :: out_env where
  "plain_env = \<lparr>oe_timestamp = (\<lambda>_. ''then''), oe_rfc3339 = (\<lambda>_. ''2025-07-20T08:23:40Z''), oe_debug = (\<lambda>s. s)\<rparr>"

definition tabbed_summary :: device_summary where
  "tabbed_summary = \<lparr>sum_addr = DeviceAddr 2 2 3 4 5 6, sum_name = ''gar'' @ [TAB] @ ''age'', sum_key_status = StatusKekUnavailable,
     sum_key_valid_from = 0, sum_last_seen = None\<rparr>"

theorem piped_rows_exact_witness:
  "map (split_on TAB) (split_on NEWLINE (fleet_listing plain_env [tabbed_summary] 0 False))
     = [[encode_hex (DeviceAddr 2 2 3 4 5 6), ''gar age'', ''KEK_UNAVAILABLE'', []], [[]]]"
proof -
  have env: "TAB \<notin> set (oe_rfc3339 plain_env t) \<and> NEWLINE \<notin> set (oe_rfc3339 plain_env t)" for t
    by (simp add: plain_env_def TAB_def NEWLINE_def)
  obtain rows where "mset rows = mset [tabbed_summary]"
    and r: "map (split_on TAB) (split_on NEWLINE (fleet_listing plain_env [tabbed_summary] 0 False))
      = map (row_fields plain_env) rows @ [[[]]]"
    using piped_rows_exact [OF env, of "[tabbed_summary]" 0] by blast
  then have "rows = [tabbed_summary]" by simp
  moreover have "one_line (''gar'' @ [TAB] @ ''age'') = ''gar age''" by code_simp
  ultimately show ?thesis using r by (simp add: row_fields_def tabbed_summary_def)
qed

end
