(* ===== verification/Session.thy ===== *)
theory Session
  imports Output Commands CommandFacts
begin

text \<open>The commands of \<open>src/provision/src/commands.rs\<close> that touch no board: logging in and out, asking who
  one is, listing the fleet, managing stored firmware. The tool's files are read at the start of each
  command and live on one disk; \<open>ss_out\<close> is what stdout received. What goes to stderr is left out.\<close>

section \<open>State\<close>

record session =
  ss_disk :: disk
  ss_net :: network
  ss_tty :: terminal
  ss_out :: string

record session_env =
  se_config_home :: "string option"
  se_data_home :: "string option"
  se_home :: "string option"
  se_token :: "string option"
  se_toml :: toml_env
  se_firmware :: firmware_env
  se_print :: out_env
  se_stdout_is_terminal :: bool
  se_now :: int

datatype session_error =
    SsStore store_error
  | SsClient client_error
  | SsFirmware firmware_error
  | TokenUnreadable string
  | NoTokenProvided
  | NoProfileSelected

definition DEFAULT_PROFILE :: string where "DEFAULT_PROFILE = ''default''"
definition STORE_SUBDIR :: string where "STORE_SUBDIR = ''firmware''"

definition on_session_net :: "(network, 'e, 'a) comp \<Rightarrow> (session, 'e, 'a) comp" where
  "on_session_net = on_part ss_net (\<lambda>n s. s\<lparr>ss_net := n\<rparr>)"

definition on_session_disk :: "(disk, 'e, 'a) comp \<Rightarrow> (session, 'e, 'a) comp" where
  "on_session_disk = on_part ss_disk (\<lambda>d s. s\<lparr>ss_disk := d\<rparr>)"

definition print_out :: "string \<Rightarrow> (session, 'e, unit) comp" where
  "print_out t s = (Inr (), s\<lparr>ss_out := ss_out s @ t\<rparr>)"

text \<open>An operation of a loaded store, on the session's disk.\<close>

definition on_profiles :: "prov_store \<Rightarrow> (prov_store, 'e, 'a) comp \<Rightarrow> (session, 'e, 'a) comp" where
  "on_profiles store m s = (case m (store\<lparr>ps_disk := ss_disk s\<rparr>) of (r, st) \<Rightarrow> (r, s\<lparr>ss_disk := ps_disk st\<rparr>))"

definition on_firmware :: "firmware_store \<Rightarrow> (firmware_store, 'e, 'a) comp \<Rightarrow> (session, 'e, 'a) comp" where
  "on_firmware store m s = (case m (store\<lparr>fst_disk := ss_disk s\<rparr>) of (r, st) \<Rightarrow> (r, s\<lparr>ss_disk := fst_disk st\<rparr>))"

interpretation session_net_part: part ss_net "\<lambda>n s. s\<lparr>ss_net := n\<rparr>" by unfold_locales simp_all
interpretation session_disk_part: part ss_disk "\<lambda>d s. s\<lparr>ss_disk := d\<rparr>" by unfold_locales simp_all

section \<open>Loading\<close>

definition profiles_load :: "session_env \<Rightarrow> (session, session_error, prov_store) comp" where
  "profiles_load env =
     with_err SsStore (and_then (lift_result (config_dir (se_config_home env) (se_home env)))
       (\<lambda>dir. on_session_disk (store_at (se_toml env) dir)))"

text \<open>\<open>FirmwareError::Store\<close> is the profile store's error.\<close>

definition firmware_load :: "session_env \<Rightarrow> (session, session_error, firmware_store) comp" where
  "firmware_load env =
     and_then (with_err SsStore (lift_result (data_dir (se_data_home env) (se_home env))))
       (\<lambda>dir. with_err SsFirmware (on_session_disk (firmware_at (se_firmware env) (path_join dir STORE_SUBDIR))))"

definition resolve_client :: "session_env \<Rightarrow> string option \<Rightarrow> string option \<Rightarrow> (session, session_error, api_target) comp" where
  "resolve_client env profile api_url =
     and_then (profiles_load env) (\<lambda>store.
       with_err SsStore (lift_result (store_resolve store (se_token env) profile api_url)))"

definition target_profile :: "prov_store \<Rightarrow> string option \<Rightarrow> string option" where
  "target_profile store profile = (case profile of Some p \<Rightarrow> Some p | None \<Rightarrow> cfg_default_profile (ps_config store))"

section \<open>The token\<close>

text \<open>From a terminal without echo or from a pipe; an exhausted stdin reads as the empty line.\<close>

definition read_token :: "(session, session_error, string) comp" where
  "read_token s =
     (let s1 = s\<lparr>ss_tty := (ss_tty s)\<lparr>tty_lines := tl (tty_lines (ss_tty s))\<rparr>\<rparr> in
      case (case tty_lines (ss_tty s) of [] \<Rightarrow> Inr [] | l # _ \<Rightarrow> l) of
        Inl e \<Rightarrow> (Inl (TokenUnreadable e), s1)
      | Inr raw \<Rightarrow> if trim raw = [] then (Inl NoTokenProvided, s1) else (Inr (trim raw), s1))"

section \<open>Commands\<close>

definition login :: "session_env \<Rightarrow> string option \<Rightarrow> string option \<Rightarrow> (session, session_error, unit) comp" where
  "login env profile_arg api_url =
     and_then (profiles_load env) (\<lambda>store.
       let profile = or_default DEFAULT_PROFILE (target_profile store profile_arg) in
     and_then (with_err SsStore (lift_result (store_login_url store profile api_url))) (\<lambda>url.
     and_then read_token (\<lambda>tok.
     and_then (with_err SsClient (on_session_net
         (client_check_auth \<lparr>target_label = profile, target_url = url, target_token = tok\<rparr>))) (\<lambda>_.
       with_err SsStore (on_profiles store
         (store_login (se_toml env) profile (Some url) \<lparr>cr_token = tok, cr_subject = None, cr_expires_at = None\<rparr>))))))"

definition logout :: "session_env \<Rightarrow> string option \<Rightarrow> (session, session_error, bool) comp" where
  "logout env profile_arg =
     and_then (profiles_load env) (\<lambda>store.
       case target_profile store profile_arg of
         None \<Rightarrow> throw NoProfileSelected
       | Some profile \<Rightarrow> with_err SsStore (on_profiles store (store_logout (se_toml env) profile)))"

definition whoami_lines :: "api_target \<Rightarrow> string \<Rightarrow> string" where
  "whoami_lines t status =
     ''Profile  '' @ target_label t @ [NEWLINE] @ ''API      '' @ target_url t @ [NEWLINE] @ ''Token    '' @ status @ [NEWLINE]"

definition whoami :: "session_env \<Rightarrow> string option \<Rightarrow> string option \<Rightarrow> (session, session_error, unit) comp" where
  "whoami env profile api_url =
     and_then (resolve_client env profile api_url) (\<lambda>t.
     and_then (or_else (with_err SsClient (on_session_net (client_check_auth t)))
                 (\<lambda>err. and_then (print_out (whoami_lines t ''rejected'')) (\<lambda>_. throw err))) (\<lambda>_.
       print_out (whoami_lines t ''accepted'')))"

definition list_devices :: "session_env \<Rightarrow> string option \<Rightarrow> string option \<Rightarrow> (session, session_error, unit) comp" where
  "list_devices env profile api_url =
     and_then (resolve_client env profile api_url) (\<lambda>t.
     and_then (with_err SsClient (on_session_net (client_devices t))) (\<lambda>devices.
       if se_stdout_is_terminal env \<and> devices = [] then return_ok ()
       else print_out (fleet_listing (se_print env) devices (se_now env) (se_stdout_is_terminal env))))"

datatype firmware_command = FwAdd string string | FwList | FwRemove string

definition firmware_command_run :: "session_env \<Rightarrow> firmware_command \<Rightarrow> (session, session_error, unit) comp" where
  "firmware_command_run env command =
     and_then (firmware_load env) (\<lambda>store.
       case command of
         FwAdd path name \<Rightarrow>
           and_then (with_err SsFirmware (on_firmware store (firmware_add (se_firmware env) (se_now env) path name))) (\<lambda>a.
             print_out (art_name a @ [TAB] @ art_id a @ [NEWLINE]))
       | FwRemove name \<Rightarrow>
           and_then (with_err SsFirmware (on_firmware store (firmware_remove (se_firmware env) name))) (\<lambda>_. return_ok ())
       | FwList \<Rightarrow>
           print_out (concat (map (\<lambda>a. describe a (se_now env) (name_width (fst_artifacts store)) @ [NEWLINE])
             (fst_artifacts store))))"

section \<open>Facts\<close>

text \<open>A target's token passes the guard exactly when it is the service's.\<close>

lemma guarded_refuses:
  assumes "trim_end (target_token t) \<noteq> token tok"
  shows "guarded tok t handler svc = (Some (Inl unauthorized), svc)"
proof -
  have "require_bearer Some tok (Some (auth_header t)) (\<lambda>_. Inr ()) = (Inl unauthorized :: api_error + unit)"
    using assms unfolding require_bearer_cases by (simp add: auth_header_def)
  then show ?thesis by (simp add: guarded_def)
qed

lemma refused_not_success: "\<not> is_success (err_status unauthorized)"
  by (simp add: unauthorized_def add_header_def api_error_new_def is_success_def)

text \<open>A token that passes \<open>check_auth\<close> is the service's.\<close>

lemma check_auth_token:
  assumes "client_check_auth t net = (Inr (), net')"
  shows "trim_end (target_token t) = token (net_admin_token net)"
proof (rule ccontr)
  assume "trim_end (target_token t) \<noteq> token (net_admin_token net)"
  note g = guarded_refuses [OF this]
  let ?h = "\<lambda>ex X svc. case serve_list ex X svc of (r, svc') \<Rightarrow> (map_option (map_ok (\<lambda>(s, _). (s, ()))) r, svc')"
  obtain q net1 where q: "call t ?h net = (q, net1)" by fastforce
  have "\<exists>e. q = Inl e \<and> (\<forall>st m. e = ResponseDeserialization st m \<longrightarrow> \<not> is_success st)"
    using q refused_not_success
    by (auto simp: call_def Let_def g served_def handle_response_def reject_on_error_status_def split: if_splits)
  then show False
    using assms q by (auto simp: client_check_auth_def split: client_error.splits if_splits)
qed

lemma profiles_load_frame:
  "profiles_load env s = (r, s1) \<Longrightarrow> ss_net s1 = ss_net s \<and> ss_tty s1 = ss_tty s"
  by (auto simp: profiles_load_def with_err_def and_then_def lift_result_def on_session_disk_def on_part_def
      split: prod.splits sum.splits)

lemma fs_reads_files:
  "fs_mode p d = (r1, d1) \<Longrightarrow> dk_files d1 = dk_files d"
  "fs_read_to_string p d = (r2, d2) \<Longrightarrow> dk_files d2 = dk_files d"
  by (auto simp: fs_mode_def fs_read_to_string_def fs_read_def fs_step_def and_then_def return_ok_def throw_def
      split: option.splits prod.splits sum.splits if_splits)

lemma read_toml_files: "read_toml parse path private d = (r, d1) \<Longrightarrow> dk_files d1 = dk_files d"
  unfolding read_toml_def
  by (auto simp: and_then_def lift_result_def with_err_def split: prod.splits sum.splits io_error.splits if_splits
      dest!: fs_reads_files)

lemma store_at_files: "store_at env dir d = (r, d1) \<Longrightarrow> dk_files d1 = dk_files d"
  by (auto simp: store_at_def and_then_def split: prod.splits sum.splits dest!: read_toml_files)

lemma profiles_load_files: "profiles_load env s = (r, s1) \<Longrightarrow> dk_files (ss_disk s1) = dk_files (ss_disk s)"
  by (auto simp: profiles_load_def with_err_def and_then_def lift_result_def on_session_disk_def on_part_def
      split: prod.splits sum.splits dest!: store_at_files)

lemma trim_front_twice: "trim_front ws (trim_front ws s) = trim_front ws s"
proof (induction ws s rule: trim_front.induct)
  case (1 ws s)
  show ?case
  proof (cases "List.find (\<lambda>w. w \<noteq> [] \<and> starts_with w s) ws")
    case None
    then have "trim_front ws s = s" by (subst trim_front.simps) simp
    then show ?thesis by simp
  next
    case (Some w)
    then have "trim_front ws s = trim_front ws (drop (length w) s)" by (subst trim_front.simps) simp
    then show ?thesis using 1 [OF Some] by simp
  qed
qed

lemma trim_end_trim: "trim_end (trim s) = trim s"
  by (simp add: trim_def trim_end_def trim_front_twice)

lemma read_token_Inr:
  "read_token s = (Inr tok, s1) \<Longrightarrow>
     (\<exists>raw rest. tty_lines (ss_tty s) = Inr raw # rest \<and> tok = trim raw) \<and> ss_net s1 = ss_net s \<and> ss_disk s1 = ss_disk s"
  (is "_ \<Longrightarrow> ?thesis")
proof -
  have "trim [] = []" by (intro trim_graphic) simp
  then show "read_token s = (Inr tok, s1) \<Longrightarrow> ?thesis"
    by (auto simp: read_token_def Let_def split: list.splits sum.splits if_splits)
qed

section \<open>Properties\<close>

text \<open>C21: \<open>login\<close> keeps no token the service does not accept: when it succeeds, and already when it has touched
  a file, the line that was typed is, up to white space around it, the service's admin token.\<close>

theorem login_stores_accepted_token:
  assumes "login env profile api_url s = (r, s')" "r = Inr () \<or> dk_files (ss_disk s') \<noteq> dk_files (ss_disk s)"
  shows "\<exists>raw rest. tty_lines (ss_tty s) = Inr raw # rest \<and> trim raw = token (net_admin_token (ss_net s))"
proof -
  obtain q s1 where load: "profiles_load env s = (q, s1)" by fastforce
  note frame = profiles_load_frame [OF load] profiles_load_files [OF load]
  obtain store where q: "q = Inr store"
    using assms load frame by (cases q) (auto simp: login_def and_then_def)
  define name where "name = or_default DEFAULT_PROFILE (target_profile store profile)"
  obtain url where url: "store_login_url store name api_url = Inr url"
    using assms load q frame
    by (cases "store_login_url store name api_url") (auto simp: login_def and_then_def with_err_def lift_result_def Let_def name_def)
  obtain tr s2 where t: "read_token s1 = (tr, s2)" by fastforce
  have same: "ss_disk s2 = ss_disk s1" using t by (auto simp: read_token_def Let_def split: list.splits sum.splits if_splits)
  obtain tok where tok: "tr = Inr tok"
    using assms load q frame url t same
    by (cases tr) (auto simp: login_def and_then_def with_err_def lift_result_def Let_def name_def)
  let ?t = "\<lparr>target_label = name, target_url = url, target_token = tok\<rparr>"
  obtain c net' where c: "client_check_auth ?t (ss_net s2) = (c, net')" by fastforce
  have "c = Inr ()"
    using assms load q frame url t same tok c
    by (cases c) (auto simp: login_def and_then_def with_err_def lift_result_def Let_def name_def on_session_net_def on_part_def)
  then have "trim_end tok = token (net_admin_token (ss_net s2))" using check_auth_token c by fastforce
  then show ?thesis using read_token_Inr [of s1 tok s2] t tok frame trim_end_trim by auto
qed

definition sample_session_env :: session_env where
  "sample_session_env =
     \<lparr>se_config_home = Some ''/c'', se_data_home = None, se_home = None, se_token = None,
      se_toml = sample_toml\<lparr>te_config_to := (\<lambda>_. Inr [1]), te_credentials_to := (\<lambda>_. Inr [2])\<rparr>,
      se_firmware = sample_firmware_env, se_print = plain_env, se_stdout_is_terminal = False, se_now = 0\<rparr>"

definition sample_session :: session where
  "sample_session =
     \<lparr>ss_disk = \<lparr>dk_files = Map.empty, dk_step = 0, dk_script = (\<lambda>_. None)\<rparr>, ss_net = sample_network 0,
      ss_tty = \<lparr>tty_stdin_is_terminal = False, tty_lines = [Inr ''secret''], tty_asked = []\<rparr>, ss_out = []\<rparr>"

theorem login_stores_accepted_token_witness:
  "fst (login sample_session_env None (Some ''https://h'') sample_session) = Inr ()
   \<and> (\<exists>raw rest. tty_lines (ss_tty sample_session) = Inr raw # rest
        \<and> trim raw = token (net_admin_token (ss_net sample_session)))"
proof -
  have t: "trim ''secret'' = ''secret''" by (intro trim_graphic) (simp add: graphic_def)
  have g: "guarded (AdminToken ''secret'') \<lparr>target_label = l, target_url = u, target_token = ''secret''\<rparr> h svc = h svc"
    for l u and h :: "service \<Rightarrow> (api_error + nat \<times> unit) option \<times> service" and svc
    using sample_guard [of h svc] by (simp add: guarded_def auth_header_def sample_target_def)
  have l: "\<exists>ss. get_devices clear_xaead sample_registry None sample_db = Some (Inr (200, ss))"
    by (simp add: get_devices_def registry_summaries_def sample_db_def all_activity_def activity_of_row_def record_of_row_def)
  have c: "client_check_auth \<lparr>target_label = ''default'', target_url = ''https://h'', target_token = ''secret''\<rparr> (sample_network 0)
      = (Inr (), sample_network 1)"
    using l by (auto simp: client_check_auth_def call_def sample_network_def sample_exchange_def g serve_list_def served_def
        handle_response_def reject_on_error_status_def is_success_def Let_def)
  have dir: "config_dir (Some ''/c'') None = Inr ''/c/homescope''"
    by (simp add: config_dir_def base_dir_def starts_with_def path_join_def APP_DIR_def)
  have load: "profiles_load sample_session_env sample_session
      = (Inr \<lparr>ps_dir = ''/c/homescope'', ps_config = EMPTY_CONFIG, ps_credentials = Map.empty,
              ps_disk = \<lparr>dk_files = Map.empty, dk_step = 2, dk_script = (\<lambda>_. None)\<rparr>\<rparr>,
         sample_session\<lparr>ss_disk := \<lparr>dk_files = Map.empty, dk_step = 2, dk_script = (\<lambda>_. None)\<rparr>\<rparr>)"
    by (simp add: profiles_load_def sample_session_env_def sample_session_def dir with_err_def and_then_def lift_result_def
        on_session_disk_def on_part_def store_at_def read_toml_def fs_mode_def fs_step_def or_default_def)
  have save: "\<exists>st. store_login (se_toml sample_session_env) ''default'' (Some ''https://h'') cr
      \<lparr>ps_dir = ''/c/homescope'', ps_config = EMPTY_CONFIG, ps_credentials = Map.empty,
       ps_disk = \<lparr>dk_files = Map.empty, dk_step = 2, dk_script = (\<lambda>_. None)\<rparr>\<rparr> = (Inr (), st)" for cr
    by (simp add: store_login_def store_login_url_def sample_url logged_in_def EMPTY_CONFIG_def
      save_config_def save_credentials_def store_save_def and_then_def with_err_def on_store_disk_def on_part_def
      fs_control_def fs_step_def lift_result_def sample_session_env_def sample_toml_def sample_config_def write_atomic_def file_name_def
      with_file_name_def path_join_def CONFIG_FILE_def CREDENTIALS_FILE_def write_through_def or_else_def ignoring_def
      fs_remove_def fs_create_new_def fs_write_def fs_rename_def put_content_def mode_at_def Let_def)
  obtain st where st: "store_login (se_toml sample_session_env) ''default'' (Some ''https://h'')
      \<lparr>cr_token = ''secret'', cr_subject = None, cr_expires_at = None\<rparr>
      \<lparr>ps_dir = ''/c/homescope'', ps_config = EMPTY_CONFIG, ps_credentials = Map.empty,
       ps_disk = \<lparr>dk_files = Map.empty, dk_step = 2, dk_script = (\<lambda>_. None)\<rparr>\<rparr> = (Inr (), st)"
    using save by blast
  have prof: "or_default DEFAULT_PROFILE (target_profile \<lparr>ps_dir = d, ps_config = EMPTY_CONFIG, ps_credentials = cs, ps_disk = k\<rparr> None)
      = ''default''" for d cs k
    by (simp add: target_profile_def EMPTY_CONFIG_def or_default_def DEFAULT_PROFILE_def)
  have url: "store_login_url store profile (Some ''https://h'') = Inr ''https://h''" for store profile
    by (simp add: store_login_url_def sample_url)
  have typed_line: "tty_lines (ss_tty sample_session) = [Inr ''secret'']" "ss_net sample_session = sample_network 0"
    by (simp_all add: sample_session_def)
  have "fst (login sample_session_env None (Some ''https://h'') sample_session) = Inr ()"
    unfolding login_def
    using st c by (simp add: and_then_def load prof url with_err_def lift_result_def read_token_def typed_line t Let_def on_session_net_def
        on_part_def on_profiles_def)
  then show ?thesis using login_stores_accepted_token [OF prod.collapse [symmetric]] by blast
qed

end
