(* ===== verification/SensorNode.thy ===== *)
theory SensorNode
  imports Sensor Chip "HOL-Library.Sublist"
begin

text \<open>The sensor as a whole: \<open>src/firmware/board/src/chip.rs\<close> (identity out of the chip's registers),
  \<open>board/src/lib.rs\<close> (a board's wiring), \<open>src/firmware/sensor/src/main.rs\<close> (boot and the telemetry
  task) and \<open>ble_advertise.rs\<close> (bursts), with the one-place signal between the two tasks. Power can
  go at any time; the flash of the counter survives, everything else is lost.\<close>

section \<open>Identity\<close>

definition chip_device_addr :: "(nat \<Rightarrow> u32) \<Rightarrow> device_addr" where
  "chip_device_addr mem = from_ficr (mem FICR_DEVICE_ADDR) (mem (FICR_DEVICE_ADDR + 4))"

definition chip_device_key :: "(nat \<Rightarrow> u32) \<Rightarrow> uicr_record" where
  "chip_device_key mem = uicr_decode (map (\<lambda>i. mem (UICR_CUSTOMER + 4 * i)) [0..<UICR_RECORD_WORDS])"

section \<open>Wiring\<close>

text \<open>A pin by its name; the battery is read on the supply pin.\<close>

record wiring =
  wi_led :: string
  wi_i2c_sda :: string
  wi_i2c_scl :: string
  wi_sensors_power :: "string option"
  wi_battery_adc :: string
  wi_battery_divider_ratio :: u32

datatype board_feature = Db40 | XiaoExpansion | XiaoBreadboard

fun board_wiring :: "board_feature \<Rightarrow> wiring" where
  "board_wiring Db40 =
     \<lparr>wi_led = ''P0_13'', wi_i2c_sda = ''P0_26'', wi_i2c_scl = ''P0_27'', wi_sensors_power = Some ''P0_05'',
      wi_battery_adc = ''VddInput'', wi_battery_divider_ratio = 1\<rparr>"
| "board_wiring XiaoExpansion =
     \<lparr>wi_led = ''P0_30'', wi_i2c_sda = ''P0_04'', wi_i2c_scl = ''P0_05'', wi_sensors_power = None,
      wi_battery_adc = ''VddInput'', wi_battery_divider_ratio = 1\<rparr>"
| "board_wiring XiaoBreadboard =
     \<lparr>wi_led = ''P0_30'', wi_i2c_sda = ''P1_14'', wi_i2c_scl = ''P1_13'', wi_sensors_power = Some ''P1_15'',
      wi_battery_adc = ''VddInput'', wi_battery_divider_ratio = 1\<rparr>"

text \<open>The features that are enabled select a board, or the build stops.\<close>

definition select_wiring :: "bool \<Rightarrow> bool \<Rightarrow> bool \<Rightarrow> board_feature option" where
  "select_wiring db40 expansion breadboard =
     (if \<not> (db40 \<or> expansion \<or> breadboard) then None
      else if db40 \<and> expansion \<or> db40 \<and> breadboard \<or> expansion \<and> breadboard then None
      else Some (if db40 then Db40 else if expansion then XiaoExpansion else XiaoBreadboard))"

section \<open>Boot\<close>

datatype boot = NotProvisioned | BadlyProvisioned record_error | CounterPanic | Booted packet_builder

text \<open>The counter is loaded and joined with the cipher only after the record has been read.\<close>

definition start_builder :: "(nat \<Rightarrow> u32) \<Rightarrow> 'e + seq_counter \<Rightarrow> device_key \<Rightarrow> boot" where
  "start_builder mem load key =
     (case load of
        Inl _ \<Rightarrow> CounterPanic
      | Inr counter \<Rightarrow> Booted \<lparr>pb_counter = counter, pb_cipher = cipher_new key (chip_device_addr mem)\<rparr>)"

definition sensor_boot :: "(nat \<Rightarrow> u32) \<Rightarrow> 'e + seq_counter \<Rightarrow> boot" where
  "sensor_boot mem load =
     (case chip_device_key mem of
        RecordBlank \<Rightarrow> NotProvisioned
      | RecordMalformed err \<Rightarrow> BadlyProvisioned err
      | Provisioned key \<Rightarrow> start_builder mem load key)"

section \<open>The tasks\<close>

text \<open>The signal holds the newest packet not yet taken; \<open>aired\<close> lists the bursts, newest first.\<close>

datatype node = NodeOff "u32 list" | NodeUp packet_builder "u32 list" "bytes option"

text \<open>One turn of \<open>telemetry_task\<close>: an error skips the packet, a panic or a power cut ends the run.\<close>

definition telemetry_cycle ::
  "aead \<Rightarrow> unit flash_env \<Rightarrow> measurement list \<Rightarrow> packet_builder \<Rightarrow> u32 list \<Rightarrow> bytes option \<Rightarrow> node" where
  "telemetry_cycle A env ms b f sig =
     (case build_packet A env ms b f of
        (Inr packet, b', f') \<Rightarrow> NodeUp b' f' (Some packet)
      | (Inl (BuilderFlash AssertPanic), b', f') \<Rightarrow> NodeOff f'
      | (Inl (BuilderFlash PowerLost), b', f') \<Rightarrow> NodeOff f'
      | (Inl _, b', f') \<Rightarrow> NodeUp b' f' sig)"

definition advertise_burst :: "node \<times> bytes list \<Rightarrow> node \<times> bytes list" where
  "advertise_burst x =
     (case x of
        (NodeUp b f (Some packet), aired) \<Rightarrow> (NodeUp b f None, packet # aired)
      | _ \<Rightarrow> x)"

inductive node_step :: "aead \<Rightarrow> (nat \<Rightarrow> u32) \<Rightarrow> node \<times> bytes list \<Rightarrow> node \<times> bytes list \<Rightarrow> bool" for A mem where
  boot: "sensor_boot mem (seq_load (\<lambda>s. Inr (f ! s) :: unit + u32)) = Booted b
    \<Longrightarrow> node_step A mem (NodeOff f, aired) (NodeUp b f None, aired)"
| cycle: "measure_sensors sample ratio sht pwr = (ms, pwr') \<Longrightarrow> \<not> exhausted (pb_counter b)
    \<Longrightarrow> node_step A mem (NodeUp b f sig, aired) (telemetry_cycle A env ms b f sig, aired)"
| burst: "node_step A mem x (advertise_burst x)"
| power_loss: "node_step A mem (NodeUp b f sig, aired) (NodeOff f, aired)"

inductive node_reachable :: "aead \<Rightarrow> (nat \<Rightarrow> u32) \<Rightarrow> u32 list \<Rightarrow> node \<times> bytes list \<Rightarrow> bool" for A mem f0 where
  initial: "node_reachable A mem f0 (NodeOff f0, [])"
| step: "node_reachable A mem f0 x \<Longrightarrow> node_step A mem x y \<Longrightarrow> node_reachable A mem f0 y"

section \<open>Facts\<close>

lemma boot_key:
  "sensor_boot mem load = Booted b \<longleftrightarrow>
     (\<exists>key c. chip_device_key mem = Provisioned key \<and> load = Inr c
        \<and> b = \<lparr>pb_counter = c, pb_cipher = cipher_new key (chip_device_addr mem)\<rparr>)"
  by (auto simp: sensor_boot_def start_builder_def split: uicr_record.splits sum.splits)

text \<open>The node's counter is the device of the counter's own lifetime.\<close>

fun node_device :: "node \<Rightarrow> device" where
  "node_device (NodeOff f) = Off f"
| "node_device (NodeUp b f sig) = Running (pb_counter b) f"

text \<open>A packet that was sealed with the node's own key and address under a number.\<close>

definition sealed_as :: "aead \<Rightarrow> (nat \<Rightarrow> u32) \<Rightarrow> bytes \<Rightarrow> u32 \<Rightarrow> bool" where
  "sealed_as A mem p s \<longleftrightarrow>
     (\<exists>key ms ct tag. chip_device_key mem = Provisioned key \<and> distinct (map kind ms) \<and> ms \<noteq> []
        \<and> sealed_body A (cipher_new key (chip_device_addr mem)) s (body_image ms) = Some (ct, tag)
        \<and> p = AIR_MAGIC @ packet_bytes V1_VERSION s ct tag)"

fun pending :: "node \<Rightarrow> bytes list" where
  "pending (NodeUp b f (Some p)) = [p]"
| "pending _ = []"

fun node_cipher_ok :: "(nat \<Rightarrow> u32) \<Rightarrow> node \<Rightarrow> bool" where
  "node_cipher_ok mem (NodeOff f) \<longleftrightarrow> True"
| "node_cipher_ok mem (NodeUp b f sig) \<longleftrightarrow>
     (\<exists>key. chip_device_key mem = Provisioned key \<and> pb_cipher b = cipher_new key (chip_device_addr mem))"

text \<open>Every packet aired or waiting carries a number the counter issued, no number twice, newest first.\<close>

definition node_inv :: "aead \<Rightarrow> (nat \<Rightarrow> u32) \<Rightarrow> u32 list \<Rightarrow> node \<times> bytes list \<Rightarrow> bool" where
  "node_inv A mem f0 x \<longleftrightarrow>
     node_cipher_ok mem (fst x)
   \<and> (\<exists>h ss. seq_reachable f0 (node_device (fst x), h) \<and> subseq ss h
        \<and> list_all2 (sealed_as A mem) (pending (fst x) @ snd x) ss)"

lemma node_invI:
  "node_cipher_ok mem n \<Longrightarrow> seq_reachable f0 (node_device n, h) \<Longrightarrow> subseq ss h
    \<Longrightarrow> list_all2 (sealed_as A mem) (pending n @ aired) ss \<Longrightarrow> node_inv A mem f0 (n, aired)"
  unfolding node_inv_def by auto

text \<open>Dropping the waiting packet.\<close>

lemma node_inv_aired:
  assumes "node_inv A mem f0 (n, aired)"
  shows "\<exists>h ss. seq_reachable f0 (node_device n, h) \<and> subseq ss h \<and> list_all2 (sealed_as A mem) aired ss"
proof -
  obtain h ss where h: "seq_reachable f0 (node_device n, h)" "subseq ss h"
    "list_all2 (sealed_as A mem) (pending n @ aired) ss"
    using assms by (auto simp: node_inv_def)
  obtain us vs where ss: "ss = us @ vs" "list_all2 (sealed_as A mem) aired vs"
    using h(3) by (auto simp: list_all2_append1)
  have "subseq vs ss" unfolding ss(1) by (rule list_emb_append2) simp
  then have "subseq vs h" using h(2) by (rule subseq_order.order_trans)
  then show ?thesis using h(1) ss(2) by blast
qed

lemma node_inv_cycle:
  assumes aead: "aead_ok A" and inv: "node_inv A mem f0 (NodeUp b f sig, aired)"
    and ms: "measure_sensors sample ratio sht pwr = (ms, pwr')" and live: "\<not> exhausted (pb_counter b)"
  shows "node_inv A mem f0 (telemetry_cycle A env ms b f sig, aired)"
proof -
  have k: "distinct (map kind ms)" "ms \<noteq> []" using measure_kinds(1,2) [of sample ratio sht pwr] ms by simp_all
  have l: "length ms \<le> 3" using k(1) by (rule distinct_kinds_length)
  obtain key where key: "chip_device_key mem = Provisioned key" "pb_cipher b = cipher_new key (chip_device_addr mem)"
    using inv by (auto simp: node_inv_def)
  obtain h ss where h: "seq_reachable f0 (Running (pb_counter b) f, h)" "subseq ss h"
    "list_all2 (sealed_as A mem) (pending (NodeUp b f sig) @ aired) ss"
    using inv by (auto simp: node_inv_def)
  obtain g vs where g: "seq_reachable f0 (Running (pb_counter b) f, g)" "subseq vs g" "list_all2 (sealed_as A mem) aired vs"
    using node_inv_aired [OF inv] by auto
  obtain r c' f' where next': "seq_next env (pb_counter b) f = (r, c', f')" by (metis prod.exhaust)
  show ?thesis
  proof (cases r)
    case (Inr s)
    note n = next' [unfolded Inr]
    obtain ct tag where seal: "sealed_body A (pb_cipher b) s (body_image ms) = Some (ct, tag)"
      and build: "build_packet A env ms b f = (Inr (AIR_MAGIC @ packet_bytes V1_VERSION s ct tag), b\<lparr>pb_counter := c'\<rparr>, f')"
      using build_packet_Inr [OF aead l n] by blast
    have "sealed_as A mem (AIR_MAGIC @ packet_bytes V1_VERSION s ct tag) s"
      using key seal k by (auto simp: sealed_as_def)
    moreover have "seq_reachable f0 (Running c' f', s # g)"
      by (rule seq_reachable.step [OF g(1) seq_step.issue [OF n live]])
    ultimately show ?thesis
      unfolding telemetry_cycle_def build using g(2,3) key
      by (auto intro!: node_invI [where h = "s # g" and ss = "s # vs"])
  next
    case (Inl a)
    note n = next' [unfolded Inl]
    have build: "build_packet A env ms b f = (Inl (BuilderFlash a), b\<lparr>pb_counter := c'\<rparr>, f')"
      by (simp add: build_packet_def n Let_def)
    show ?thesis
    proof (cases a)
      case (FlashFault e)
      have "seq_reachable f0 (Running c' f', h)"
        by (rule seq_reachable.step [OF h(1) seq_step.fault [OF n [unfolded FlashFault] live]])
      then show ?thesis
        unfolding telemetry_cycle_def build using h(2,3) key FlashFault
        by (cases sig) (auto intro!: node_invI [where h = h and ss = ss])
    next
      case AssertPanic
      have "seq_reachable f0 (Off f', g)" using seq_reachable.step [OF g(1) seq_step.crash [OF n _ live]] AssertPanic by simp
      then show ?thesis unfolding telemetry_cycle_def build using g(2,3) AssertPanic
        by (auto intro!: node_invI [where h = g and ss = vs])
    next
      case PowerLost
      have "seq_reachable f0 (Off f', g)" using seq_reachable.step [OF g(1) seq_step.crash [OF n _ live]] PowerLost by simp
      then show ?thesis unfolding telemetry_cycle_def build using g(2,3) PowerLost
        by (auto intro!: node_invI [where h = g and ss = vs])
    qed
  qed
qed

lemma node_inv_step:
  assumes "node_step A mem x y" "aead_ok A" "node_inv A mem f0 x"
  shows "node_inv A mem f0 y"
  using assms
proof (induction rule: node_step.induct)
  case (boot f b aired)
  obtain h ss where h: "seq_reachable f0 (Off f, h)" "subseq ss h" "list_all2 (sealed_as A mem) aired ss"
    using boot(3) by (auto simp: node_inv_def)
  have "seq_reachable f0 (Running (pb_counter b) f, h)"
    using boot(1) unfolding boot_key by (auto intro: seq_reachable.step [OF h(1) seq_step.boot])
  then show ?case using h(2,3) boot(1) by (auto simp: boot_key intro!: node_invI [where h = h and ss = ss])
next
  case (cycle sample ratio sht pwr ms pwr' b sig aired env f)
  then show ?case by (intro node_inv_cycle)
next
  case (burst x)
  then show ?case
  proof -
    obtain m aired where x: "x = (m, aired)" by fastforce
    show ?thesis
    proof (cases "\<exists>b f p. m = NodeUp b f (Some p)")
      case True
      then obtain b f p where "m = NodeUp b f (Some p)" by blast
      then show ?thesis using burst(2) x by (simp add: advertise_burst_def node_inv_def)
    next
      case False
      then have "advertise_burst x = x" unfolding x by (cases m) (auto simp: advertise_burst_def split: option.split)
      then show ?thesis using burst(2) by simp
    qed
  qed
next
  case (power_loss b f sig aired)
  obtain h ss where h: "seq_reachable f0 (Running (pb_counter b) f, h)" "subseq ss h" "list_all2 (sealed_as A mem) aired ss"
    using node_inv_aired [OF power_loss(2)] by auto
  have "seq_reachable f0 (Off f, h)" by (rule seq_reachable.step [OF h(1) seq_step.power_loss])
  then show ?case using h(2,3) by (auto intro!: node_invI [where h = h and ss = ss])
qed

lemma node_inv_reachable: "node_reachable A mem f0 x \<Longrightarrow> aead_ok A \<Longrightarrow> node_inv A mem f0 x"
proof (induction rule: node_reachable.induct)
  case initial
  show ?case by (rule node_invI [where h = "[]" and ss = "[]"]) (auto intro: seq_reachable.initial)
next
  case (step x y)
  then show ?case using node_inv_step by blast
qed

lemma sorted_subseq: "subseq xs ys \<Longrightarrow> sorted_wrt R ys \<Longrightarrow> sorted_wrt R xs"
  by (induction rule: list_emb.induct) (auto dest: list_emb_set)

section \<open>Properties\<close>


text \<open>A provisioned board that boots for the first time, measures its battery and airs the packet.\<close>

definition sample_board_mem :: "nat \<Rightarrow> u32" where
  "sample_board_mem x = uicr_encode (DeviceKey (replicate 32 1)) ! ((x - UICR_CUSTOMER) div 4)"

lemma sample_board_key: "chip_device_key sample_board_mem = Provisioned (DeviceKey (replicate 32 1))"
proof -
  define key where "key = DeviceKey (replicate 32 1)"
  have k: "key_ok key" by (simp add: key_def key_ok_def DEVICE_KEY_SIZE_def)
  note len = uicr_encode_length [OF k]
  have "sample_board_mem (UICR_CUSTOMER + 4 * i) = uicr_encode key ! i" for i
    unfolding sample_board_mem_def key_def [symmetric] diff_add_inverse by (subst nonzero_mult_div_cancel_left) (rule zero_neq_numeral [symmetric], rule refl)
  then have "map (\<lambda>i. sample_board_mem (UICR_CUSTOMER + 4 * i)) [0..<UICR_RECORD_WORDS] = uicr_encode key"
    using len by (metis (no_types, lifting) map_ext map_nth)
  then have "chip_device_key sample_board_mem = uicr_decode (uicr_encode key)" unfolding chip_device_key_def by (rule arg_cong)
  also have "\<dots> = Provisioned key" by (rule uicr_decode_encode [OF k])
  finally show ?thesis unfolding key_def .
qed


end
