(* ===== verification/ApiServer.thy ===== *)
theory ApiServer
  imports ApiClient
begin

text \<open>\<open>src/api/src/http.rs\<close>, \<open>http/health.rs\<close> and the router of \<open>devices/routes.rs\<close>: which request reaches
  which handler, and what stands in front of it. How axum matches a path against one template is the
  parameter \<open>M\<close>, with its documented behaviour in \<open>matcher_ok\<close>; whether a request with a wrong method on
  a protected route meets the guard first is left open. A rejection's text and the reading of a JSON body
  are the library's.\<close>

section \<open>Routes\<close>

datatype http_method = GET | HEAD | POST | OtherMethod string

datatype handler = Healthcheck | ProvisionDevice | GetDevices | GetDevice | RotateDeviceKey

record route =
  rt_template :: string
  rt_handlers :: "(http_method \<times> handler) list"
  rt_guarded :: bool

text \<open>\<open>devices::router\<close>, and its place in the whole: nested at \<open>/devices\<close>, where the root of the nested
  router is the prefix itself, and guarded.\<close>

definition device_routes :: "(string \<times> (http_method \<times> handler) list) list" where
  "device_routes =
     [(''/'', [(POST, ProvisionDevice), (GET, GetDevices)]),
      (''/{device_addr}'', [(GET, GetDevice)]),
      (''/{device_addr}/rotate-key'', [(POST, RotateDeviceKey)])]"

definition nest :: "string \<Rightarrow> (string \<times> (http_method \<times> handler) list) list \<Rightarrow> (string \<times> (http_method \<times> handler) list) list" where
  "nest prefix = map (\<lambda>(t, hs). (if t = ''/'' then prefix else prefix @ t, hs))"

definition app_routes :: "route list" where
  "app_routes =
     map (\<lambda>(t, hs). \<lparr>rt_template = t, rt_handlers = hs, rt_guarded = False\<rparr>) [(''/health'', [(GET, Healthcheck)])]
   @ map (\<lambda>(t, hs). \<lparr>rt_template = t, rt_handlers = hs, rt_guarded = True\<rparr>) (nest ''/devices'' device_routes)"

text \<open>A matched template gives the values of its parameters.\<close>

fun find_route :: "(string \<Rightarrow> string \<Rightarrow> string list option) \<Rightarrow> route list \<Rightarrow> string \<Rightarrow> (route \<times> string list) option" where
  "find_route M [] path = None"
| "find_route M (r # rs) path =
     (case M (rt_template r) path of Some params \<Rightarrow> Some (r, params) | None \<Rightarrow> find_route M rs path)"

text \<open>A \<open>GET\<close> handler answers \<open>HEAD\<close> as well.\<close>

definition method_handler :: "(http_method \<times> handler) list \<Rightarrow> http_method \<Rightarrow> handler option" where
  "method_handler hs m =
     (case map_of hs m of Some h \<Rightarrow> Some h | None \<Rightarrow> if m = HEAD then map_of hs GET else None)"

section \<open>Requests\<close>

record 'h request =
  req_method :: http_method
  req_path :: string
  req_authorization :: "'h option"
  req_payload :: "string + string \<times> device_addr"

datatype api_reply =
    HealthReply string
  | KeyReply device_key_response
  | SummaryReply device_summary
  | ListReply "device_summary list"

definition healthcheck :: "nat \<times> api_reply" where "healthcheck = (200, HealthReply ''ok'')"

definition reply_as :: "('v \<Rightarrow> api_reply) \<Rightarrow> (api_error + nat \<times> 'v) option \<times> service \<Rightarrow> (api_error + nat \<times> api_reply) option \<times> service" where
  "reply_as f x = (map_option (map_ok (\<lambda>(status, v). (status, f v))) (fst x), snd x)"

text \<open>The address in a path, through the extractor; the text of a parse error goes into axum's rejection.\<close>

definition address_param :: "(addr_parse_error \<Rightarrow> string) \<Rightarrow> string list \<Rightarrow> api_error + device_addr" where
  "address_param render params = path_extract (map_err render (addr_from_str (concat params)))"

fun run_handler ::
  "(addr_parse_error \<Rightarrow> string) \<Rightarrow> string list \<Rightarrow> string + string \<times> device_addr \<Rightarrow> exchange \<Rightarrow> xaead \<Rightarrow> handler \<Rightarrow> service
     \<Rightarrow> (api_error + nat \<times> api_reply) option \<times> service" where
  "run_handler render params payload ex X Healthcheck svc = (Some (Inr healthcheck), svc)"
| "run_handler render params payload ex X ProvisionDevice svc =
     (case json_extract payload of
        Inl e \<Rightarrow> (Some (Inl e), svc)
      | Inr (name, addr) \<Rightarrow> reply_as KeyReply (serve_provision name addr ex X svc))"
| "run_handler render params payload ex X GetDevices svc = reply_as ListReply (serve_list ex X svc)"
| "run_handler render params payload ex X GetDevice svc =
     (case address_param render params of
        Inl e \<Rightarrow> (Some (Inl e), svc)
      | Inr addr \<Rightarrow> reply_as SummaryReply (serve_get addr ex X svc))"
| "run_handler render params payload ex X RotateDeviceKey svc =
     (case address_param render params of
        Inl e \<Rightarrow> (Some (Inl e), svc)
      | Inr addr \<Rightarrow> reply_as KeyReply (serve_rotate addr ex X svc))"

text \<open>The whole router. \<open>strict\<close>: the guard also stands in front of the answer to a wrong method.\<close>

definition serve_request ::
  "(string \<Rightarrow> string \<Rightarrow> string list option) \<Rightarrow> ('h \<Rightarrow> string option) \<Rightarrow> (addr_parse_error \<Rightarrow> string) \<Rightarrow> bool
     \<Rightarrow> admin_token \<Rightarrow> 'h request \<Rightarrow> exchange \<Rightarrow> xaead \<Rightarrow> service \<Rightarrow> (api_error + nat \<times> api_reply) option \<times> service" where
  "serve_request M to_str render strict tok req ex X svc =
     (case find_route M app_routes (req_path req) of
        None \<Rightarrow> (Some (Inl not_found), svc)
      | Some (r, params) \<Rightarrow>
         (let guard = (if rt_guarded r then require_bearer to_str tok (req_authorization req) (\<lambda>_. Inr ()) else Inr ())
          in case method_handler (rt_handlers r) (req_method req) of
               None \<Rightarrow> (Some (Inl (case if strict then guard else Inr () of Inl e \<Rightarrow> e | Inr _ \<Rightarrow> method_not_allowed)), svc)
             | Some h \<Rightarrow>
                (case guard of
                   Inl e \<Rightarrow> (Some (Inl e), svc)
                 | Inr _ \<Rightarrow> run_handler render params (req_payload req) ex X h svc)))"

section \<open>Facts\<close>

text \<open>A template without parameters matches itself; one with a parameter matches a non-empty segment
  in its place, which it gives percent-decoded.\<close>

definition matcher_ok :: "(string \<Rightarrow> string \<Rightarrow> string list option) \<Rightarrow> bool" where
  "matcher_ok M \<longleftrightarrow>
     (\<forall>t p. CHR ''{'' \<notin> set t \<longrightarrow> M t p = (if p = t then Some [] else None))
   \<and> (\<forall>pre name post seg. CHR ''{'' \<notin> set pre \<and> CHR ''}'' \<notin> set name \<and> (post = [] \<or> hd post = CHR ''/'')
        \<and> seg \<noteq> [] \<and> CHR ''/'' \<notin> set seg \<and> CHR ''%'' \<notin> set seg
        \<longrightarrow> M (pre @ ''{'' @ name @ ''}'' @ post) (pre @ seg @ post) = Some [seg])
   \<and> (\<forall>pre name post p params. CHR ''{'' \<notin> set pre \<and> CHR ''}'' \<notin> set name \<and> (post = [] \<or> hd post = CHR ''/'')
        \<and> M (pre @ ''{'' @ name @ ''}'' @ post) p = Some params
        \<longrightarrow> (\<exists>seg. seg \<noteq> [] \<and> CHR ''/'' \<notin> set seg \<and> p = pre @ seg @ post))"

lemma routes_unfold:
  "app_routes =
    [\<lparr>rt_template = ''/health'', rt_handlers = [(GET, Healthcheck)], rt_guarded = False\<rparr>,
     \<lparr>rt_template = ''/devices'', rt_handlers = [(POST, ProvisionDevice), (GET, GetDevices)], rt_guarded = True\<rparr>,
     \<lparr>rt_template = ''/devices/{device_addr}'', rt_handlers = [(GET, GetDevice)], rt_guarded = True\<rparr>,
     \<lparr>rt_template = ''/devices/{device_addr}/rotate-key'', rt_handlers = [(POST, RotateDeviceKey)], rt_guarded = True\<rparr>]"
  by (simp add: app_routes_def nest_def device_routes_def)

lemma find_route_member: "find_route M rs path = Some (r, params) \<Longrightarrow> r \<in> set rs"
  by (induction rs) (auto split: option.splits)

text \<open>Whoever reaches a handler other than the health check has passed the guard.\<close>

lemma unguarded_is_health:
  assumes "find_route M app_routes path = Some (r, params)" "\<not> rt_guarded r" "method_handler (rt_handlers r) m = Some h"
  shows "h = Healthcheck"
  using find_route_member [OF assms(1)] assms(2,3)
  by (auto simp: routes_unfold method_handler_def split: if_splits option.splits)

lemma hexdigit_plain: "is_ascii_hexdigit c \<Longrightarrow> c \<noteq> CHR ''/'' \<and> c \<noteq> CHR ''%'' \<and> c \<noteq> CHR ''{''"
  by (auto simp: is_ascii_hexdigit_def)

lemma address_segment: "CHR ''/'' \<notin> set (encode_hex a)" "CHR ''%'' \<notin> set (encode_hex a)" "CHR ''{'' \<notin> set (encode_hex a)"
  using encode_hex_digits [of a] hexdigit_plain by (auto simp: list_all_iff)

lemma matcher_laws:
  assumes "matcher_ok M"
  shows "CHR ''{'' \<notin> set t \<Longrightarrow> M t p = (if p = t then Some [] else None)"
    and "M ''/devices/{device_addr}'' (''/devices/'' @ encode_hex a) = Some [encode_hex a]"
    and "M ''/devices/{device_addr}/rotate-key'' (''/devices/'' @ encode_hex a @ ''/rotate-key'') = Some [encode_hex a]"
    and "M ''/devices/{device_addr}'' (''/devices/'' @ encode_hex a @ ''/rotate-key'') = None"
proof -
  show "CHR ''{'' \<notin> set t \<Longrightarrow> M t p = (if p = t then Some [] else None)" using assms by (simp add: matcher_ok_def)
  have "M (''/devices/'' @ ''{'' @ ''device_addr'' @ ''}'' @ post) (''/devices/'' @ encode_hex a @ post) = Some [encode_hex a]"
    if "post = [] \<or> hd post = CHR ''/''" for post
    using conjunct1 [OF conjunct2 [OF assms [unfolded matcher_ok_def]], rule_format,
        of "''/devices/''" "''device_addr''" post "encode_hex a"] address_segment [of a] that by simp
  from this [of "[]"] this [of "''/rotate-key''"]
  show "M ''/devices/{device_addr}'' (''/devices/'' @ encode_hex a) = Some [encode_hex a]"
    "M ''/devices/{device_addr}/rotate-key'' (''/devices/'' @ encode_hex a @ ''/rotate-key'') = Some [encode_hex a]"
    by simp_all
  have one: "\<exists>seg. seg \<noteq> [] \<and> CHR ''/'' \<notin> set seg \<and> p = ''/devices/'' @ seg @ []"
    if "M (''/devices/'' @ ''{'' @ ''device_addr'' @ ''}'' @ []) p = Some params" for p params
    using conjunct2 [OF conjunct2 [OF assms [unfolded matcher_ok_def]], rule_format,
        of "''/devices/''" "''device_addr''" "[]" p params] that by simp
  show "M ''/devices/{device_addr}'' (''/devices/'' @ encode_hex a @ ''/rotate-key'') = None"
    using one [of "''/devices/'' @ encode_hex a @ ''/rotate-key''"]
    by (cases "M ''/devices/{device_addr}'' (''/devices/'' @ encode_hex a @ ''/rotate-key'')") auto
qed

lemma client_routes:
  assumes "matcher_ok M"
  shows "find_route M app_routes ''/devices''
      = Some (\<lparr>rt_template = ''/devices'', rt_handlers = [(POST, ProvisionDevice), (GET, GetDevices)], rt_guarded = True\<rparr>, [])"
    and "find_route M app_routes (device_path a)
      = Some (\<lparr>rt_template = ''/devices/{device_addr}'', rt_handlers = [(GET, GetDevice)], rt_guarded = True\<rparr>, [encode_hex a])"
    and "find_route M app_routes (rotate_path a)
      = Some (\<lparr>rt_template = ''/devices/{device_addr}/rotate-key'', rt_handlers = [(POST, RotateDeviceKey)], rt_guarded = True\<rparr>,
              [encode_hex a])"
  using matcher_laws [OF assms] by (simp_all add: routes_unfold device_path_def rotate_path_def)

section \<open>Properties\<close>

text \<open>C17: Nothing behind the router works without the token. Whatever the path, the method, the body and
  the library's matching, a request without the right \<open>Authorization\<close> header leaves registry and
  database as they are, and is answered by the health check's constant, \<open>not_found\<close>,
  \<open>method_not_allowed\<close> or \<open>unauthorized\<close>: no answer carries anything of the service's state.\<close>

theorem requests_without_token_harmless:
  "case serve_request M to_str render strict tok req ex X svc of
     (reply, svc') \<Rightarrow>
       (\<exists>header t. req_authorization req = Some header \<and> to_str header = Some (''Bearer '' @ t) \<and> trim_end t = token tok)
     \<or> svc' = svc \<and> reply \<in> {Some (Inr healthcheck), Some (Inl not_found), Some (Inl method_not_allowed), Some (Inl unauthorized)}"
proof (cases "\<exists>header t. req_authorization req = Some header \<and> to_str header = Some (''Bearer '' @ t) \<and> trim_end t = token tok")
  case False
  then have g: "require_bearer to_str tok (req_authorization req) (\<lambda>_. Inr ()) = (Inl unauthorized :: api_error + unit)"
    using require_bearer_cases [of to_str tok "req_authorization req" "\<lambda>_. Inr ()"] by simp
  show ?thesis
  proof (cases "find_route M app_routes (req_path req)")
    case (Some m)
    then obtain r params where f: "find_route M app_routes (req_path req) = Some (r, params)" by (cases m) simp
    show ?thesis
      using unguarded_is_health [OF f, of "req_method req"]
      by (cases "rt_guarded r"; cases strict; cases "method_handler (rt_handlers r) (req_method req)")
         (simp_all add: serve_request_def f g [simplified])
  qed (simp add: serve_request_def)
qed (auto split: prod.splits)

text \<open>C18: The client speaks to the handlers it means. For every request of the tool - the path it
  formats, its method, its header - the service's router runs exactly the handler behind the guard that
  the tool expects there, with the address that was formatted into the path, in every state and
  whatever the exchange meets.\<close>

theorem client_requests_reach_handlers:
  assumes "matcher_ok M" "json_extract payload = Inr (name, a)"
  shows "serve_request M Some render strict tok
        \<lparr>req_method = GET, req_path = ''/devices'', req_authorization = Some (auth_header t), req_payload = body\<rparr> ex X svc
      = reply_as ListReply (guarded tok t (serve_list ex X) svc)
    \<and> serve_request M Some render strict tok
        \<lparr>req_method = GET, req_path = device_path a, req_authorization = Some (auth_header t), req_payload = body\<rparr> ex X svc
      = reply_as SummaryReply (guarded tok t (serve_get a ex X) svc)
    \<and> serve_request M Some render strict tok
        \<lparr>req_method = POST, req_path = ''/devices'', req_authorization = Some (auth_header t), req_payload = payload\<rparr> ex X svc
      = reply_as KeyReply (guarded tok t (serve_provision name a ex X) svc)
    \<and> serve_request M Some render strict tok
        \<lparr>req_method = POST, req_path = rotate_path a, req_authorization = Some (auth_header t), req_payload = body\<rparr> ex X svc
      = reply_as KeyReply (guarded tok t (serve_rotate a ex X) svc)"
proof -
  have address: "address_param render [encode_hex a] = Inr a" by (simp add: address_param_def addr_from_encode_hex)
  show ?thesis
    unfolding serve_request_def guarded_def
    using assms(2) address
    by (simp add: client_routes [OF assms(1)] method_handler_def reply_as_def Let_def split: sum.split)
qed

text \<open>A matcher that splits at the parameter, and the tool asking for a device that is not registered.\<close>

definition segment_matcher :: "string \<Rightarrow> string \<Rightarrow> string list option" where
  "segment_matcher t p =
     (if CHR ''{'' \<notin> set t then (if p = t then Some [] else None)
      else let pre = takeWhile (\<lambda>c. c \<noteq> CHR ''{'') t;
               post = tl (dropWhile (\<lambda>c. c \<noteq> CHR ''}'') (dropWhile (\<lambda>c. c \<noteq> CHR ''{'') t));
               rest = drop (length pre) p;
               seg = takeWhile (\<lambda>c. c \<noteq> CHR ''/'') rest
           in if take (length pre) p = pre \<and> seg \<noteq> [] \<and> drop (length seg) rest = post then Some [seg] else None)"

lemma segment_matcher_at:
  assumes "CHR ''{'' \<notin> set pre" "CHR ''}'' \<notin> set name"
  shows "segment_matcher (pre @ ''{'' @ name @ ''}'' @ post) p =
     (let rest = drop (length pre) p; seg = takeWhile (\<lambda>c. c \<noteq> CHR ''/'') rest
      in if take (length pre) p = pre \<and> seg \<noteq> [] \<and> drop (length seg) rest = post then Some [seg] else None)"
proof -
  have "takeWhile (\<lambda>c. c \<noteq> CHR ''{'') (pre @ ''{'' @ name @ ''}'' @ post) = pre"
    "dropWhile (\<lambda>c. c \<noteq> CHR ''{'') (pre @ ''{'' @ name @ ''}'' @ post) = ''{'' @ name @ ''}'' @ post"
    using assms(1) by (auto simp: takeWhile_append dropWhile_append)
  moreover have "dropWhile (\<lambda>c. c \<noteq> CHR ''}'') (''{'' @ name @ ''}'' @ post) = ''}'' @ post"
    using assms(2) by (auto simp: dropWhile_append)
  ultimately show ?thesis by (simp add: segment_matcher_def Let_def)
qed

lemma segment_matcher_ok: "matcher_ok segment_matcher"
proof -
  have 1: "segment_matcher (pre @ ''{'' @ name @ ''}'' @ post) (pre @ seg @ post) = Some [seg]"
    if h: "CHR ''{'' \<notin> set pre" "CHR ''}'' \<notin> set name" "post = [] \<or> hd post = CHR ''/''" "seg \<noteq> []" "CHR ''/'' \<notin> set seg"
    for pre name post seg
  proof -
    have "takeWhile (\<lambda>c. c \<noteq> CHR ''/'') (seg @ post) = seg"
      using h(3,5) by (cases post) (auto simp: takeWhile_append)
    then show ?thesis using h(4) unfolding segment_matcher_at [OF h(1,2)] Let_def by simp
  qed
  have 2: "\<exists>seg. seg \<noteq> [] \<and> CHR ''/'' \<notin> set seg \<and> p = pre @ seg @ post"
    if h: "CHR ''{'' \<notin> set pre" "CHR ''}'' \<notin> set name"
      "segment_matcher (pre @ ''{'' @ name @ ''}'' @ post) p = Some params" for pre name post p params
  proof -
    let ?seg = "takeWhile (\<lambda>c. c \<noteq> CHR ''/'') (drop (length pre) p)"
    have s: "take (length pre) p = pre" "?seg \<noteq> []" "drop (length ?seg) (drop (length pre) p) = post"
      using h(3) unfolding segment_matcher_at [OF h(1,2)] Let_def by (auto split: if_splits)
    have "p = take (length pre) p @ drop (length pre) p" by simp
    also have "drop (length pre) p = ?seg @ post" using s(3) by (metis append_take_drop_id takeWhile_eq_take)
    finally have "p = pre @ ?seg @ post" using s(1) by simp
    moreover have "CHR ''/'' \<notin> set ?seg" using set_takeWhileD by fastforce
    ultimately show ?thesis using s(2) by blast
  qed
  show ?thesis
    unfolding matcher_ok_def
  proof (intro conjI allI impI)
    show "CHR ''{'' \<notin> set t \<Longrightarrow> segment_matcher t p = (if p = t then Some [] else None)" for t p
      by (simp add: segment_matcher_def)
  qed (elim conjE; (rule 1; assumption | rule 2; assumption))+
qed

theorem client_requests_reach_handlers_witness:
  "\<forall>ex X svc. serve_request segment_matcher Some (\<lambda>_. []) True (AdminToken ''secret'')
      \<lparr>req_method = GET, req_path = device_path (DeviceAddr 1 2 3 4 5 6),
       req_authorization = Some (auth_header \<lparr>target_label = [], target_url = [], target_token = ''secret''\<rparr>), req_payload = Inl []\<rparr>
      ex X svc
    = reply_as SummaryReply (guarded (AdminToken ''secret'') \<lparr>target_label = [], target_url = [], target_token = ''secret''\<rparr>
        (serve_get (DeviceAddr 1 2 3 4 5 6) ex X) svc)"
proof -
  have p: "json_extract (Inr ([], DeviceAddr 1 2 3 4 5 6)) = Inr ([], DeviceAddr 1 2 3 4 5 6)" by simp
  show ?thesis using client_requests_reach_handlers [OF segment_matcher_ok p] by blast
qed

end
