(* ===== verification/UsbLink.thy ===== *)
theory UsbLink
  imports Receiver Gateway
begin

text \<open>The receiver as it runs (\<open>src/firmware/receiver/src/main.rs\<close>): advertising reports fill the
  channel at any time, the writer task waits for the host, takes packets and writes them to the
  endpoint while the host listens, and the blinker task follows it. A step is what happens between two
  awaits. The host may drop \<open>DTR\<close> and the endpoint may fail at any time. Four fields only record what
  happened: the bytes handed to the host and the observations written completely since the writer last
  found the port opened, the packets taken but not written completely, and how often it gave up.\<close>

section \<open>The writer\<close>

definition BLINK_CAPACITY :: nat where "BLINK_CAPACITY = 8"

datatype writer =
    WaitingConnection
  | WaitingDtr
  | Settling
  | WaitingPacket
  | WritingFrame "bytes list" scanned_packet nat

record receiver_state =
  rc_handler :: packet_handler
  rc_writer :: writer
  rc_blinks :: "blink_event list"
  rc_blinker :: blinker
  rc_wire :: bytes
  rc_sent :: "sensor_observation list"
  rc_lost :: "scanned_packet list"
  rc_breaks :: nat

definition receiver_new :: receiver_state where
  "receiver_new =
     \<lparr>rc_handler = handler_new, rc_writer = WaitingConnection, rc_blinks = [],
      rc_blinker = \<lparr>led_lit = False, lit_since = 0, ref_count = 0\<rparr>,
      rc_wire = [], rc_sent = [], rc_lost = [], rc_breaks = 0\<rparr>"

text \<open>\<open>try_send\<close>: a full channel drops the event.\<close>

definition blink :: "blink_event \<Rightarrow> receiver_state \<Rightarrow> receiver_state" where
  "blink e r = (if length (rc_blinks r) < BLINK_CAPACITY then r\<lparr>rc_blinks := rc_blinks r @ [e]\<rparr> else r)"

definition led_on :: "receiver_state \<Rightarrow> receiver_state" where "led_on = blink Inc"
definition led_off :: "receiver_state \<Rightarrow> receiver_state" where "led_off = blink Dec"

definition pop_channel :: "receiver_state \<Rightarrow> receiver_state" where
  "pop_channel r = r\<lparr>rc_handler := (rc_handler r)\<lparr>channel := tl (channel (rc_handler r))\<rparr>\<rparr>"

text \<open>\<open>break\<close> out of the inner loop; the packet in hand is gone.\<close>

definition give_up :: "scanned_packet \<Rightarrow> receiver_state \<Rightarrow> receiver_state" where
  "give_up sp r = r\<lparr>rc_writer := WaitingConnection, rc_lost := sp # rc_lost r, rc_breaks := rc_breaks r + 1\<rparr>"

text \<open>What follows the arrival of a packet, up to the first await: \<open>dtr\<close> is read once, \<open>now\<close> is the
  time the age is taken at.\<close>

definition take_packet :: "(bytes \<Rightarrow> u16) \<Rightarrow> nat \<Rightarrow> bool \<Rightarrow> nat \<Rightarrow> receiver_state \<Rightarrow> receiver_state" where
  "take_packet crc mps dtr now r =
     (case channel (rc_handler r) of
        [] \<Rightarrow> r
      | sp # _ \<Rightarrow>
          (let r1 = led_on (pop_channel r) in
           if \<not> dtr then give_up sp (led_off r1)
           else case write_frame crc mps now sp of
                  Inl _ \<Rightarrow> r1\<lparr>rc_lost := sp # rc_lost r1\<rparr>
                | Inr ps \<Rightarrow> r1\<lparr>rc_writer := WritingFrame ps sp now\<rparr>))"

inductive receiver_step :: "(bytes \<Rightarrow> u16) \<Rightarrow> nat \<Rightarrow> receiver_state \<Rightarrow> receiver_state \<Rightarrow> bool" for crc mps where
  report: "receiver_step crc mps r (r\<lparr>rc_handler := on_ext_adv_reports now reports (rc_handler r)\<rparr>)"
| connection: "rc_writer r = WaitingConnection \<Longrightarrow> receiver_step crc mps r (r\<lparr>rc_writer := WaitingDtr\<rparr>)"
| dtr_on: "rc_writer r = WaitingDtr \<Longrightarrow> receiver_step crc mps r (r\<lparr>rc_writer := Settling\<rparr>)"
| settled: "rc_writer r = Settling
    \<Longrightarrow> receiver_step crc mps r (r\<lparr>rc_writer := WaitingPacket, rc_wire := [], rc_sent := []\<rparr>)"
| packet: "rc_writer r = WaitingPacket \<Longrightarrow> channel (rc_handler r) \<noteq> []
    \<Longrightarrow> receiver_step crc mps r (take_packet crc mps dtr now r)"
| written: "rc_writer r = WritingFrame (p # ps) sp now
    \<Longrightarrow> receiver_step crc mps r (r\<lparr>rc_writer := WritingFrame ps sp now, rc_wire := rc_wire r @ p\<rparr>)"
| complete: "rc_writer r = WritingFrame [] sp now
    \<Longrightarrow> receiver_step crc mps r (led_off (r\<lparr>rc_writer := WaitingPacket, rc_sent := rc_sent r @ [observation_of now sp]\<rparr>))"
| write_error: "rc_writer r = WritingFrame (p # ps) sp now \<Longrightarrow> receiver_step crc mps r (give_up sp (led_off r))"
| dtr_off: "rc_writer r = WritingFrame (p # ps) sp now \<Longrightarrow> receiver_step crc mps r (give_up sp (led_off r))"
| blinker: "rc_blinks r = e # es
    \<Longrightarrow> receiver_step crc mps r (r\<lparr>rc_blinks := es, rc_blinker := blinker_step now preempted e (rc_blinker r)\<rparr>)"

inductive receiver_reachable :: "(bytes \<Rightarrow> u16) \<Rightarrow> nat \<Rightarrow> receiver_state \<Rightarrow> bool" for crc mps where
  initial: "receiver_reachable crc mps receiver_new"
| step: "receiver_reachable crc mps r \<Longrightarrow> receiver_step crc mps r r' \<Longrightarrow> receiver_reachable crc mps r'"

section \<open>The channel\<close>

definition channel_ok :: "scanned_packet list \<Rightarrow> bool" where
  "channel_ok ch \<longleftrightarrow> length ch \<le> CHANNEL_SIZE \<and> (\<forall>sp\<in>set ch. length (sp_packet sp) \<le> MAX_WIRE_LEN)"

lemma channel_ok_payload: "channel_ok (channel h) \<Longrightarrow> channel_ok (channel (handle_payload now a rssi payload h))"
proof (cases "payload_packet payload")
  case (Some x)
  assume ok: "channel_ok (channel h)"
  obtain pkt p where x: "payload_packet payload = Some (pkt, p)" using Some by (cases x) auto
  show ?thesis
    using ok channel_push_length set_channel_push [of "channel h"]
    unfolding handle_payload_effects(2) [OF x] channel_ok_def by (fastforce split: if_splits)
qed (simp add: handle_payload_none)

lemma channel_ok_ad: "channel_ok (channel h) \<Longrightarrow> channel_ok (channel (handle_ad now report ad h))"
  by (simp add: handle_ad_def channel_ok_payload split: ad_structure.split)

lemma channel_ok_reports: "channel_ok (channel h) \<Longrightarrow> channel_ok (channel (on_ext_adv_reports now reports h))"
proof (induction now reports h rule: on_ext_adv_reports.induct)
  case (3 now report reports h)
  have "channel_ok (channel (fold (handle_ad now report) ads h))" if "channel_ok (channel h)" for ads h
    using that by (induction ads arbitrary: h) (simp_all add: channel_ok_ad)
  then show ?case using 3 by simp
qed simp_all

lemma written_observation: "length (sp_packet sp) \<le> MAX_WIRE_LEN \<Longrightarrow> observation_ok (observation_of now sp)"
  by (simp add: observation_ok_def observation_of_def)

section \<open>The stream\<close>

definition observation_frame :: "(bytes \<Rightarrow> u16) \<Rightarrow> sensor_observation \<Rightarrow> bytes" where
  "observation_frame crc ob = frame_bytes crc (observation_image ob)"

text \<open>What the host has received: the frames of the observations sent, and the beginning of the frame
  of the packet being written or of the packet lost last.\<close>

definition stream_of :: "(bytes \<Rightarrow> u16) \<Rightarrow> sensor_observation list \<Rightarrow> bytes" where
  "stream_of crc obs = concat (map (observation_frame crc) obs)"

definition begun :: "(bytes \<Rightarrow> u16) \<Rightarrow> receiver_state \<Rightarrow> bytes \<Rightarrow> scanned_packet \<Rightarrow> nat \<Rightarrow> bool" where
  "begun crc r rest sp now \<longleftrightarrow>
     length (sp_packet sp) \<le> MAX_WIRE_LEN
   \<and> (\<exists>pre. rc_wire r = stream_of crc (rc_sent r) @ pre \<and> pre @ rest = observation_frame crc (observation_of now sp))"

definition torn :: "(bytes \<Rightarrow> u16) \<Rightarrow> receiver_state \<Rightarrow> bool" where
  "torn crc r \<longleftrightarrow>
     rc_wire r = stream_of crc (rc_sent r)
   \<or> (\<exists>sp older now rest. rc_lost r = sp # older \<and> begun crc r rest sp now)"

fun writer_inv :: "(bytes \<Rightarrow> u16) \<Rightarrow> receiver_state \<Rightarrow> writer \<Rightarrow> bool" where
  "writer_inv crc r WaitingPacket = (rc_wire r = stream_of crc (rc_sent r))"
| "writer_inv crc r (WritingFrame ps sp now) = begun crc r (concat ps) sp now"
| "writer_inv crc r _ = torn crc r"

definition receiver_inv :: "(bytes \<Rightarrow> u16) \<Rightarrow> receiver_state \<Rightarrow> bool" where
  "receiver_inv crc r \<longleftrightarrow>
     channel_ok (channel (rc_handler r)) \<and> (\<forall>ob\<in>set (rc_sent r). observation_ok ob)
   \<and> length (rc_lost r) = rc_breaks r \<and> writer_inv crc r (rc_writer r)"

lemma blink_fields [simp]:
  "rc_handler (blink e r) = rc_handler r" "rc_writer (blink e r) = rc_writer r" "rc_wire (blink e r) = rc_wire r"
  "rc_sent (blink e r) = rc_sent r" "rc_lost (blink e r) = rc_lost r" "rc_breaks (blink e r) = rc_breaks r"
  by (simp_all add: blink_def)

lemma receiver_inv_new: "receiver_inv crc receiver_new"
  by (simp add: receiver_inv_def receiver_new_def handler_new_def channel_ok_def torn_def stream_of_def)

lemma writer_inv_handler [simp]: "writer_inv crc (r\<lparr>rc_handler := h\<rparr>) w = writer_inv crc r w"
  by (cases w) (simp_all add: torn_def begun_def)

lemma writer_inv_blinks [simp]:
  "writer_inv crc (blink e r) w = writer_inv crc r w"
  "writer_inv crc (r\<lparr>rc_blinks := es, rc_blinker := bl\<rparr>) w = writer_inv crc r w"
  by (cases w; simp add: torn_def begun_def)+

lemma stream_of_snoc [simp]: "stream_of crc (obs @ [ob]) = stream_of crc obs @ observation_frame crc ob"
  by (simp add: stream_of_def)

text \<open>A packet taken from the channel.\<close>

lemma receiver_inv_packet:
  assumes "receiver_inv crc r" "rc_writer r = WaitingPacket" "0 < mps"
  shows "receiver_inv crc (take_packet crc mps dtr now r)"
proof (cases "channel (rc_handler r)")
  case (Cons sp rest)
  have l: "length (sp_packet sp) \<le> MAX_WIRE_LEN" and rest: "channel_ok rest"
    using assms(1) by (simp_all add: receiver_inv_def channel_ok_def Cons)
  obtain ps where ps: "write_frame crc mps now sp = Inr ps" "concat ps = observation_frame crc (observation_of now sp)"
    using write_frame_bytes [OF written_observation [OF l] assms(3), of crc now] by (auto simp: observation_frame_def)
  show ?thesis
  proof (cases dtr)
    case True
    then show ?thesis
      using assms(1,2) l rest ps
      by (simp add: take_packet_def Cons Let_def led_on_def pop_channel_def receiver_inv_def begun_def)
  next
    case False
    then show ?thesis
      using assms(1,2) rest
      by (simp add: take_packet_def Cons Let_def led_on_def led_off_def pop_channel_def receiver_inv_def give_up_def torn_def)
  qed
qed (use assms in \<open>simp add: take_packet_def\<close>)

lemma receiver_inv_give_up:
  assumes "receiver_inv crc r" "rc_writer r = WritingFrame ps sp now"
  shows "receiver_inv crc (give_up sp (led_off r))"
  using assms by (auto simp: receiver_inv_def give_up_def led_off_def torn_def begun_def)

lemma receiver_inv_step:
  assumes "receiver_step crc mps r r'" "receiver_inv crc r" "0 < mps"
  shows "receiver_inv crc r'"
  using assms
proof (induction rule: receiver_step.induct)
  case (report r now reports)
  then show ?case by (simp add: receiver_inv_def channel_ok_reports)
next
  case (packet r dtr now)
  then show ?case by (simp add: receiver_inv_packet)
next
  case (written r p ps sp now)
  then show ?case by (auto simp: receiver_inv_def begun_def)
next
  case (complete r sp now)
  then show ?case by (auto simp: receiver_inv_def begun_def led_off_def written_observation)
next
  case (write_error r p ps sp now)
  then show ?case by (simp add: receiver_inv_give_up)
next
  case (dtr_off r p ps sp now)
  then show ?case by (simp add: receiver_inv_give_up)
qed (simp_all add: receiver_inv_def torn_def begun_def stream_of_def)

lemma receiver_inv_reachable: "receiver_reachable crc mps r \<Longrightarrow> 0 < mps \<Longrightarrow> receiver_inv crc r"
  by (induction rule: receiver_reachable.induct) (use receiver_inv_new receiver_inv_step in blast)+

section \<open>What the gateway makes of it\<close>

lemma unfinished_frame:
  assumes "frame_parse crc (pre @ rest) = FrameOk p (length (pre @ rest))" "rest \<noteq> []"
  shows "decode_all crc pre = ([], pre)"
proof (cases "frame_parse crc pre")
  case (FrameOk q n)
  then have "n = length (pre @ rest)" using frame_parse_extend_Ok [OF FrameOk, of rest] assms(1) by simp
  then show ?thesis using frame_parse_Ok_bounds [OF FrameOk] assms(2) by simp
next
  case (Corrupt e d)
  then show ?thesis using frame_parse_extend_Corrupt [OF Corrupt, of rest] assms(1) by auto
qed (rule decode_all_Incomplete)

lemma observation_image_short: "observation_ok ob \<Longrightarrow> length (observation_image ob) \<le> MAX_PAYLOAD_LEN"
  using observation.img_max observation_fits_frame by (rule order_trans)

lemma decode_stream:
  assumes "\<forall>ob\<in>set obs. observation_ok ob"
  shows "decode_all crc (stream_of crc obs @ tail)
     = (map observation_image obs @ fst (decode_all crc tail), snd (decode_all crc tail))"
proof -
  have "\<forall>p\<in>set (map observation_image obs). length p \<le> MAX_PAYLOAD_LEN"
    using assms observation_image_short by simp
  from decode_all_frames [OF this, of crc tail] show ?thesis
    by (simp add: stream_of_def observation_frame_def [abs_def] comp_def)
qed

text \<open>An observation begun adds its frame when the last byte has arrived and nothing before.\<close>

lemma decode_begun:
  assumes "observation_ok ob" "pre @ rest = observation_frame crc ob"
  shows "fst (decode_all crc pre) = (if rest = [] then [observation_image ob] else [])"
proof (cases "rest = []")
  case True
  then show ?thesis
    using decode_stream [of "[ob]" crc "[]"] assms by (simp add: stream_of_def decode_all_Incomplete)
next
  case False
  have "frame_parse crc (pre @ rest) = FrameOk (observation_image ob) (length (pre @ rest))"
    unfolding assms(2) observation_frame_def
    using frame_parse_frame_bytes [OF observation_image_short [OF assms(1)], of crc "[]"] by simp
  then show ?thesis using unfinished_frame False by simp
qed

lemma begun_frames:
  assumes "begun crc r rest sp now" "\<forall>ob\<in>set (rc_sent r). observation_ok ob"
  shows "fst (decode_all crc (rc_wire r))
     = map observation_image (rc_sent r @ (if rest = [] then [observation_of now sp] else []))"
proof -
  obtain pre where pre: "rc_wire r = stream_of crc (rc_sent r) @ pre" "pre @ rest = observation_frame crc (observation_of now sp)"
    and l: "length (sp_packet sp) \<le> MAX_WIRE_LEN" using assms(1) by (auto simp: begun_def)
  show ?thesis
    using decode_stream [OF assms(2), of crc pre] decode_begun [OF written_observation [OF l] pre(2)] by (simp add: pre(1))
qed

section \<open>Properties\<close>

text \<open>C28: Between the radio and the gateway a packet is delivered whole or not at all. However the host
  opens and closes the port, whichever writes fail, and however the host reads the stream: since the
  writer last found the port opened the gateway makes out of the bytes exactly the observations written completely, in
  order, and at most one more - the one being written or lost last, all of whose bytes had arrived; what
  is left of a torn frame is never taken for an observation. And each time the link breaks costs
  exactly one packet.\<close>

theorem sessions_deliver_whole_packets:
  assumes "receiver_reachable crc mps r" "0 < mps" "concat stream_chunks = rc_wire r"
  shows "\<exists>obs. gateway_envelopes crc clock stream_chunks = map (\<lambda>(i, ob). from_observation ob (clock i)) (enumerate 0 obs)
    \<and> (obs = rc_sent r \<or> (\<exists>sp now. obs = rc_sent r @ [observation_of now sp]
          \<and> ((\<exists>ps. rc_writer r = WritingFrame ps sp now \<and> concat ps = []) \<or> rc_lost r \<noteq> [] \<and> sp = hd (rc_lost r))))
    \<and> length (rc_lost r) = rc_breaks r"
proof -
  have inv: "receiver_inv crc r" using receiver_inv_reachable [OF assms(1,2)] .
  have ok: "\<forall>ob\<in>set (rc_sent r). observation_ok ob" and lost: "length (rc_lost r) = rc_breaks r"
    and w: "writer_inv crc r (rc_writer r)" using inv by (simp_all add: receiver_inv_def)
  have f: "fst (feed crc ([], []) stream_chunks) = fst (decode_all crc (rc_wire r))"
    using feed_concat [of crc "[]" "[]" stream_chunks] assms(3) by (simp add: decode_all_Nil)
  have g: "gateway_envelopes crc clock stream_chunks = map (\<lambda>(i, ob). from_observation ob (clock i)) (enumerate 0 obs)"
    if "fst (decode_all crc (rc_wire r)) = map observation_image obs" for obs
    using gateway_envelopes_payloads that f by simp
  have sent: "fst (decode_all crc (rc_wire r)) = map observation_image (rc_sent r)" if "rc_wire r = stream_of crc (rc_sent r)"
    using decode_stream [OF ok, of crc "[]"] that by (simp add: decode_all_Nil)
  show ?thesis
  proof (cases "rc_wire r = stream_of crc (rc_sent r)")
    case True
    then show ?thesis using g [OF sent] lost by blast
  next
    case False
    then obtain rest sp now where b: "begun crc r rest sp now"
      and which: "(\<exists>ps. rc_writer r = WritingFrame ps sp now \<and> rest = concat ps) \<or> (rc_lost r \<noteq> [] \<and> sp = hd (rc_lost r))"
      using w by (cases "rc_writer r") (auto simp: torn_def)
    note frames = begun_frames [OF b ok]
    show ?thesis
    proof (cases "rest = []")
      case True
      then have "fst (decode_all crc (rc_wire r)) = map observation_image (rc_sent r @ [observation_of now sp])"
        using frames by simp
      from g [OF this] show ?thesis using which True lost by blast
    next
      case False
      then show ?thesis using g [of "rc_sent r"] frames lost by auto
    qed
  qed
qed

text \<open>One report heard, one session opened, one packet written.\<close>

definition sample_report :: adv_report where
  "sample_report =
     \<lparr>report_addr = DeviceAddr 1 2 3 4 5 6, report_rssi = - 60,
      report_data = [OtherAd, ManufacturerSpecificData COMPANY_ID sample_payload]\<rparr>"

definition sample_scanned :: scanned_packet where
  "sample_scanned =
     \<lparr>sp_addr = DeviceAddr 1 2 3 4 5 6, sp_captured_at = 10, sp_rssi = Dbm (- 60), sp_packet = 1 # u32_to_le 9 @ [0xAA]\<rparr>"

lemma sample_heard: "channel (on_ext_adv_reports 10 [None, Some sample_report] handler_new) = [sample_scanned]"
proof -
  have "lru_ready (Suc (Suc 0)) (seq_cache handler_new)" by (simp add: handler_new_def lru_ready_def) (simp add: lru_new_def SEQ_CACHE_SIZE_def)
  then have "\<not> fst (lru.check_and_record (seq_cache handler_new) (DeviceAddr 1 2 3 4 5 6) 9)"
    using lru.check_result [of 0 "seq_cache handler_new" "DeviceAddr 1 2 3 4 5 6" 9] by (simp add: handler_new_def)
  then show ?thesis
    using handle_payload_effects(2) [OF sample_payload_packet, of 10 "DeviceAddr 1 2 3 4 5 6" "- 60" handler_new]
    by (simp add: sample_report_def handle_ad_def sample_scanned_def handler_new_def MAX_WIRE_LEN_def channel_push_def CHANNEL_SIZE_def)
qed

lemma write_all:
  "receiver_reachable crc mps r \<Longrightarrow> rc_writer r = WritingFrame ps sp now
     \<Longrightarrow> receiver_reachable crc mps (r\<lparr>rc_writer := WritingFrame [] sp now, rc_wire := rc_wire r @ concat ps\<rparr>)"
proof (induction ps arbitrary: r)
  case (Cons p ps)
  from Cons.IH [OF receiver_reachable.step [OF Cons.prems(1) receiver_step.written [OF Cons.prems(2)]]] show ?case by simp
next
  case Nil
  then have "r\<lparr>rc_writer := WritingFrame [] sp now, rc_wire := rc_wire r @ []\<rparr> = r" by simp
  then show ?case using Nil.prems(1) by simp
qed

theorem sessions_deliver_whole_packets_witness:
  "\<exists>r. receiver_reachable (\<lambda>_. 0) 64 r \<and> rc_sent r = [observation_of 12 sample_scanned] \<and> rc_lost r = []
    \<and> gateway_envelopes (\<lambda>_. 0) (\<lambda>_. 0) [rc_wire r] = [from_observation (observation_of 12 sample_scanned) 0]"
proof -
  let ?h = "on_ext_adv_reports 10 [None, Some sample_report] handler_new"
  have l: "length (sp_packet sample_scanned) \<le> MAX_WIRE_LEN" by (simp add: sample_scanned_def MAX_WIRE_LEN_def)
  obtain ps where ps: "write_frame (\<lambda>_. 0) 64 12 sample_scanned = Inr ps"
    using write_frame_bytes [OF written_observation [OF l], of 64 "\<lambda>_. 0" 12] by auto
  define r1 where "r1 = receiver_new\<lparr>rc_handler := ?h, rc_writer := WaitingPacket\<rparr>"
  have "receiver_reachable (\<lambda>_. 0) 64 (receiver_new\<lparr>rc_handler := ?h\<rparr>)"
    using receiver_reachable.step [OF receiver_reachable.initial receiver_step.report, of "\<lambda>_. 0" 64 10 "[None, Some sample_report]"]
    by (simp add: receiver_new_def)
  from receiver_reachable.step [OF receiver_reachable.step [OF receiver_reachable.step [OF this receiver_step.connection]
      receiver_step.dtr_on] receiver_step.settled]
  have "receiver_reachable (\<lambda>_. 0) 64 r1" by (simp add: receiver_new_def r1_def)
  from receiver_reachable.step [OF this receiver_step.packet [where dtr = True and now = 12]]
  have taken: "receiver_reachable (\<lambda>_. 0) 64 (take_packet (\<lambda>_. 0) 64 True 12 r1)"
    using sample_heard by (simp add: r1_def)
  define r2 where "r2 = take_packet (\<lambda>_. 0) 64 True 12 r1"
  have r2: "rc_writer r2 = WritingFrame ps sample_scanned 12" "rc_sent r2 = []" "rc_lost r2 = []"
    using sample_heard ps by (simp_all add: r2_def take_packet_def r1_def Let_def led_on_def pop_channel_def receiver_new_def)
  from receiver_reachable.step [OF write_all [OF taken [folded r2_def] r2(1)] receiver_step.complete]
  obtain r where r: "receiver_reachable (\<lambda>_. 0) 64 r" "rc_sent r = [observation_of 12 sample_scanned]" "rc_lost r = []"
    "rc_writer r = WaitingPacket" using r2(2,3) by (fastforce simp: led_off_def)
  have "\<exists>obs. gateway_envelopes (\<lambda>_. 0) (\<lambda>_. 0) [rc_wire r] = map (\<lambda>(i, ob). from_observation ob 0) (enumerate 0 obs) \<and> obs = rc_sent r"
    using sessions_deliver_whole_packets [OF r(1), of "[rc_wire r]" "\<lambda>_. 0"] r(3,4) by auto
  then show ?thesis using r by auto
qed

end
