(* ===== verification/GatewayPipe.thy ===== *)
theory GatewayPipe
  imports Gateway
begin

text \<open>The gateway as it runs (\<open>src/gateway/src/main.rs\<close>): the loop of \<open>main\<close> over the frames of the
  serial port, the task \<open>mqtt_envelope_sender\<close> and the event loop of the MQTT client, with the bounded
  queues between them. A step is what one of the three does between two awaits; a full queue makes the
  one before it wait. When \<open>main\<close> returns the process ends, and no step follows. The third-party client is
  a queue of requests: \<open>topic_valid\<close> says which topics its \<open>publish\<close> accepts. Three fields only record
  what happened: the chunks read, the number of frames decoded, the messages handed to the event loop.\<close>

section \<open>The tasks\<close>

definition ENVELOPE_CAPACITY :: nat where "ENVELOPE_CAPACITY = 1024"
definition CLIENT_CAPACITY :: nat where "CLIENT_CAPACITY = 128"

type_synonym publish = "string \<times> bytes"

record pipe =
  pipe_running :: bool
  pipe_buffer :: bytes
  pipe_hand :: "observation_envelope option"
  pipe_queue :: "observation_envelope list"
  pipe_sending :: "publish option"
  pipe_client :: "publish list"
  pipe_read :: "bytes list"
  pipe_count :: nat
  pipe_handed :: "publish list"

definition pipe_new :: pipe where
  "pipe_new =
     \<lparr>pipe_running = True, pipe_buffer = [], pipe_hand = None, pipe_queue = [], pipe_sending = None,
      pipe_client = [], pipe_read = [], pipe_count = 0, pipe_handed = []\<rparr>"

text \<open>\<open>main\<close>: the framed reader decodes what it holds before it reads on; a payload that is no
  observation leaves the hand empty (\<open>continue\<close>); \<open>send\<close> waits for room. The end of the stream
  and a read error both leave the loop.\<close>

inductive reader_step :: "(bytes \<Rightarrow> u16) \<Rightarrow> (nat \<Rightarrow> int) \<Rightarrow> pipe \<Rightarrow> pipe \<Rightarrow> bool" for crc clock where
  chunk: "pipe_hand g = None \<Longrightarrow> frame_decoder_decode crc (pipe_buffer g) = (None, rest)
    \<Longrightarrow> reader_step crc clock g (g\<lparr>pipe_buffer := rest @ bs, pipe_read := pipe_read g @ [bs]\<rparr>)"
| stream_end: "pipe_hand g = None \<Longrightarrow> frame_decoder_decode crc (pipe_buffer g) = (None, rest)
    \<Longrightarrow> reader_step crc clock g (g\<lparr>pipe_running := False\<rparr>)"
| frame: "pipe_hand g = None \<Longrightarrow> frame_decoder_decode crc (pipe_buffer g) = (Some payload, rest)
    \<Longrightarrow> reader_step crc clock g
         (g\<lparr>pipe_buffer := rest, pipe_count := pipe_count g + 1,
            pipe_hand := envelope_of_frame (clock (pipe_count g)) payload\<rparr>)"
| send: "pipe_hand g = Some envelope \<Longrightarrow> length (pipe_queue g) < ENVELOPE_CAPACITY
    \<Longrightarrow> reader_step crc clock g (g\<lparr>pipe_hand := None, pipe_queue := pipe_queue g @ [envelope]\<rparr>)"

inductive sender_step ::
  "(observation_envelope \<Rightarrow> string + bytes) \<Rightarrow> (string \<Rightarrow> bool) \<Rightarrow> site \<Rightarrow> pipe \<Rightarrow> pipe \<Rightarrow> bool" for to_json topic_valid site where
  recv: "pipe_sending g = None \<Longrightarrow> pipe_queue g = envelope # queue
    \<Longrightarrow> sender_step to_json topic_valid site g
         (g\<lparr>pipe_queue := queue, pipe_sending := publish_of to_json site envelope\<rparr>)"
| publish: "pipe_sending g = Some (topic, bs) \<Longrightarrow> topic_valid topic \<Longrightarrow> length (pipe_client g) < CLIENT_CAPACITY
    \<Longrightarrow> sender_step to_json topic_valid site g
         (g\<lparr>pipe_sending := None, pipe_client := pipe_client g @ [(topic, bs)]\<rparr>)"
| publish_error: "pipe_sending g = Some (topic, bs) \<Longrightarrow> \<not> topic_valid topic
    \<Longrightarrow> sender_step to_json topic_valid site g (g\<lparr>pipe_sending := None\<rparr>)"

text \<open>\<open>mqtt_task\<close>: polling the event loop takes the oldest request; an error is waited out.\<close>

inductive event_loop_step :: "pipe \<Rightarrow> pipe \<Rightarrow> bool" where
  poll: "pipe_client g = request # requests
    \<Longrightarrow> event_loop_step g (g\<lparr>pipe_client := requests, pipe_handed := pipe_handed g @ [request]\<rparr>)"

definition pipe_step ::
  "(bytes \<Rightarrow> u16) \<Rightarrow> (nat \<Rightarrow> int) \<Rightarrow> (observation_envelope \<Rightarrow> string + bytes) \<Rightarrow> (string \<Rightarrow> bool) \<Rightarrow> site
     \<Rightarrow> pipe \<Rightarrow> pipe \<Rightarrow> bool" where
  "pipe_step crc clock to_json topic_valid site g g' \<longleftrightarrow>
     pipe_running g \<and> (reader_step crc clock g g' \<or> sender_step to_json topic_valid site g g' \<or> event_loop_step g g')"

abbreviation pipe_runs where
  "pipe_runs crc clock to_json topic_valid site \<equiv> rtranclp (pipe_step crc clock to_json topic_valid site)"

section \<open>The work in the pipe\<close>

definition opt_list :: "'a option \<Rightarrow> 'a list" where
  "opt_list o' = (case o' of None \<Rightarrow> [] | Some x \<Rightarrow> [x])"

lemma opt_list_simps [simp]: "opt_list None = []" "opt_list (Some x) = [x]"
  by (simp_all add: opt_list_def)

definition envelopes_from :: "(nat \<Rightarrow> int) \<Rightarrow> nat \<Rightarrow> bytes list \<Rightarrow> observation_envelope list" where
  "envelopes_from clock n ps = List.map_filter (\<lambda>(i, payload). envelope_of_frame (clock i) payload) (enumerate n ps)"

text \<open>Everything between the serial port and the event loop, oldest first.\<close>

definition pipe_pending ::
  "(bytes \<Rightarrow> u16) \<Rightarrow> (nat \<Rightarrow> int) \<Rightarrow> (observation_envelope \<Rightarrow> string + bytes) \<Rightarrow> site \<Rightarrow> pipe \<Rightarrow> publish list" where
  "pipe_pending crc clock to_json site g =
     pipe_client g @ opt_list (pipe_sending g)
   @ List.map_filter (publish_of to_json site)
       (pipe_queue g @ opt_list (pipe_hand g)
        @ envelopes_from clock (pipe_count g) (fst (decode_all crc (pipe_buffer g))))"

definition pipe_inv ::
  "(bytes \<Rightarrow> u16) \<Rightarrow> (nat \<Rightarrow> int) \<Rightarrow> (observation_envelope \<Rightarrow> string + bytes) \<Rightarrow> site \<Rightarrow> pipe \<Rightarrow> bool" where
  "pipe_inv crc clock to_json site g \<longleftrightarrow>
     (\<exists>ps. decode_all crc (concat (pipe_read g))
             = (ps @ fst (decode_all crc (pipe_buffer g)), snd (decode_all crc (pipe_buffer g)))
         \<and> length ps = pipe_count g)
   \<and> pipe_handed g @ pipe_pending crc clock to_json site g = gateway_publishes crc to_json site clock (pipe_read g)
   \<and> (\<forall>(topic, bs)\<in>set (opt_list (pipe_sending g)). \<exists>a. topic = topic_display \<lparr>topic_site = site, topic_addr = a\<rparr>)
   \<and> length (pipe_queue g) \<le> ENVELOPE_CAPACITY \<and> length (pipe_client g) \<le> CLIENT_CAPACITY"

lemma map_filter_append: "List.map_filter f (xs @ ys) = List.map_filter f xs @ List.map_filter f ys"
  by (induction xs) (auto simp: List.map_filter_simps split: option.split)

lemma map_filter_one [simp]: "List.map_filter f [x] = opt_list (f x)"
  by (simp add: List.map_filter_simps split: option.split)

lemma map_filter_Nil [simp]: "List.map_filter f [] = []"
  by (simp add: List.map_filter_simps)

lemma envelopes_from_Nil [simp]: "envelopes_from clock n [] = []"
  by (simp add: envelopes_from_def)

lemma envelopes_from_Cons:
  "envelopes_from clock n (p # ps) = opt_list (envelope_of_frame (clock n) p) @ envelopes_from clock (Suc n) ps"
  by (simp add: envelopes_from_def List.map_filter_simps split: option.split)

lemma envelopes_from_append:
  "envelopes_from clock n (ps @ qs) = envelopes_from clock n ps @ envelopes_from clock (n + length ps) qs"
  by (simp add: envelopes_from_def enumerate_append_eq map_filter_append)

lemma gateway_publishes_read:
  "gateway_publishes crc to_json site clock stream_chunks
     = List.map_filter (publish_of to_json site) (envelopes_from clock 0 (fst (decode_all crc (concat stream_chunks))))"
  using feed_concat [of crc "[]" "[]" stream_chunks]
  by (simp add: gateway_publishes_def gateway_envelopes_def envelopes_from_def decode_all_Nil)

lemma decode_all_None: "frame_decoder_decode crc bs = (None, rest) \<Longrightarrow> decode_all crc bs = ([], rest)"
  by (subst decode_all.simps) simp

lemma decode_all_Some:
  "frame_decoder_decode crc bs = (Some p, rest)
     \<Longrightarrow> decode_all crc bs = (p # fst (decode_all crc rest), snd (decode_all crc rest))"
  by (subst decode_all.simps) (simp split: prod.split)

section \<open>The invariant\<close>

lemma pipe_inv_new: "pipe_inv crc clock to_json site pipe_new"
  by (simp add: pipe_inv_def pipe_new_def pipe_pending_def decode_all_Nil gateway_publishes_read)

text \<open>A chunk appends to the stream what it completes.\<close>

lemma pipe_inv_chunk:
  assumes inv: "pipe_inv crc clock to_json site g" and none: "frame_decoder_decode crc (pipe_buffer g) = (None, rest)"
    and hand: "pipe_hand g = None"
  shows "pipe_inv crc clock to_json site (g\<lparr>pipe_buffer := rest @ bs, pipe_read := pipe_read g @ [bs]\<rparr>)"
proof -
  obtain ps where ps: "decode_all crc (concat (pipe_read g)) = (ps, rest)" "length ps = pipe_count g"
    using inv decode_all_None [OF none] by (auto simp: pipe_inv_def)
  have all: "decode_all crc (concat (pipe_read g @ [bs]))
      = (ps @ fst (decode_all crc (rest @ bs)), snd (decode_all crc (rest @ bs)))"
    using decode_all_append [of crc "concat (pipe_read g)" bs] by (simp add: ps)
  have old: "pipe_handed g @ pipe_pending crc clock to_json site g
      = List.map_filter (publish_of to_json site) (envelopes_from clock 0 ps)"
    using inv by (simp add: pipe_inv_def gateway_publishes_read ps)
  have "gateway_publishes crc to_json site clock (pipe_read g @ [bs])
      = List.map_filter (publish_of to_json site)
          (envelopes_from clock 0 ps @ envelopes_from clock (pipe_count g) (fst (decode_all crc (rest @ bs))))"
    unfolding gateway_publishes_read all by (simp add: envelopes_from_append ps(2))
  also have "\<dots> = pipe_handed g @ pipe_pending crc clock to_json site g
      @ List.map_filter (publish_of to_json site) (envelopes_from clock (pipe_count g) (fst (decode_all crc (rest @ bs))))"
    using old by (simp add: map_filter_append)
  finally show ?thesis
    using inv all ps(2) decode_all_None [OF none] hand
    by (simp add: pipe_inv_def pipe_pending_def map_filter_append)
qed

lemma pipe_inv_reader: "reader_step crc clock g g' \<Longrightarrow> pipe_inv crc clock to_json site g \<Longrightarrow> pipe_inv crc clock to_json site g'"
proof (induction rule: reader_step.induct)
  case (chunk g rest bs)
  then show ?case by (simp add: pipe_inv_chunk)
next
  case (frame g payload rest)
  then show ?case
    using decode_all_Some [OF frame(2)]
    by (force simp: pipe_inv_def pipe_pending_def envelopes_from_Cons)
qed (auto simp: pipe_inv_def pipe_pending_def)

lemma publish_of_topic:
  "publish_of to_json site e = Some (topic, bs) \<Longrightarrow> \<exists>a. topic = topic_display \<lparr>topic_site = site, topic_addr = a\<rparr>"
  by (auto simp: publish_of_def Let_def split: sum.splits)

text \<open>No topic of a site holds a wildcard.\<close>

lemma topic_plain:
  assumes "site_ok site"
  shows "CHR ''+'' \<notin> set (topic_display \<lparr>topic_site = site, topic_addr = a\<rparr>)"
    and "CHR ''#'' \<notin> set (topic_display \<lparr>topic_site = site, topic_addr = a\<rparr>)"
  using assms encode_hex_digits [of a]
  by (auto simp: topic_display_def site_ok_def list_all_iff site_char_def is_ascii_hexdigit_def)

text \<open>What MQTT says of a topic that is published to: it holds no wildcard.\<close>

definition takes_plain_topics :: "(string \<Rightarrow> bool) \<Rightarrow> bool" where
  "takes_plain_topics topic_valid \<longleftrightarrow> (\<forall>t. CHR ''+'' \<notin> set t \<longrightarrow> CHR ''#'' \<notin> set t \<longrightarrow> topic_valid t)"

lemma site_topic_valid:
  "takes_plain_topics topic_valid \<Longrightarrow> site_ok site \<Longrightarrow> topic_valid (topic_display \<lparr>topic_site = site, topic_addr = a\<rparr>)"
  using topic_plain by (simp add: takes_plain_topics_def)

lemma pipe_inv_sender:
  assumes "sender_step to_json topic_valid site g g'" "pipe_inv crc clock to_json site g" "site_ok site"
    and "takes_plain_topics topic_valid"
  shows "pipe_inv crc clock to_json site g'"
  using assms(1,2)
proof (induction rule: sender_step.induct)
  case (recv g envelope queue)
  then show ?case
    using publish_of_topic [of to_json site envelope]
    by (auto simp: pipe_inv_def pipe_pending_def map_filter_append List.map_filter_simps opt_list_def split: option.splits)
next
  case (publish_error g topic bs)
  then have "topic_valid topic" using site_topic_valid [OF assms(4,3)] by (auto simp: pipe_inv_def)
  then show ?case using publish_error by simp
qed (auto simp: pipe_inv_def pipe_pending_def)

lemma pipe_inv_event_loop: "event_loop_step g g' \<Longrightarrow> pipe_inv crc clock to_json site g \<Longrightarrow> pipe_inv crc clock to_json site g'"
  by (induction rule: event_loop_step.induct) (auto simp: pipe_inv_def pipe_pending_def)

lemma pipe_inv_runs:
  assumes "pipe_runs crc clock to_json topic_valid site g g'" "pipe_inv crc clock to_json site g" "site_ok site"
    and "takes_plain_topics topic_valid"
  shows "pipe_inv crc clock to_json site g'"
  using assms(1,2)
proof (induction rule: rtranclp_induct)
  case (step g1 g2)
  then show ?case
    using pipe_inv_reader pipe_inv_sender [OF _ _ assms(3,4)] pipe_inv_event_loop by (fastforce simp: pipe_step_def)
qed

section \<open>Draining\<close>

definition pipe_work :: "(bytes \<Rightarrow> u16) \<Rightarrow> pipe \<Rightarrow> nat" where
  "pipe_work crc g =
     length (pipe_client g) + 2 * length (opt_list (pipe_sending g)) + 3 * length (pipe_queue g)
   + 4 * length (opt_list (pipe_hand g)) + 5 * length (fst (decode_all crc (pipe_buffer g)))"

lemma pipe_work_zero: "pipe_work crc g = 0 \<Longrightarrow> pipe_pending crc clock to_json site g = []"
  by (simp add: pipe_work_def pipe_pending_def)

lemma opt_list_length: "length (opt_list x) \<le> 1"
  by (simp add: opt_list_def split: option.split)

text \<open>As long as the process runs and something is in the pipe, one of the tasks can go on without
  the others and without new input, and leaves less to do.\<close>

lemma pipe_progress:
  assumes "pipe_running g" "pipe_work crc g \<noteq> 0" "pipe_inv crc clock to_json site g" "site_ok site"
    and valid: "takes_plain_topics topic_valid"
  shows "\<exists>g'. pipe_step crc clock to_json topic_valid site g g' \<and> pipe_running g' \<and> pipe_read g' = pipe_read g
    \<and> pipe_work crc g' < pipe_work crc g"
proof -
  have go: ?thesis
    if "reader_step crc clock g g' \<or> sender_step to_json topic_valid site g g' \<or> event_loop_step g g'"
       "pipe_running g'" "pipe_read g' = pipe_read g" "pipe_work crc g' < pipe_work crc g" for g'
    using that assms(1) by (auto simp: pipe_step_def)
  consider (client) p c where "pipe_client g = p # c"
    | (sending) t b where "pipe_client g = []" "pipe_sending g = Some (t, b)"
    | (queue) e q where "pipe_sending g = None" "pipe_queue g = e # q"
    | (hand) e where "pipe_queue g = []" "pipe_hand g = Some e"
    | (buffer) "pipe_hand g = None" "fst (decode_all crc (pipe_buffer g)) \<noteq> []"
    using assms(2) by (cases "pipe_client g"; cases "pipe_sending g"; cases "pipe_queue g"; cases "pipe_hand g")
       (auto simp: pipe_work_def)
  then show ?thesis
  proof cases
    case client
    show ?thesis by (rule go [OF disjI2 [OF disjI2 [OF event_loop_step.poll [OF client]]]])
      (use assms(1) client in \<open>simp_all add: pipe_work_def\<close>)
  next
    case sending
    have "topic_valid t" using assms(3) sending(2) site_topic_valid [OF valid assms(4)] by (auto simp: pipe_inv_def)
    moreover have "length (pipe_client g) < CLIENT_CAPACITY" by (simp add: sending(1) CLIENT_CAPACITY_def)
    ultimately show ?thesis
      by (rule go [OF disjI2 [OF disjI1 [OF sender_step.publish [OF sending(2)]]]])
        (use assms(1) sending in \<open>simp_all add: pipe_work_def\<close>)
  next
    case queue
    show ?thesis by (rule go [OF disjI2 [OF disjI1 [OF sender_step.recv [OF queue]]]])
      (use assms(1) queue opt_list_length [of "publish_of to_json site e"] in \<open>simp_all add: pipe_work_def\<close>)
  next
    case hand
    have "length (pipe_queue g) < ENVELOPE_CAPACITY" by (simp add: hand(1) ENVELOPE_CAPACITY_def)
    then show ?thesis by (rule go [OF disjI1 [OF reader_step.send [OF hand(2)]]])
      (use assms(1) hand in \<open>simp_all add: pipe_work_def\<close>)
  next
    case buffer
    obtain p rest where d: "frame_decoder_decode crc (pipe_buffer g) = (Some p, rest)"
      using buffer(2) decode_all_None by (cases "frame_decoder_decode crc (pipe_buffer g)") fastforce
    show ?thesis by (rule go [OF disjI1 [OF reader_step.frame [OF buffer(1) d]]])
      (use assms(1) buffer(1) decode_all_Some [OF d] opt_list_length [of "envelope_of_frame (clock (pipe_count g)) p"]
       in \<open>simp_all add: pipe_work_def\<close>)
  qed
qed

lemma pipe_drains:
  assumes "pipe_running g" "pipe_inv crc clock to_json site g" "site_ok site"
    and valid: "takes_plain_topics topic_valid"
  shows "\<exists>g'. pipe_runs crc clock to_json topic_valid site g g' \<and> pipe_read g' = pipe_read g
    \<and> pipe_pending crc clock to_json site g' = []"
  using assms(1,2)
proof (induction "pipe_work crc g" arbitrary: g rule: less_induct)
  case less
  show ?case
  proof (cases "pipe_work crc g = 0")
    case True
    then show ?thesis using pipe_work_zero by blast
  next
    case False
    obtain g1 where g1: "pipe_step crc clock to_json topic_valid site g g1" "pipe_running g1" "pipe_read g1 = pipe_read g"
      "pipe_work crc g1 < pipe_work crc g"
      using pipe_progress [OF less.prems(1) False less.prems(2) assms(3) valid] by blast
    have "pipe_runs crc clock to_json topic_valid site g g1" using g1(1) by (rule r_into_rtranclp)
    then have "pipe_inv crc clock to_json site g1"
      using pipe_inv_runs less.prems(2) assms(3) valid by blast
    from less.hyps [OF g1(4,2) this] obtain g2 where "pipe_runs crc clock to_json topic_valid site g1 g2"
      "pipe_read g2 = pipe_read g1" "pipe_pending crc clock to_json site g2 = []" by blast
    then show ?thesis using g1(1,3) converse_rtranclp_into_rtranclp by metis
  qed
qed

lemma configured_site: "gateway_from_env fs env = Inr config \<Longrightarrow> site_ok (gw_site config)"
  by (auto simp: gateway_from_env_def env_var_def env_var_opt_def parse_site_def site_from_str_Inr_iff
      split: option.splits sum.splits var.splits)

section \<open>Properties\<close>

text \<open>C29: The gateway's three tasks and the two bounded queues between them implement the translation of
  the stream they read. However they interleave, whatever blocks and however the stream is split, what has been handed
  to the event loop is a beginning of the messages the stream translates to - in order, none twice, none
  left out - and the queues keep to their capacities. As long as the process runs it can always go
  on, without new input, to have handed over every message of what was read.\<close>

theorem pipe_implements_translation:
  assumes "gateway_from_env fs env = Inr config"
    and "pipe_runs crc clock to_json topic_valid (gw_site config) pipe_new g"
    and "takes_plain_topics topic_valid"
  shows "(\<exists>rest. gateway_publishes crc to_json (gw_site config) clock (pipe_read g) = pipe_handed g @ rest)
    \<and> length (pipe_queue g) \<le> ENVELOPE_CAPACITY \<and> length (pipe_client g) \<le> CLIENT_CAPACITY
    \<and> (pipe_running g \<longrightarrow> (\<exists>g'. pipe_runs crc clock to_json topic_valid (gw_site config) g g'
         \<and> pipe_read g' = pipe_read g
         \<and> pipe_handed g' = gateway_publishes crc to_json (gw_site config) clock (pipe_read g)))"
proof -
  note site = configured_site [OF assms(1)]
  have inv: "pipe_inv crc clock to_json (gw_site config) g"
    using pipe_inv_runs [OF assms(2) pipe_inv_new site assms(3)] by blast
  have "\<exists>g'. pipe_runs crc clock to_json topic_valid (gw_site config) g g' \<and> pipe_read g' = pipe_read g
      \<and> pipe_handed g' = gateway_publishes crc to_json (gw_site config) clock (pipe_read g)" if running: "pipe_running g"
  proof -
    obtain g' where g': "pipe_runs crc clock to_json topic_valid (gw_site config) g g'" "pipe_read g' = pipe_read g"
      "pipe_pending crc clock to_json (gw_site config) g' = []"
      using pipe_drains [OF running inv site assms(3)] by blast
    have "pipe_inv crc clock to_json (gw_site config) g'"
      using pipe_inv_runs [OF g'(1) inv site assms(3)] by blast
    then show ?thesis using g' by (auto simp: pipe_inv_def)
  qed
  moreover have "\<exists>rest. gateway_publishes crc to_json (gw_site config) clock (pipe_read g) = pipe_handed g @ rest"
    using inv by (metis pipe_inv_def)
  ultimately show ?thesis using inv by (simp add: pipe_inv_def)
qed

text \<open>A gateway of the site \<open>home\<close> reads one frame.\<close>

definition sample_environment :: environment where
  "sample_environment key =
     (if key = ''SITE'' then Present ''home'' else if key = ''MQTT_HOST'' then Present ''broker'' else NotPresent)"

lemma sample_config: "\<exists>config. gateway_from_env (\<lambda>_. Inl []) sample_environment = Inr config \<and> gw_site config = Site ''home''"
  by (simp add: gateway_from_env_def mqtt_from_env_def env_var_def env_var_or_def env_var_opt_def resolve_credentials_def
      sample_environment_def parse_site_def parse_string_def site_from_str_def site_char_def)

theorem pipe_implements_translation_witness:
  "\<exists>g. pipe_runs (\<lambda>_. 0) (\<lambda>_. 9000000) (\<lambda>e. Inr (env_packet e)) (\<lambda>t. CHR ''+'' \<notin> set t \<and> CHR ''#'' \<notin> set t)
       (Site ''home'') pipe_new g
     \<and> pipe_handed g = [(topic_display \<lparr>topic_site = Site ''home'', topic_addr = DeviceAddr 1 2 3 4 5 6\<rparr>, [1, 0, 0, 0, 0])]"
proof -
  let ?run = "pipe_runs (\<lambda>_. 0) (\<lambda>_. 9000000) (\<lambda>e. Inr (env_packet e)) (\<lambda>t. CHR ''+'' \<notin> set t \<and> CHR ''#'' \<notin> set t)
       (Site ''home'')"
  define fr where "fr = frame_bytes (\<lambda>_. 0) (observation_image sample_observation)"
  define g where "g = pipe_new\<lparr>pipe_buffer := fr, pipe_read := [fr]\<rparr>"
  then have g_fields: "pipe_running g" "pipe_read g = [fr]" by (simp_all add: pipe_new_def)
  have none: "frame_decoder_decode (\<lambda>_. 0) (pipe_buffer pipe_new) = (None, [])"
    by (simp add: pipe_new_def decode_Incomplete)
  have "reader_step (\<lambda>_. 0) (\<lambda>_. 9000000) pipe_new g"
    using reader_step.chunk [OF _ none, of "\<lambda>_. 9000000" fr] by (simp add: g_def pipe_new_def)
  then have run: "?run pipe_new g" by (intro r_into_rtranclp) (simp add: pipe_step_def pipe_new_def)
  obtain config where config: "gateway_from_env (\<lambda>_. Inl []) sample_environment = Inr config" "gw_site config = Site ''home''"
    using sample_config by blast
  have "takes_plain_topics (\<lambda>t. CHR ''+'' \<notin> set t \<and> CHR ''#'' \<notin> set t)" by (simp add: takes_plain_topics_def)
  from pipe_implements_translation [OF config(1) run [folded config(2)] this]
  obtain g' where g': "?run g g'" "pipe_handed g' = gateway_publishes (\<lambda>_. 0) (\<lambda>e. Inr (env_packet e)) (Site ''home'') (\<lambda>_. 9000000) [fr]"
    unfolding config(2) using g_fields by auto
  have read: "gateway_publishes (\<lambda>_. 0) (\<lambda>e. Inr (env_packet e)) (Site ''home'') (\<lambda>_. 9000000) [fr]
      = [(topic_display \<lparr>topic_site = Site ''home'', topic_addr = DeviceAddr 1 2 3 4 5 6\<rparr>, [1, 0, 0, 0, 0])]"
  proof -
    have stream: "concat [fr] = concat (map (\<lambda>ob. frame_bytes (\<lambda>_. 0) (observation_image ob)) [sample_observation])"
      unfolding fr_def list.map concat.simps ..
    have ok: "\<forall>ob\<in>set [sample_observation]. observation_ok ob"
      by (simp add: observation_ok_def sample_observation_def MAX_WIRE_LEN_def)
    show ?thesis
      unfolding gateway_forwards_observations [OF stream ok, of "\<lambda>e. Inr (env_packet e)" env_packet, OF refl]
      by (simp add: sample_observation_def)
  qed
  show ?thesis by (intro exI conjI, rule rtranclp_trans [OF run g'(1)]) (unfold g'(2) read, rule refl)
qed

end
