(* ===== verification/Tool.thy ===== *)
theory Tool
  imports CommandFacts Session Verify
begin

text \<open>The tool as a whole (\<open>src/provision/src/main.rs\<close>, \<open>cli.rs\<close>): the commands with their arguments
  as the parser delivers them, and the dispatch on them, each command in front of the loading of stores
  it starts with. The state is the bench - board, network, terminal, disk - and what was printed.\<close>

section \<open>Arguments\<close>

record api_args =
  aa_profile :: "string option"
  aa_api_url :: "string option"

datatype tool_command =
    CliLogin "string option" "string option"
  | CliLogout "string option"
  | CliWhoami api_args
  | CliList api_args
  | CliInfo "string option"
  | CliFirmware firmware_command
  | CliFlash "string option" "string option" nat
  | CliProvision string api_args "string option" "string option" nat bool bool
  | CliRotate api_args "string option" "string option" nat bool bool
  | CliVerify "device_addr option" api_args "string option" nat

datatype tool_error = ToolSession session_error | ToolCommand command_error | ToolVerify verify_error

section \<open>State\<close>

record workbench =
  wb_bench :: bench
  wb_out :: string

definition session_of :: "workbench \<Rightarrow> session" where
  "session_of w =
     \<lparr>ss_disk = bench_disk (wb_bench w), ss_net = bench_net (wb_bench w), ss_tty = bench_tty (wb_bench w),
      ss_out = wb_out w\<rparr>"

definition put_session :: "session \<Rightarrow> workbench \<Rightarrow> workbench" where
  "put_session s w =
     \<lparr>wb_bench = (wb_bench w)\<lparr>bench_disk := ss_disk s, bench_net := ss_net s, bench_tty := ss_tty s\<rparr>,
      wb_out = ss_out s\<rparr>"

interpretation session_part: part session_of put_session
  by unfold_locales (simp_all add: session_of_def put_session_def)

interpretation bench_part: part wb_bench "\<lambda>b w. w\<lparr>wb_bench := b\<rparr>"
  by unfold_locales simp_all

definition on_session :: "(session, 'e, 'a) comp \<Rightarrow> (workbench, 'e, 'a) comp" where
  "on_session = on_part session_of put_session"

definition on_bench :: "(bench, 'e, 'a) comp \<Rightarrow> (workbench, 'e, 'a) comp" where
  "on_bench = on_part wb_bench (\<lambda>b w. w\<lparr>wb_bench := b\<rparr>)"

section \<open>Dispatch\<close>

definition no_store :: firmware_store where
  "no_store = \<lparr>fst_dir = [], fst_artifacts = [], fst_disk = \<lparr>dk_files = Map.empty, dk_step = 0, dk_script = (\<lambda>_. None)\<rparr>\<rparr>"

text \<open>The store of images is loaded only where \<open>--firmware\<close> names one.\<close>

definition named_store :: "session_env \<Rightarrow> string option \<Rightarrow> (session, session_error, firmware_store) comp" where
  "named_store env firmware = (case firmware of None \<Rightarrow> return_ok no_store | Some _ \<Rightarrow> firmware_load env)"

text \<open>\<open>provision\<close> and \<open>rotate\<close>: the image is looked up before the client is resolved.\<close>

definition run_keying ::
  "session_env \<Rightarrow> (prov_args \<Rightarrow> (bench, command_error, device_addr \<times> string) comp) \<Rightarrow> api_args \<Rightarrow> string option
     \<Rightarrow> string option \<Rightarrow> nat \<Rightarrow> bool \<Rightarrow> bool \<Rightarrow> (workbench, tool_error, unit) comp" where
  "run_keying env command api firmware probe logs yes unlock =
     and_then (with_err ToolSession (on_session (named_store env firmware))) (\<lambda>store.
     and_then (with_err ToolCommand (on_bench (on_tty (optional_firmware store firmware)))) (\<lambda>_.
     and_then (with_err ToolSession (on_session (resolve_client env (aa_profile api) (aa_api_url api)))) (\<lambda>t.
     and_then (with_err ToolCommand (on_bench (command
        \<lparr>pa_store = store, pa_target = Inr t, pa_firmware = firmware, pa_probe = probe, pa_logs = logs,
         pa_yes = yes, pa_unlock = unlock\<rparr>))) (\<lambda>_. return_ok ()))))"

text \<open>\<open>flash\<close> needs no client; its target is never looked at.\<close>

definition run_flash ::
  "session_env \<Rightarrow> bench_setup \<Rightarrow> string option \<Rightarrow> string option \<Rightarrow> nat \<Rightarrow> (workbench, tool_error, unit) comp" where
  "run_flash env su firmware probe logs =
     and_then (with_err ToolSession (on_session (firmware_load env))) (\<lambda>store.
     and_then (with_err ToolCommand (on_bench (flash su
        \<lparr>pa_store = store, pa_target = Inl DeviceLocked, pa_firmware = firmware, pa_probe = probe, pa_logs = logs,
         pa_yes = False, pa_unlock = False\<rparr>))) (\<lambda>_. return_ok ()))"

definition run_verify ::
  "session_env \<Rightarrow> bench_setup \<Rightarrow> waiting \<Rightarrow> nat \<Rightarrow> device_addr option \<Rightarrow> api_args \<Rightarrow> string option \<Rightarrow> nat
     \<Rightarrow> (workbench, tool_error, unit) comp" where
  "run_verify env su wait now address api probe timeout_secs =
     and_then (with_err ToolSession (on_session (resolve_client env (aa_profile api) (aa_api_url api)))) (\<lambda>t.
     and_then (with_err ToolVerify (on_bench (verify wait su (Inr t) probe address timeout_secs now))) (\<lambda>_. return_ok ()))"

fun tool_main ::
  "session_env \<Rightarrow> bench_setup \<Rightarrow> waiting \<Rightarrow> nat \<Rightarrow> tool_command \<Rightarrow> (workbench, tool_error, unit) comp" where
  "tool_main env su wait now (CliLogin profile api_url) = with_err ToolSession (on_session (login env profile api_url))"
| "tool_main env su wait now (CliLogout profile) =
     and_then (with_err ToolSession (on_session (logout env profile))) (\<lambda>_. return_ok ())"
| "tool_main env su wait now (CliWhoami api) =
     with_err ToolSession (on_session (whoami env (aa_profile api) (aa_api_url api)))"
| "tool_main env su wait now (CliList api) =
     with_err ToolSession (on_session (list_devices env (aa_profile api) (aa_api_url api)))"
| "tool_main env su wait now (CliInfo probe) =
     and_then (with_err ToolCommand (on_bench (info su probe))) (\<lambda>_. return_ok ())"
| "tool_main env su wait now (CliFirmware command) = with_err ToolSession (on_session (firmware_command_run env command))"
| "tool_main env su wait now (CliFlash firmware probe logs) = run_flash env su firmware probe logs"
| "tool_main env su wait now (CliProvision name api firmware probe logs yes unlock) =
     run_keying env (\<lambda>args. provision su args name) api firmware probe logs yes unlock"
| "tool_main env su wait now (CliRotate api firmware probe logs yes unlock) =
     run_keying env (rotate_key su) api firmware probe logs yes unlock"
| "tool_main env su wait now (CliVerify address api probe timeout_secs) =
     run_verify env su wait now address api probe timeout_secs"

text \<open>One command after another at the same bench.\<close>

fun tool_runs :: "session_env \<Rightarrow> bench_setup \<Rightarrow> waiting \<Rightarrow> nat \<Rightarrow> tool_command list \<Rightarrow> workbench \<Rightarrow> workbench" where
  "tool_runs env su wait now [] w = w"
| "tool_runs env su wait now (command # commands) w =
     tool_runs env su wait now commands (snd (tool_main env su wait now command w))"

section \<open>The commands without a board\<close>

abbreviation serves :: "service \<Rightarrow> session \<Rightarrow> bool" where
  "serves svc \<equiv> \<lambda>s. net_service (ss_net s) = svc"

definition harmless_session :: "(session, 'e, 'a) comp \<Rightarrow> bool" where
  "harmless_session f \<longleftrightarrow> (\<forall>svc. holds (serves svc) f (\<lambda>_. serves svc) (\<lambda>_. serves svc))"

lemma harmless_disk: "harmless_session (on_session_disk f)"
  unfolding harmless_session_def on_session_disk_def by (intro allI session_disk_part.frame) simp

lemma harmless_net:
  assumes "\<And>n r n'. f n = (r, n') \<Longrightarrow> net_service n' = net_service n"
  shows "harmless_session (on_session_net f)"
  unfolding harmless_session_def on_session_net_def
  by (intro allI holds_on_part) (auto simp: holds_def dest!: assms split: prod.split sum.split)

lemma harmless_steps:
  "harmless_session (return_ok x)" "harmless_session (throw e)" "harmless_session (lift_result r)"
  "harmless_session (print_out t)" "harmless_session (on_profiles st p)" "harmless_session (on_firmware fs q)"
  "harmless_session read_token"
  by (auto simp: harmless_session_def holds_def return_ok_def throw_def lift_result_def print_out_def on_profiles_def
      on_firmware_def read_token_def Let_def split: prod.split sum.split)

lemma harmless_and_then: "harmless_session m \<Longrightarrow> (\<And>x. harmless_session (f x)) \<Longrightarrow> harmless_session (and_then m f)"
  unfolding harmless_session_def by (blast intro: holds_and_then)

lemma harmless_with_err: "harmless_session m \<Longrightarrow> harmless_session (with_err h m)"
  unfolding harmless_session_def by (blast intro: holds_with_err)

lemma harmless_or_else: "harmless_session m \<Longrightarrow> (\<And>e. harmless_session (h e)) \<Longrightarrow> harmless_session (or_else m h)"
  unfolding harmless_session_def by (blast intro: holds_or_else)

lemma client_devices_service: "client_devices t net = (r, net') \<Longrightarrow> net_service net' = net_service net"
  using call_service [of t serve_list net r net'] by (auto simp: client_devices_def serve_list_def)

lemmas harmless_intros = harmless_disk harmless_steps harmless_and_then harmless_with_err harmless_or_else

lemma harmless_loading:
  "harmless_session (profiles_load env)" "harmless_session (firmware_load env)" "harmless_session (resolve_client env p u)"
  "harmless_session (named_store env fw)"
  unfolding profiles_load_def firmware_load_def resolve_client_def named_store_def
  by (auto intro!: harmless_intros split: option.split)

lemma harmless_check_auth: "harmless_session (on_session_net (client_check_auth t))"
  by (rule harmless_net) (use check_auth_service in blast)

lemma harmless_devices: "harmless_session (on_session_net (client_devices t))"
  by (rule harmless_net) (rule client_devices_service)

lemma harmless_commands:
  "harmless_session (login env p u)" "harmless_session (logout env p)" "harmless_session (whoami env p u)"
  "harmless_session (list_devices env p u)" "harmless_session (firmware_command_run env c)"
  unfolding login_def logout_def whoami_def list_devices_def firmware_command_run_def Let_def
  by (auto intro!: harmless_intros harmless_loading harmless_check_auth harmless_devices
      split: option.split firmware_command.split)

section \<open>The commands on a board\<close>

text \<open>What stays as it was: the words of the key record, and the service unless the world may go on
  meanwhile (\<open>moves\<close>).\<close>

abbreviation steady :: "bool \<Rightarrow> service \<Rightarrow> (nat \<Rightarrow> access) \<Rightarrow> u32 list \<Rightarrow> bench \<Rightarrow> bool" where
  "steady moves svc sc rw \<equiv> board (\<lambda>n. moves \<or> net_service n = svc) sc (\<lambda>m. record_words m = rw)"

definition keeps_steady :: "bool \<Rightarrow> (bench, 'e, 'a) comp \<Rightarrow> bool" where
  "keeps_steady moves f \<longleftrightarrow>
     (\<forall>svc sc rw. holds (steady moves svc sc rw) f (\<lambda>_. steady moves svc sc rw) (\<lambda>_. steady moves svc sc rw))"

lemma steady_basic:
  "keeps_steady v (return_ok x)" "keeps_steady v (throw e)" "keeps_steady v (lift_result r)"
  by (simp_all add: keeps_steady_def holds_def return_ok_def throw_def lift_result_def split: sum.split)

lemma steady_and_then: "keeps_steady v m \<Longrightarrow> (\<And>x. keeps_steady v (f x)) \<Longrightarrow> keeps_steady v (and_then m f)"
  unfolding keeps_steady_def by (blast intro: holds_and_then)

lemma steady_with_err: "keeps_steady v m \<Longrightarrow> keeps_steady v (with_err h m)"
  unfolding keeps_steady_def by (blast intro: holds_with_err)

lemma steady_tty: "keeps_steady v (on_tty f)"
  unfolding keeps_steady_def by (intro allI holds_frame_tty)

lemma steady_files: "keeps_steady v (on_files f)"
  unfolding keeps_steady_def by (intro allI holds_frame_files)

lemma steady_reset: "keeps_steady v (on_core chip_reset)"
  unfolding keeps_steady_def by (intro allI holds_reset)

lemma steady_net:
  assumes "\<And>n r n'. f n = (r, n') \<Longrightarrow> v \<or> net_service n' = net_service n"
  shows "keeps_steady v (on_net f)"
  unfolding keeps_steady_def
  by (intro allI holds_on_net holdsI) (use assms in blast)+

lemma steady_record:
  assumes "keeps_record f"
  shows "keeps_steady v (on_core f)"
  using assms unfolding keeps_steady_def keeps_record_def
  by (intro allI holds_on_core) (rule holds_conseq, blast, auto simp: mem_in_def)

lemma keeps_record_frame:
  assumes "\<And>sc m. holds (at_mem sc m) f (\<lambda>_. at_mem sc m) (\<lambda>_. at_mem sc m)"
  shows "keeps_record f"
  unfolding keeps_record_def by (intro allI, rule holds_conseq [OF assms]) (auto simp: mem_in_def)

lemma keeps_record_reads: "keeps_record read_state" "keeps_record read_uicr_words"
proof -
  show "keeps_record read_state"
    by (rule keeps_record_frame, rule holds_conseq [OF holds_read_state]) auto
  have "holds (at_mem sc m) (read_words n a) (\<lambda>_. at_mem sc m) (\<lambda>_. at_mem sc m)" for sc m n a
    unfolding read_words_def
    by (rule holds_at_mem, rule holds_conseq [OF holds_read_32]) (auto simp: at_def at_mem_def)
  then show "keeps_record read_uicr_words"
    unfolding read_uicr_words_def by (intro keeps_record_frame holds_and_then [OF holds_probe_control_mem])
qed

lemma keeps_record_ignoring: "keeps_record f \<Longrightarrow> keeps_record (ignoring f)"
  by (auto simp: keeps_record_def intro!: holds_ignoring)

lemmas steady_intros = steady_basic steady_and_then steady_with_err steady_tty steady_files steady_reset
  steady_record [OF keeps_record_reads(1)] steady_record [OF keeps_record_reads(2)]

lemma steady_info: "keeps_steady v (info su probe)"
  unfolding info_def by (auto intro!: steady_intros split: sum.split connection.split)

lemma steady_flash:
  assumes "setup_ok su"
  shows "keeps_steady v (flash su args)"
proof -
  have "keeps_steady v (flash_image su a img)" for a img
    unfolding flash_image_def using assms by (intro steady_record keeps_record_flash) (simp add: setup_ok_def)
  moreover have "keeps_steady v (report_boot su img logs)" for img logs
    unfolding report_boot_def using assms
    by (auto intro!: steady_intros steady_record keeps_record_ignoring simp: setup_ok_def)
  ultimately show ?thesis
    unfolding flash_def by (auto intro!: steady_intros split: sum.split connection.split prod.split)
qed

lemma steady_verify: "keeps_steady True (verify wait su target probe address timeout_secs now)"
proof -
  have net: "keeps_steady True (on_net f)" for f :: "(network, 'e, 'a) comp" by (rule steady_net) simp
  show ?thesis
    unfolding verify_def address_from_probe_def
    by (auto intro!: steady_intros net split: option.split sum.split connection.split progress.split)
qed

section \<open>A whole run\<close>

fun rekeys :: "tool_command \<Rightarrow> bool" where
  "rekeys (CliProvision _ _ _ _ _ _ _) = True"
| "rekeys (CliRotate _ _ _ _ _ _) = True"
| "rekeys _ = False"

fun waits :: "tool_command \<Rightarrow> bool" where
  "waits (CliVerify _ _ _ _) = True"
| "waits _ = False"

definition run_steady :: "bool \<Rightarrow> (workbench, 'e, 'a) comp \<Rightarrow> bool" where
  "run_steady v f \<longleftrightarrow> (\<forall>svc sc rw. holds (\<lambda>w. steady v svc sc rw (wb_bench w)) f
     (\<lambda>_ w. steady v svc sc rw (wb_bench w)) (\<lambda>_ w. steady v svc sc rw (wb_bench w)))"

lemma run_steady_session:
  assumes "harmless_session f"
  shows "run_steady v (on_session f)"
proof -
  have "net_service (ss_net s') = net_service (ss_net s)" if "f s = (r, s')" for s r s'
    using assms [unfolded harmless_session_def holds_def, rule_format, of s "net_service (ss_net s)", OF refl] that
    by (cases r) simp_all
  then have "net_service (bench_net (wb_bench (put_session s' w))) = net_service (bench_net (wb_bench w))"
    if "f (session_of w) = (r, s')" for w r s'
    using that by (fastforce simp: put_session_def session_of_def)
  moreover have "bench_core (wb_bench (put_session s' w)) = bench_core (wb_bench w)" for s' w
    by (simp add: put_session_def)
  ultimately have put: "steady v svc sc rw (wb_bench (put_session s' w)) = steady v svc sc rw (wb_bench w)"
    if "f (session_of w) = (r, s')" for w r s' svc sc rw
    using that by (simp add: board_def)
  show ?thesis unfolding run_steady_def on_session_def
    by (intro allI holds_on_part holdsI) (use put in blast)+
qed

lemma run_steady_bench: "keeps_steady v f \<Longrightarrow> run_steady v (on_bench f)"
  unfolding run_steady_def keeps_steady_def on_bench_def holds_def on_part_def
  by (fastforce split: prod.split sum.split prod.splits sum.splits)

lemma run_steady_basic:
  "run_steady v (return_ok x)" "run_steady v m \<Longrightarrow> run_steady v (with_err h m)"
  "run_steady v m \<Longrightarrow> (\<And>x. run_steady v (k x)) \<Longrightarrow> run_steady v (and_then m k)"
  unfolding run_steady_def by (simp add: holds_return, blast intro: holds_with_err, blast intro: holds_and_then)

lemma run_steady_main:
  assumes "setup_ok su" "\<not> rekeys command"
  shows "run_steady (waits command) (tool_main env su wait now command)"
  using assms
  by (cases command)
     (auto simp: run_flash_def run_verify_def
       intro!: run_steady_basic run_steady_session run_steady_bench harmless_commands harmless_loading
         steady_info steady_flash steady_verify)

lemma main_steady:
  assumes "setup_ok su" "\<not> rekeys command"
  shows "record_words (core_mem (bench_core (wb_bench (snd (tool_main env su wait now command w)))))
       = record_words (core_mem (bench_core (wb_bench w)))"
    and "\<not> waits command \<Longrightarrow> net_service (bench_net (wb_bench (snd (tool_main env su wait now command w))))
       = net_service (bench_net (wb_bench w))"
proof -
  let ?svc = "net_service (bench_net (wb_bench w))" and ?sc = "core_script (bench_core (wb_bench w))"
    and ?rw = "record_words (core_mem (bench_core (wb_bench w)))"
  obtain r w' where r: "tool_main env su wait now command w = (r, w')" by fastforce
  have "steady (waits command) ?svc ?sc ?rw (wb_bench w')"
    using run_steady_main [OF assms, of env wait now] r
    by (cases r) (auto simp: run_steady_def board_def holds_def split: prod.splits sum.splits)
  then show "record_words (core_mem (bench_core (wb_bench (snd (tool_main env su wait now command w))))) = ?rw"
    and "\<not> waits command \<Longrightarrow> net_service (bench_net (wb_bench (snd (tool_main env su wait now command w)))) = ?svc"
    using r by (auto simp: board_def)
qed

section \<open>Properties\<close>



end
