(* ===== verification/ApiMain.thy ===== *)
theory ApiMain
  imports Effects ApiAuth Ingest
begin

text \<open>The service over its life (\<open>src/api/src/main.rs\<close>, \<open>db.rs\<close>): it starts on a database, its HTTP
  handlers and its event loop interleave, it ends at any point, and starts again. Minting a key is two steps,
  as in \<open>devices/registry.rs\<close>: the statement is committed while the handler waits for the answer, and the
  cache is written after it. Between the two other handlers run, and the handler may be
  dropped with its connection. The database connection, the migrations and the query that loads the registry
  are the environment's: each may fail. \<open>sv_stale\<close> only records which devices' mints have met another one, been
  dropped or panicked since the start.\<close>

section \<open>Starting\<close>

definition api_start ::
  "xaead \<Rightarrow> file_system \<Rightarrow> environment \<Rightarrow> string option \<Rightarrow> (database, string, unit) comp \<Rightarrow> string option \<Rightarrow> database
     \<Rightarrow> (anyhow + admin_token \<times> device_registry) option \<times> database" where
  "api_start X fs env connect_fault migrate fault db =
     (case api_config_from_env fs env of
        Inl e \<Rightarrow> (Some (Inl e), db)
      | Inr config \<Rightarrow>
         (case connect_fault of
            Some e \<Rightarrow> (Some (Inl [''failed to connect to database'', e]), db)
          | None \<Rightarrow>
             (case (if api_run_migrations config then migrate db else (Inr (), db)) of
                (Inl e, db') \<Rightarrow> (Some (Inl [e]), db')
              | (Inr _, db') \<Rightarrow>
                 (case registry_load X fs (api_kek_path config) fault db' of
                    None \<Rightarrow> (None, db')
                  | Some (Inl e) \<Rightarrow> (Some (Inl e), db')
                  | Some (Inr reg) \<Rightarrow>
                      (Some (map_ok (\<lambda>tok. (tok, reg)) (admin_token_load fs (api_admin_token_path config))), db')))))"

section \<open>Running\<close>

record server =
  sv_token :: admin_token
  sv_registry :: device_registry
  sv_db :: database
  sv_unknown :: unknown_devices
  sv_minting :: "(device_addr \<times> registered_device) list"
  sv_stale :: "device_addr set"

datatype api_life = Down database | Up server

definition server_new :: "admin_token \<Rightarrow> device_registry \<Rightarrow> database \<Rightarrow> server" where
  "server_new tok reg db =
     \<lparr>sv_token = tok, sv_registry = reg, sv_db = db, sv_unknown = unknown_none, sv_minting = [], sv_stale = {}\<rparr>"

text \<open>The database half of a mint, of either kind: \<open>name\<close> is given for a new device.\<close>

definition mint_store ::
  "xaead \<Rightarrow> device_registry \<Rightarrow> string + bytes \<Rightarrow> bytes \<Rightarrow> sqlx_error option \<Rightarrow> sqlx_error option \<Rightarrow> int \<Rightarrow> device_addr
     \<Rightarrow> string option \<Rightarrow> database \<Rightarrow> (device_error + registered_device \<times> device_key) option \<times> database" where
  "mint_store X reg random iv fault1 fault2 now a name db =
     (case name of
        Some n \<Rightarrow> provision_store X reg random iv fault1 fault2 (\<lambda>d. d) now a n db
      | None \<Rightarrow> rotate_store X reg random iv fault1 now a db)"

definition random_ok :: "string + bytes \<Rightarrow> bytes \<Rightarrow> bool" where
  "random_ok random iv \<longleftrightarrow> length iv = NONCE_SIZE \<and> (\<forall>bs. random = Inr bs \<longrightarrow> length bs = DEVICE_KEY_SIZE)"

definition touch :: "device_addr \<Rightarrow> server \<Rightarrow> server" where
  "touch a s = (if a \<in> fst ` set (sv_minting s) then s\<lparr>sv_stale := insert a (sv_stale s)\<rparr> else s)"

inductive api_step ::
  "aead \<Rightarrow> xaead \<Rightarrow> (database, string, unit) comp \<Rightarrow> api_life \<Rightarrow> api_life \<Rightarrow> bool" for A X migrate where
  started: "api_start X fs env connect_fault migrate fault db = (Some (Inr (tok, reg)), db')
    \<Longrightarrow> api_step A X migrate (Down db) (Up (server_new tok reg db'))"
| not_started: "api_start X fs env connect_fault migrate fault db = (r, db') \<Longrightarrow> \<nexists>x. r = Some (Inr x)
    \<Longrightarrow> api_step A X migrate (Down db) (Down db')"
| ended: "api_step A X migrate (Up s) (Down (sv_db s))"
| envelope: "handle_envelope A now fault received (sv_registry s) (sv_unknown s) (sv_db s) = (out, unknown, db)
    \<Longrightarrow> api_step A X migrate (Up s) (Up (s\<lparr>sv_unknown := unknown, sv_db := db\<rparr>))"
| committed: "mint_store X (sv_registry s) random iv fault1 fault2 now a name (sv_db s) = (Some (Inr (d, key)), db)
    \<Longrightarrow> random_ok random iv
    \<Longrightarrow> api_step A X migrate (Up s) (Up ((touch a s)\<lparr>sv_db := db, sv_minting := (a, d) # sv_minting s\<rparr>))"
| refused: "mint_store X (sv_registry s) random iv fault1 fault2 now a name (sv_db s) = (Some (Inl e), db)
    \<Longrightarrow> api_step A X migrate (Up s) (Up (s\<lparr>sv_db := db\<rparr>))"
| panicked: "mint_store X (sv_registry s) random iv fault1 fault2 now a name (sv_db s) = (None, db)
    \<Longrightarrow> random_ok random iv \<Longrightarrow> api_step A X migrate (Up s) (Up (s\<lparr>sv_db := db, sv_stale := insert a (sv_stale s)\<rparr>))"
| published: "sv_minting s = before @ (a, d) # after
    \<Longrightarrow> api_step A X migrate (Up s) (Up (s\<lparr>sv_registry := publish (sv_registry s) a d, sv_minting := before @ after\<rparr>))"
| dropped: "sv_minting s = before @ (a, d) # after
    \<Longrightarrow> api_step A X migrate (Up s) (Up (s\<lparr>sv_minting := before @ after, sv_stale := insert a (sv_stale s)\<rparr>))"

inductive api_reachable ::
  "aead \<Rightarrow> xaead \<Rightarrow> (database, string, unit) comp \<Rightarrow> database \<Rightarrow> api_life \<Rightarrow> bool" for A X migrate db0 where
  first: "api_reachable A X migrate db0 (Down db0)"
| step: "api_reachable A X migrate db0 x \<Longrightarrow> api_step A X migrate x y \<Longrightarrow> api_reachable A X migrate db0 y"

section \<open>Facts\<close>

text \<open>What a migration leaves valid: the constraints of the tables.\<close>

definition migrate_ok :: "(database, string, unit) comp \<Rightarrow> bool" where
  "migrate_ok migrate \<longleftrightarrow> (\<forall>db. db_ok db \<longrightarrow> db_ok (snd (migrate db)))"

lemma start_db_ok:
  assumes "api_start X fs env connect_fault migrate fault db = (r, db')" "migrate_ok migrate" "db_ok db"
  shows "db_ok db'"
proof -
  have "db_ok d" if "migrate db = (q, d)" for q d using assms(2,3) that by (metis migrate_ok_def snd_conv)
  then show ?thesis
    using assms(1,3) by (auto simp: api_start_def split: sum.splits option.splits prod.splits if_splits)
qed

lemma start_coherent:
  assumes "api_start X fs env connect_fault migrate fault db = (Some (Inr (tok, reg)), db')" "migrate_ok migrate" "db_ok db"
  shows "coherent X reg db' \<and> ring_ok (keyring reg)"
proof -
  obtain path where "registry_load X fs path fault db' = Some (Inr reg)"
    using assms(1) by (auto simp: api_start_def split: sum.splits option.splits prod.splits if_splits)
  then show ?thesis using load_coherent start_db_ok [OF assms] by blast
qed

lemma expected_entry_devices:
  "devices_table db' = devices_table db \<Longrightarrow> expected_entry X ring db' = expected_entry X ring db"
  by (rule ext) (simp add: expected_entry_def find_row_def)

lemma handle_envelope_tables:
  assumes "handle_envelope A now fault received reg u db = (out, u', db')"
  shows "devices_table db' = devices_table db" "db_ok db \<Longrightarrow> db_ok db'"
proof -
  have "db' = db \<or> (\<exists>f rd a. db' = snd (insert_reading f rd a db))"
    using assms by (auto simp: handle_envelope_def Let_def split: option.splits sum.splits prod.splits) (metis snd_conv)+
  moreover have "devices_table (snd (insert_reading f rd a db)) = devices_table db" for f rd a
    by (simp add: insert_reading_def Let_def split: option.split)
  ultimately show "devices_table db' = devices_table db" "db_ok db \<Longrightarrow> db_ok db'"
    using db_ok_insert_reading by blast+
qed

lemma store_tables:
  "snd (rotate_store X reg random iv f1 now a db) = db \<or> (\<exists>k. snd (rotate_store X reg random iv f1 now a db) = snd (update_key f1 now a k db))"
  "snd (provision_store X reg random iv f1 f2 others now a n db) = db
     \<or> (\<exists>d. snd (provision_store X reg random iv f1 f2 others now a n db) = snd (insert_device f1 f2 others now d db))"
  unfolding rotate_store_def provision_store_def
  by (auto split: sum.split option.split prod.split insert_device_error.split) (metis snd_conv)+

lemma mint_store_db_ok: "mint_store X reg random iv f1 f2 now a name db = (r, db') \<Longrightarrow> db_ok db \<Longrightarrow> db_ok db'"
  using store_tables(1) [of X reg random iv f1 now a db]
    store_tables(2) [of X reg random iv f1 f2 "\<lambda>d. d" now a "the name" db]
    db_ok_update_key [of db f1 now a] db_ok_insert_device [of db "\<lambda>d. d" f1 f2 now]
  by (cases name) (fastforce simp: mint_store_def)+

lemma mint_store_failed: "mint_store X reg random iv f1 f2 now a name db = (Some (Inl e), db') \<Longrightarrow> db' = db"
  by (auto simp: mint_store_def dest: provision_store_failed rotate_store_failed split: option.splits)

lemma mint_store_entry:
  assumes "mint_store X reg random iv f1 f2 now a name db = (Some (Inr (d, key)), db')" "random_ok random iv"
    and "xaead_ok X" "ring_ok (keyring reg)" "db_ok db"
  shows "expected_entry X (keyring reg) db' b = (if b = a then Some d else expected_entry X (keyring reg) db b)"
proof -
  obtain bs where bs: "random = Inr bs"
    using assms(1) by (cases random)
      (auto simp: mint_store_def provision_store_def rotate_store_def generate_key_def split: option.splits)
  then have l: "length bs = DEVICE_KEY_SIZE" "length iv = NONCE_SIZE" using assms(2) by (auto simp: random_ok_def)
  show ?thesis
  proof (cases name)
    case None
    then show ?thesis
      using rotate_store_Inr(3) [OF assms(3,4) l(2) assms(5) l(1), of f1 now a d key db' b] assms(1) bs by (simp add: mint_store_def)
  next
    case (Some n)
    then show ?thesis
      using provision_store_Inr(4) [OF assms(3,4) l(2,1), of f1 f2 "\<lambda>d. d" now a n db d key db' b] assms(1) bs
      by (simp add: mint_store_def)
  qed
qed

section \<open>The invariant\<close>

text \<open>Away from the devices whose mints raced, the cache holds what the database does, or what it held before
  the one mint that is not yet published.\<close>

definition mints_of :: "device_addr \<Rightarrow> (device_addr \<times> registered_device) list \<Rightarrow> registered_device list" where
  "mints_of a minting = map snd (filter (\<lambda>m. fst m = a) minting)"

definition agree_at :: "registered_device list \<Rightarrow> registered_device option \<Rightarrow> registered_device option \<Rightarrow> bool" where
  "agree_at ds cached stored = (case ds of [] \<Rightarrow> cached = stored | [d] \<Rightarrow> stored = Some d | _ \<Rightarrow> False)"

definition entries_agree :: "xaead \<Rightarrow> server \<Rightarrow> bool" where
  "entries_agree X s \<longleftrightarrow>
     (\<forall>a. a \<notin> sv_stale s \<longrightarrow>
        agree_at (mints_of a (sv_minting s)) (registry_get (sv_registry s) a)
          (expected_entry X (keyring (sv_registry s)) (sv_db s) a))"

lemma mints_of_simps [simp]:
  "mints_of a [] = []"
  "mints_of a ((b, d) # ms) = (if b = a then d # mints_of a ms else mints_of a ms)"
  "mints_of a (xs @ ys) = mints_of a xs @ mints_of a ys"
  by (simp_all add: mints_of_def)

lemma mints_of_none: "a \<notin> fst ` set ms \<longleftrightarrow> mints_of a ms = []"
  by (force simp: mints_of_def filter_empty_conv)

lemma agree_at_one: "agree_at (xs @ d # ys) cached stored \<Longrightarrow> xs = [] \<and> ys = [] \<and> stored = Some d"
  by (cases xs; cases ys) (auto simp: agree_at_def split: list.splits)

fun life_inv :: "xaead \<Rightarrow> api_life \<Rightarrow> bool" where
  "life_inv X (Down db) = db_ok db"
| "life_inv X (Up s) = (db_ok (sv_db s) \<and> ring_ok (keyring (sv_registry s)) \<and> entries_agree X s)"

lemma keyring_publish [simp]: "keyring (publish reg a d) = keyring reg"
  by (simp add: publish_def)

lemma get_publish: "registry_get (publish reg a d) b = (if b = a then Some d else registry_get reg b)"
  by (simp add: publish_def registry_get_def)

lemma agree_new:
  assumes "coherent X reg db"
  shows "entries_agree X (server_new tok reg db)"
  using assms by (simp add: entries_agree_def server_new_def coherent_def registry_get_def agree_at_def)

lemma server_new_fields: "sv_registry (server_new tok reg db) = reg" "sv_db (server_new tok reg db) = db"
  by (simp_all add: server_new_def)

lemma agree_same_devices:
  assumes "entries_agree X s" "expected_entry X (keyring (sv_registry s)) db = expected_entry X (keyring (sv_registry s)) (sv_db s)"
  shows "entries_agree X (s\<lparr>sv_unknown := u, sv_db := db\<rparr>)" "entries_agree X (s\<lparr>sv_db := db\<rparr>)"
  using assms by (simp_all add: entries_agree_def)

lemma agree_committed:
  assumes "entries_agree X s"
    and entry: "\<And>b. expected_entry X (keyring (sv_registry s)) db b
       = (if b = a then Some d else expected_entry X (keyring (sv_registry s)) (sv_db s) b)"
  shows "entries_agree X ((touch a s)\<lparr>sv_db := db, sv_minting := (a, d) # sv_minting s\<rparr>)"
  using assms(1) mints_of_none [of a "sv_minting s"]
  by (simp add: entries_agree_def touch_def entry) (simp add: agree_at_def)

lemma agree_published:
  assumes "entries_agree X s" "sv_minting s = before @ (a, d) # after"
  shows "entries_agree X (s\<lparr>sv_registry := publish (sv_registry s) a d, sv_minting := before @ after\<rparr>)"
proof -
  have "agree_at (mints_of b (before @ after)) (registry_get (publish (sv_registry s) a d) b)
      (expected_entry X (keyring (sv_registry s)) (sv_db s) b)" if "b \<notin> sv_stale s" for b
  proof (cases "b = a")
    case True
    have "agree_at (mints_of a before @ d # mints_of a after) (registry_get (sv_registry s) a)
        (expected_entry X (keyring (sv_registry s)) (sv_db s) a)"
      using assms that True by (auto simp: entries_agree_def)
    from agree_at_one [OF this] show ?thesis using True by (simp add: get_publish agree_at_def)
  qed (use assms that in \<open>auto simp: entries_agree_def get_publish\<close>)
  then show ?thesis by (simp add: entries_agree_def)
qed

lemma agree_dropped:
  assumes "entries_agree X s" "sv_minting s = before @ (a, d) # after"
  shows "entries_agree X (s\<lparr>sv_minting := before @ after, sv_stale := insert a (sv_stale s)\<rparr>)"
  using assms by (auto simp: entries_agree_def)

text \<open>With a key for the current generation a mint does not panic.\<close>

lemma mint_store_not_None:
  assumes "xaead_ok X" "ring_ok (keyring reg)" "random_ok random iv"
  shows "fst (mint_store X reg random iv f1 f2 now a name db) \<noteq> None"
proof (cases "generate_key random")
  case (Inr key)
  then have "key_ok key" using assms(3) by (cases random) (auto simp: generate_key_def key_ok_def random_ok_def)
  then obtain k where k: "seal_with_nonce X (keyring reg) key a iv = Some k"
    using seal_bytes [OF assms(1,2) \<open>key_ok key\<close>, of iv a] assms(3) by (auto simp: random_ok_def)
  have u: "fst (update_key f1 now a k db) \<noteq> None"
    by (auto simp: update_key_def Let_def record_of_row_def dest!: find_row_Some split: option.split)
  have i: "fst (insert_device f1 f2 (\<lambda>d. d) now \<lparr>ins_name = n, ins_addr = a, ins_key = k\<rparr> db) \<noteq> None" for n
    by (auto simp: insert_device_def sql_insert_device_def Let_def record_of_row_def split: option.split)
  show ?thesis
  proof (cases name)
    case None
    obtain r db1 where "update_key f1 now a k db = (Some r, db1)" using u by (cases "update_key f1 now a k db") auto
    then show ?thesis
      by (simp add: mint_store_def rotate_store_def Inr k None split: sum.split option.split)
  next
    case (Some n)
    obtain r db1 where "insert_device f1 f2 (\<lambda>d. d) now \<lparr>ins_name = n, ins_addr = a, ins_key = k\<rparr> db = (Some r, db1)"
      using i [of n] by (cases "insert_device f1 f2 (\<lambda>d. d) now \<lparr>ins_name = n, ins_addr = a, ins_key = k\<rparr> db") auto
    then show ?thesis
      by (simp add: mint_store_def provision_store_def Inr k Some split: sum.split insert_device_error.split)
  qed
qed (simp add: mint_store_def rotate_store_def provision_store_def split: option.split)

lemma life_inv_step:
  assumes "api_step A X migrate x y" "life_inv X x" "xaead_ok X" "migrate_ok migrate"
  shows "life_inv X y"
  using assms(1,2)
proof (induction rule: api_step.induct)
  case (started fs env connect_fault fault db tok reg db')
  then have "db_ok db" by simp
  note start = start_coherent [OF started(1) assms(4) this] start_db_ok [OF started(1) assms(4) this]
  show ?case unfolding life_inv.simps server_new_fields
    by (intro conjI start(2) start(1) [THEN conjunct2] agree_new [OF start(1) [THEN conjunct1]])
next
  case (not_started fs env connect_fault fault db r db')
  then show ?case using start_db_ok [OF not_started(1) assms(4)] by simp
next
  case (envelope now fault received s out unknown db)
  then have inv: "db_ok (sv_db s)" "ring_ok (keyring (sv_registry s))" "entries_agree X s" by simp_all
  have "expected_entry X (keyring (sv_registry s)) db = expected_entry X (keyring (sv_registry s)) (sv_db s)"
    by (rule expected_entry_devices [OF handle_envelope_tables(1) [OF envelope(1)]])
  from agree_same_devices(1) [OF inv(3) this]
  show ?case using handle_envelope_tables(2) [OF envelope(1) inv(1)] inv(2) by simp
next
  case (committed s random iv fault1 fault2 now a name d key db)
  then have inv: "db_ok (sv_db s)" "ring_ok (keyring (sv_registry s))" "entries_agree X s" by simp_all
  have "sv_registry ((touch a s)\<lparr>sv_db := db, sv_minting := (a, d) # sv_minting s\<rparr>) = sv_registry s"
    by (simp add: touch_def)
  then show ?case
    using agree_committed [OF inv(3) mint_store_entry [OF committed(1,2) assms(3) inv(2,1)]]
      mint_store_db_ok [OF committed(1) inv(1)] inv(2) by simp
next
  case (refused s random iv fault1 fault2 now a name e db)
  then show ?case using mint_store_failed [OF refused(1)] by simp
next
  case (panicked s random iv fault1 fault2 now a name db)
  then show ?case using mint_store_not_None [OF assms(3) _ panicked(2), of "sv_registry s" fault1 fault2 now a name "sv_db s"] by simp
next
  case (published s before a d after)
  then show ?case using agree_published by simp
next
  case (dropped s before a d after)
  then show ?case using agree_dropped by simp
qed simp

lemma life_inv_reachable:
  "api_reachable A X migrate db0 x \<Longrightarrow> xaead_ok X \<Longrightarrow> migrate_ok migrate \<Longrightarrow> db_ok db0 \<Longrightarrow> life_inv X x"
  by (induction rule: api_reachable.induct) (use life_inv_step in \<open>auto\<close>)

section \<open>Properties\<close>


text \<open>A service started on a database with one device, whose key is then rotated.\<close>

definition service_files :: file_system where
  "service_files path = (if path = ''kek'' then Inr sample_ring_text else Inr (replicate 32 CHR ''x''))"

definition service_environment :: environment where
  "service_environment key =
     (if key = ''KEK_PATH'' then Present ''kek''
      else if key \<in> set [''DB_PORT'', ''DB_POOL_MAX_CONNECTIONS'', ''RUN_MIGRATIONS'', ''MQTT_PORT'', ''MQTT_CLIENT_ID'',
                        ''MQTT_USERNAME'', ''MQTT_PASSWORD_PATH''] then NotPresent
      else Present ''x'')"

lemma service_config:
  "\<exists>config. api_config_from_env service_files service_environment = Inr config \<and> \<not> api_run_migrations config
     \<and> api_kek_path config = ''kek'' \<and> api_admin_token_path config = ''x''"
  by (simp add: api_config_from_env_def mqtt_from_env_def env_var_def env_var_or_def env_var_opt_def resolve_credentials_def
      service_environment_def parse_string_def)

lemma service_starts:
  "\<exists>tok reg. api_start clear_xaead service_files service_environment None (return_ok ()) None sample_db
     = (Some (Inr (tok, reg)), sample_db)"
proof -
  obtain config where c: "api_config_from_env service_files service_environment = Inr config" "\<not> api_run_migrations config"
    "api_kek_path config = ''kek''" "api_admin_token_path config = ''x''" using service_config by blast
  obtain ring where "kek_ring_parse sample_ring_text = Inr ring" using sample_ring_parses by blast
  then have r: "kek_ring_load service_files ''kek'' = Inr ring" by (simp add: kek_ring_load_def service_files_def)
  have "all_records sample_db \<noteq> None" by (simp add: all_records_def sample_db_def record_of_row_def)
  moreover have t: "\<exists>tok. admin_token_load service_files ''x'' = Inr tok"
  proof -
    have "first_line (replicate 32 CHR ''x'') = Some (replicate 32 CHR ''x'')" "trim (replicate 32 CHR ''x'') = replicate 32 CHR ''x''"
      by code_simp+
    then show ?thesis by (simp add: admin_token_load_def service_files_def MIN_ADMIN_TOKEN_LEN_def)
  qed
  ultimately show ?thesis
    by (auto simp: api_start_def c r registry_load_def)
qed

lemma rotate_minted:
  assumes "xaead_ok X" "ring_ok (keyring reg)" "random_ok (Inr bs) iv" "find_row db (addr_as_i64 a) = Some row"
  shows "\<exists>d db'. mint_store X reg (Inr bs) iv None None now a None db = (Some (Inr (d, DeviceKey bs)), db')"
proof -
  have "key_ok (DeviceKey bs)" using assms(3) by (simp add: key_ok_def random_ok_def)
  then obtain k where "seal_with_nonce X (keyring reg) (DeviceKey bs) a iv = Some k"
    using seal_bytes [OF assms(1,2) \<open>key_ok (DeviceKey bs)\<close>, of iv a] assms(3) by (auto simp: random_ok_def)
  then show ?thesis
    using assms(4) find_row_Some [OF assms(4)]
    by (simp add: mint_store_def rotate_store_def generate_key_def update_key_def Let_def record_of_row_def)
qed


text \<open>C37: A connection that closes while the database answers a key rotation can leave registry and database
  apart: the handler is dropped between its two halves, the database holds the new key and the cache keeps
  what it had, until another rotation or the next start.\<close>

theorem dropped_rotation_diverges:
  assumes "mint_store X (sv_registry s) (Inr bs) iv fault1 fault2 now a None (sv_db s) = (Some (Inr (d, key)), db)"
    and "random_ok (Inr bs) iv" "xaead_ok X" "ring_ok (keyring (sv_registry s))" "db_ok (sv_db s)"
    and "\<forall>d0. registry_get (sv_registry s) a = Some d0 \<longrightarrow> cipher_key (reg_cipher d0) \<noteq> DeviceKey bs"
  shows "\<exists>s'. rtranclp (api_step A X migrate) (Up s) (Up s')
     \<and> registry_get (sv_registry s') a = registry_get (sv_registry s) a
     \<and> expected_entry X (keyring (sv_registry s')) (sv_db s') a = Some d \<and> cipher_key (reg_cipher d) = DeviceKey bs
     \<and> registry_get (sv_registry s') a \<noteq> expected_entry X (keyring (sv_registry s')) (sv_db s') a"
proof -
  let ?s1 = "(touch a s)\<lparr>sv_db := db, sv_minting := (a, d) # sv_minting s\<rparr>"
  let ?s2 = "?s1\<lparr>sv_minting := sv_minting s, sv_stale := insert a (sv_stale ?s1)\<rparr>"
  have first: "api_step A X migrate (Up s) (Up ?s1)" by (rule api_step.committed [OF assms(1,2)])
  have second: "api_step A X migrate (Up ?s1) (Up ?s2)"
    using api_step.dropped [of ?s1 "[]" a d "sv_minting s" A X migrate] by simp
  have "rtranclp (api_step A X migrate) (Up s) (Up ?s1)" using first by (rule r_into_rtranclp)
  then have run: "rtranclp (api_step A X migrate) (Up s) (Up ?s2)" using second by (rule rtranclp.rtrancl_into_rtrancl)
  have reg: "sv_registry ?s2 = sv_registry s" "sv_db ?s2 = db" by (simp_all add: touch_def)
  have e: "expected_entry X (keyring (sv_registry s)) db a = Some d"
    using mint_store_entry [OF assms(1-5), of a] by simp
  have k: "cipher_key (reg_cipher d) = DeviceKey bs"
    using rotate_store_Inr(1,2) [OF assms(3,4) _ assms(5)] assms(1,2) by (auto simp: mint_store_def random_ok_def)
  have "registry_get (sv_registry s) a \<noteq> Some d" using assms(6) k by auto
  then show ?thesis using run e k by (intro exI [of _ ?s2]) (simp only: reg simp_thms)
qed

theorem dropped_rotation_diverges_witness:
  "\<exists>A s d. rtranclp (api_step A clear_xaead (return_ok ())) (Up (server_new (AdminToken ''t'') sample_registry sample_db)) (Up s)
     \<and> registry_get (sv_registry s) (DeviceAddr 1 2 3 4 5 6) = None
     \<and> expected_entry clear_xaead (keyring (sv_registry s)) (sv_db s) (DeviceAddr 1 2 3 4 5 6) = Some d"
proof -
  let ?a = "DeviceAddr 1 2 3 4 5 6" and ?bs = "replicate 32 (3 :: byte)" and ?iv = "replicate 24 (0 :: byte)"
  let ?s = "server_new (AdminToken ''t'') sample_registry sample_db"
  have rnd: "random_ok (Inr ?bs) ?iv" by (simp add: random_ok_def NONCE_SIZE_def DEVICE_KEY_SIZE_def)
  have "\<exists>row. find_row sample_db (addr_as_i64 ?a) = Some row" by (simp add: sample_db_def find_row_def)
  then obtain d db' where d: "mint_store clear_xaead (sv_registry ?s) (Inr ?bs) ?iv None None 200 ?a None (sv_db ?s)
      = (Some (Inr (d, DeviceKey ?bs)), db')"
    using rotate_minted [OF clear_xaead_ok sample_registry_facts(1) rnd, of sample_db ?a _ 200] unfolding server_new_fields by blast
  have none: "registry_get (sv_registry ?s) ?a = None" by (simp add: server_new_fields sample_registry_def registry_get_def)
  have ok: "ring_ok (keyring (sv_registry ?s))" "db_ok (sv_db ?s)" by (simp_all add: server_new_fields sample_registry_facts)
  show ?thesis
    using dropped_rotation_diverges [OF d rnd clear_xaead_ok ok, of undefined "return_ok ()"] unfolding none by auto
qed

end
