(* ===== verification/Spec2Isabelle.thy ===== *)
theory Spec2Isabelle
  imports Prelude Effects Wire Measurement Frame Hex DeviceAddr DeviceKey Packet Packet_Facts Observation
    Text_Util Topic UicrRecord SeqCounter LruCache Receiver Sensor HostUtil Gateway
    ApiKeys ApiStore ApiTypes ApiRegistry ApiAuth UnknownDevices Ingest
    Nvmc Chip Board Elf ApiClient Disk Firmware Url ProvStore Confirm Commands CommandFacts MintFacts
    StorageFacts Verify Logs Output Session SensorNode ApiServer UsbLink GatewayPipe Tool ApiMain
begin

text \<open>Homescope, a network of battery-powered sensors, verified from the sensor's flash to the database
  and from the workbench to the fleet. All paths are under \<open>src/\<close>.

  \<^bold>\<open>The program.\<close> A sensor (\<open>firmware/sensor\<close>) measures, numbers the packet from a counter in flash,
  seals it under its own key and airs it in a burst. A receiver (\<open>firmware/receiver\<close>) drops repeats and
  passes what it hears over USB in frames. A gateway (\<open>gateway\<close>) publishes each observation over MQTT under
  a topic of its site. The service (\<open>api\<close>) opens the packets with the keys of its registry, stores the
  readings, and answers an administrator. The tool \<open>provision\<close> puts images and keys on boards over a
  debug probe and registers them at the service. The crate \<open>common\<close> holds the formats they share.

  \<^bold>\<open>Theories and sources.\<close>
  \<^item> Shared: \<^verbatim>\<open>Prelude\<close> (bytes, results, slices), \<^verbatim>\<open>Text_Util\<close> and \<^verbatim>\<open>Hex\<close> (string functions of the standard
    library), \<^verbatim>\<open>Effects\<close> (computations with early return over a state, and their contracts \<open>holds P m Q E\<close>).
  \<^item> \<open>common/src\<close>: \<^verbatim>\<open>Wire\<close> (\<open>wire.rs\<close>), \<^verbatim>\<open>Measurement\<close>, \<^verbatim>\<open>Frame\<close> (with \<open>gateway/src/decoder.rs\<close>), \<^verbatim>\<open>DeviceAddr\<close>,
    \<^verbatim>\<open>DeviceKey\<close>, \<^verbatim>\<open>Packet\<close> and \<^verbatim>\<open>Packet_Facts\<close> (\<open>packet.rs\<close>, \<open>packet/cipher.rs\<close>, \<open>packet/v1.rs\<close>), \<^verbatim>\<open>Observation\<close>
    (with \<open>observation_envelope.rs\<close>, \<open>reading.rs\<close>), \<^verbatim>\<open>Topic\<close> (\<open>site.rs\<close>, \<open>envelope_topic.rs\<close>), \<^verbatim>\<open>UicrRecord\<close>.
  \<^item> \<open>firmware\<close>: \<^verbatim>\<open>SeqCounter\<close> (\<open>sensor/src/seq_counter.rs\<close>), \<^verbatim>\<open>Sensor\<close> (\<open>sensors.rs\<close>, \<open>sensors/*.rs\<close>,
    \<open>packet_builder.rs\<close>), \<^verbatim>\<open>SensorNode\<close> (\<open>sensor/src/main.rs\<close>, \<open>ble_advertise.rs\<close>, \<open>board/src/*.rs\<close>), \<^verbatim>\<open>Board\<close>
    (\<open>board/build.rs\<close>), \<^verbatim>\<open>LruCache\<close>, \<^verbatim>\<open>Receiver\<close> and \<^verbatim>\<open>UsbLink\<close> (\<open>receiver/src\<close>; the last the tasks of its \<open>main.rs\<close>).
  \<^item> \<open>gateway\<close> and \<open>host-util\<close>: \<^verbatim>\<open>Gateway\<close>, \<^verbatim>\<open>GatewayPipe\<close> (its tasks and queues), \<^verbatim>\<open>HostUtil\<close>.
  \<^item> \<open>api\<close> and \<open>api-types\<close>: \<^verbatim>\<open>ApiKeys\<close> (\<open>devices/keys.rs\<close>), \<^verbatim>\<open>ApiStore\<close> (\<open>devices/store.rs\<close>, \<open>db.rs\<close>,
    \<open>devices/summary.rs\<close>), \<^verbatim>\<open>ApiTypes\<close> (errors and extractors), \<^verbatim>\<open>ApiRegistry\<close> (\<open>devices/registry.rs\<close>,
    \<open>devices/routes.rs\<close>), \<^verbatim>\<open>ApiAuth\<close> (\<open>http/auth.rs\<close>, \<open>config.rs\<close>), \<^verbatim>\<open>ApiServer\<close> (\<open>http.rs\<close>, \<open>http/health.rs\<close>),
    \<^verbatim>\<open>UnknownDevices\<close> and \<^verbatim>\<open>Ingest\<close> (\<open>ingest.rs\<close>), \<^verbatim>\<open>ApiMain\<close> (\<open>main.rs\<close>, \<open>db.rs\<close>).
  \<^item> \<open>provision/src\<close>: \<^verbatim>\<open>Nvmc\<close> and \<^verbatim>\<open>Chip\<close> (\<open>chip.rs\<close>, \<open>chip/nvmc.rs\<close>, \<open>chip/memory.rs\<close>), \<^verbatim>\<open>Elf\<close> and \<^verbatim>\<open>Firmware\<close>,
    \<^verbatim>\<open>Disk\<close> (the file system), \<^verbatim>\<open>Url\<close> and \<^verbatim>\<open>ProvStore\<close> (\<open>store.rs\<close>), \<^verbatim>\<open>ApiClient\<close> (\<open>api_client.rs\<close> in front of
    the modelled service), \<^verbatim>\<open>Confirm\<close>, \<^verbatim>\<open>Commands\<close> (\<open>commands.rs\<close>), \<^verbatim>\<open>Logs\<close>, \<^verbatim>\<open>Output\<close>, \<^verbatim>\<open>Session\<close> (the commands
    without a board), \<^verbatim>\<open>Verify\<close> and \<^verbatim>\<open>Tool\<close> (\<open>cli.rs\<close>, \<open>main.rs\<close>); \<^verbatim>\<open>CommandFacts\<close>, \<^verbatim>\<open>MintFacts\<close> and \<^verbatim>\<open>StorageFacts\<close> prove what spans several of them.

  \<^bold>\<open>State and operations.\<close> A struct is a record, an enum a datatype, a fixed-width integer a word of its
  width - with wrap-around, as in the release profile the firmware is built with - and a \<open>Result\<close> a sum.
  An operation that changes state returns the state also on its error path. Long-lived state that crashes
  and interleaves is a transition relation: the counter over its flash (\<open>seq_reachable\<close>), a sensor with its
  two tasks (\<open>node_reachable\<close>), the receiver with its host (\<open>receiver_reachable\<close>), the gateway's tasks (\<open>pipe_step\<close>),
  the service's event loop and its administrator (\<open>ingest_step\<close>), the service through its starts and ends (\<open>api_step\<close>). A board on the
  bench is a memory behind a probe; the tool's state is that board, a network in front of the service, a disk,
  a terminal and a clock, each with a script of the faults it will show.

  \<^bold>\<open>What is proved.\<close> Codecs are exact: decoders accept what encoders write and nothing else. Sequence numbers
  and nonces never repeat over a device's life, whatever the flash does. A measurement reaches the database
  unchanged, and only authentic readings do; what is torn on the USB link is never taken for an observation. A keyed board and the service hold the same key, a refused
  run leaves board and service as they were, and a keyed board is heard once it boots. Without the token no request
  changes or reads the service's state, and the tool's requests reach the handlers they mean. The registry agrees with
  the database over all starts and ends of the service, but for devices whose mints overlap or are dropped half way, and
  diverges there. Only \<open>provision\<close> and \<open>rotate\<close> change a key. What is handed to the broker is always a beginning of what the
  serial stream translates to. Files are old or new after
  a crash, images stay intact until the same image is added again, tokens travel over secure connections
  or to the workstation itself - with the exception the last group of properties shows.

  \<^bold>\<open>Bounds and termination.\<close> There is no fuel. Loops are structural or carry a measure: bytes left for the
  frame parser, slots left for the counter's scan, time left for every wait (each turn of a waiting loop takes
  at least one unit of the clock). The limits of the code - buffer, queue and cache sizes, 15 seconds for the
  flash controller, 10 seconds for finding the log - are constants under the code's names.

  \<^bold>\<open>Assumptions.\<close> Third-party code is a parameter with its documented behaviour as a predicate: the
  ciphers (\<open>aead_ok\<close>, \<open>xaead_ok\<close>: opening inverts sealing and accepts nothing else), the checksum (any function), JSON and TOML
  (the reader inverts the writer), SHA-256, the ELF reader, the defmt decoder, chrono's formats, the clock, the
  random source; writing an image and reading a log leave the key record (\<open>setup_ok\<close>), migrations keep the tables'
  constraints (\<open>migrate_ok\<close>), the MQTT client takes topics without wildcards. Every property with such a hypothesis has a witness with a concrete function.

  \<^bold>\<open>Not modelled.\<close> Hardware bring-up and the Bluetooth stack; the reconnection to MQTT, which
  holds no state of the program; axum's matching of one path template;
  the wording of diagnostics on stderr, logging through \<open>tracing\<close> and \<open>defmt\<close>, wiping of memory; command-line
  parsing; the SQL text (the queries are modelled by what they return); tests, documents and deployment files.\<close>

section \<open>From the sensor's flash to the database\<close>



lemma heard_packet_queued:
  assumes aead: "aead_ok A" and seq: "seq_next env (pb_counter b) f = (Inr s, c', f')"
    and measure: "measure_sensors sample ratio sht pwr = (ms, pwr')"
    and build: "build_packet A env ms b f = (Inr bs, b', f')"
    and heard: "handler_ok 2 h" "lru_lookup (seq_cache h) addr \<noteq> Some s"
  shows "\<exists>ct tag pkt. pkt = packet_bytes V1_VERSION s ct tag \<and> bs = AIR_MAGIC @ pkt
    \<and> sealed_body A (pb_cipher b) s (body_image ms) = Some (ct, tag)
    \<and> packet_parse pkt = Inr \<lparr>pkt_ver = V1_VERSION, pkt_seq = s, pkt_body = ct @ tag\<rparr> \<and> length pkt \<le> MAX_WIRE_LEN
    \<and> last (channel (handle_payload captured addr rssi bs h))
        = \<lparr>sp_addr = addr, sp_captured_at = captured, sp_rssi = Dbm rssi, sp_packet = pkt\<rparr>"
proof -
  have l: "length ms \<le> 3"
    using measure_kinds(1) [of sample ratio sht pwr] measure by (intro distinct_kinds_length) simp
  obtain ct tag where seal: "sealed_body A (pb_cipher b) s (body_image ms) = Some (ct, tag)"
    and bs: "bs = AIR_MAGIC @ packet_bytes V1_VERSION s ct tag"
    using build_packet_Inr [OF aead l seq] build by auto
  let ?pkt = "packet_bytes V1_VERSION s ct tag"
  let ?p = "\<lparr>pkt_ver = V1_VERSION, pkt_seq = s, pkt_body = ct @ tag\<rparr>"
  have parse: "packet_parse ?pkt = Inr ?p" by (simp add: packet_parse_Inr_iff packet_bytes_def)
  have strip: "strip_air_magic bs = Inr ?pkt" by (simp add: strip_air_magic_Inr_iff bs)
  have pp: "payload_packet bs = Some (?pkt, ?p)" by (simp add: payload_packet_def strip parse)
  have plen: "length ?pkt \<le> MAX_WIRE_LEN"
    using sealed_body_lengths [OF aead seal] l by (simp add: packet_bytes_def MAX_WIRE_LEN_def)
  have r2: "lru_ready (Suc (Suc 0)) (seq_cache h)"
    using heard(1) by (auto simp: handler_ok_def intro: lru_ready_less)
  have new: "\<not> fst (lru.check_and_record (seq_cache h) addr s)"
    using lru.check_result [OF r2, of addr s] heard(2) by simp
  let ?sp = "\<lparr>sp_addr = addr, sp_captured_at = captured, sp_rssi = Dbm rssi, sp_packet = ?pkt\<rparr>"
  have "channel (handle_payload captured addr rssi bs h) = channel_push (channel h) ?sp"
    using handle_payload_effects(2) [OF pp, of captured addr rssi h] new plen by (simp add: MAX_WIRE_LEN_def)
  then have "last (channel (handle_payload captured addr rssi bs h)) = ?sp"
    using channel_push_last [of "channel h" ?sp] heard(1) by (simp add: handler_ok_def)
  then show ?thesis using seal bs parse plen by blast
qed

text \<open>C2: A measurement travels unchanged from the sensor to the database. The packet a measurement
  cycle yields, once heard by the receiver as new, is queued; the USB packets written for it, however
  the host reads them, make the gateway publish exactly one message; the service accepts that
  message for the gateway's site, opens its packet with the key it holds for the device, and stores
  a row with the sequence number, the signal strength and the measurements of that cycle.\<close>

theorem measurement_reaches_database:
  assumes aead: "aead_ok A" and cipher: "pb_cipher b = cipher_new key addr"
    and seq: "seq_next env (pb_counter b) f = (Inr s, c', f')"
    and measure: "measure_sensors sample ratio sht pwr = (ms, pwr')"
    and build: "build_packet A env ms b f = (Inr bs, b', f')"
    and heard: "handler_ok 2 h" "lru_lookup (seq_cache h) addr \<noteq> Some s"
    and queued: "sp = last (channel (handle_payload captured addr rssi bs h))"
    and usb: "write_frame crc mps sent sp = Inr usb" "0 < mps" "concat stream_chunks = concat usb"
    and envelope: "e = \<lparr>env_addr = addr, env_rssi = Dbm rssi,
        env_received_at = clock 0 - uint (age_ms_of sent captured) * 1000000, env_packet = drop 2 bs\<rparr>"
    and json: "to_json e = Inr msg" "from_json msg = Inr e" and site: "site_ok st"
    and registered: "registry_get reg addr = Some dev" "reg_addr dev = addr" "reg_cipher dev = cipher_new key addr"
    and row: "row = row_of \<lparr>rd_addr = addr, rd_seq = s, rd_rssi = Dbm rssi, rd_received_at = env_received_at e,
        rd_battery = battery_of ms, rd_temperature = temperature_of ms, rd_relative_humidity = humidity_of ms\<rparr> addr"
  shows "\<exists>topic rcv db'. gateway_publishes crc to_json st clock stream_chunks = [(topic, msg)]
    \<and> decode_publish from_json topic msg = Inr rcv \<and> rcv_site rcv = st
    \<and> handle_envelope A now None rcv reg unknown db = (Stored, unknown, db')
    \<and> (\<exists>r\<in>set (readings_table db'). rr_addr r = rr_addr row \<and> rr_seq r = rr_seq row \<and> rr_time r = rr_time row)
    \<and> (row \<in> set (readings_table db') \<or> db' = db)"
proof -
  have k: "distinct (map kind ms)" "ms \<noteq> []"
    using measure_kinds(1,2) [of sample ratio sht pwr] measure by simp_all
  obtain ct tag pkt where seal: "sealed_body A (cipher_new key addr) s (body_image ms) = Some (ct, tag)"
    and pkt: "pkt = packet_bytes V1_VERSION s ct tag" "length pkt \<le> MAX_WIRE_LEN"
    and parse: "packet_parse pkt = Inr \<lparr>pkt_ver = V1_VERSION, pkt_seq = s, pkt_body = ct @ tag\<rparr>"
    and bs: "bs = AIR_MAGIC @ pkt"
    and sp: "sp = \<lparr>sp_addr = addr, sp_captured_at = captured, sp_rssi = Dbm rssi, sp_packet = pkt\<rparr>"
    using heard_packet_queued [OF aead seq measure build heard, of captured rssi] queued unfolding cipher by blast
  let ?ob = "observation_of sent sp"
  have ob: "observation_ok ?ob" using pkt(2) by (simp add: observation_ok_def observation_of_def sp)
  obtain ps where "write_frame crc mps sent sp = Inr ps" "concat ps = frame_bytes crc (observation_image ?ob)"
    using write_frame_bytes [OF ob usb(2), of crc] by blast
  then have "concat usb = frame_bytes crc (observation_image ?ob)"
    using usb(1) by simp
  then have stream: "concat stream_chunks = concat (map (\<lambda>ob. frame_bytes crc (observation_image ob)) [?ob])"
    using usb(3) by simp
  have e: "e = from_observation ?ob (clock 0)"
    by (simp add: envelope from_observation_def observation_of_def bs AIR_MAGIC_def sp)
  have "gateway_envelopes crc clock stream_chunks = [e]"
    using gateway_envelopes_of [OF stream] ob e by simp
  then have pub: "gateway_publishes crc to_json st clock stream_chunks = [(topic_display \<lparr>topic_site = st, topic_addr = addr\<rparr>, msg)]"
    using json(1) by (simp add: gateway_publishes_def List.map_filter_def publish_of_def envelope)
  let ?rcv = "\<lparr>rcv_site = st, rcv_envelope = e\<rparr>"
  have ea: "env_addr e = addr" "env_packet e = pkt" "env_rssi e = Dbm rssi" by (simp_all add: envelope bs AIR_MAGIC_def)
  have dec: "decode_publish from_json (topic_display \<lparr>topic_site = st, topic_addr = addr\<rparr>) msg = Inr ?rcv"
    using topic_from_display [of "\<lparr>topic_site = st, topic_addr = addr\<rparr>"] site json(2) ea
    by (simp add: decode_publish_def)
  have open': "open_envelope A e (cipher_new key addr) = Inr \<lparr>rd_addr = addr, rd_seq = s, rd_rssi = Dbm rssi,
      rd_received_at = env_received_at e, rd_battery = battery_of ms, rd_temperature = temperature_of ms,
      rd_relative_humidity = humidity_of ms\<rparr>"
    using packet_decode_sealed [OF aead seal k(2,1)] parse
    by (simp add: open_envelope_def ea metrics_of_def pkt(1))
  have opens: "open_envelope A (rcv_envelope ?rcv) (reg_cipher dev) = Inr \<lparr>rd_addr = addr, rd_seq = s, rd_rssi = Dbm rssi,
      rd_received_at = env_received_at e, rd_battery = battery_of ms, rd_temperature = temperature_of ms,
      rd_relative_humidity = humidity_of ms\<rparr>" using open' registered(3) by simp
  obtain db' where ins: "handle_envelope A now None ?rcv reg unknown db = (Stored, unknown, db')"
    "\<exists>r\<in>set (readings_table db'). rr_addr r = rr_addr row \<and> rr_seq r = rr_seq row \<and> rr_time r = rr_time row"
    "row \<in> set (readings_table db') \<or> db' = db"
    using handle_envelope_stored [of reg ?rcv dev A, OF _ opens, of now unknown db] registered(1,2) ea(1) row by auto
  show ?thesis using pub dec ins by (intro exI [of _ "topic_display \<lparr>topic_site = st, topic_addr = addr\<rparr>"] exI [of _ ?rcv]) auto
qed

theorem measurement_reaches_database_witness:
  "\<exists>topic msg rcv db'. gateway_publishes (\<lambda>_. 0) (\<lambda>_. Inr msg) (Site ''home'') (\<lambda>_. 0)
        (case write_frame (\<lambda>_. 0) 64 20 (last (channel (handle_payload 10 (DeviceAddr 1 2 3 4 5 6) (- 60)
           (case fst (build_packet clear_aead working [Battery (battery_measure 3413 1)] sample_builder blank_flash) of
              Inr bs \<Rightarrow> bs | Inl _ \<Rightarrow> []) handler_new))) of Inr ps \<Rightarrow> ps | Inl _ \<Rightarrow> []) = [(topic, msg)]
    \<and> rcv_site rcv = Site ''home''
    \<and> handle_envelope clear_aead 0 None rcv
          (sample_registry\<lparr>cache := [DeviceAddr 1 2 3 4 5 6 \<mapsto>
             \<lparr>reg_addr = DeviceAddr 1 2 3 4 5 6, reg_name = [], reg_key_valid_from = 0,
              reg_cipher = cipher_new (DeviceKey (replicate 32 1)) (DeviceAddr 1 2 3 4 5 6)\<rparr>]\<rparr>) unknown_none sample_db = (Stored, unknown_none, db')
    \<and> readings_table db' \<noteq> []"
proof -
  let ?a = "DeviceAddr 1 2 3 4 5 6" and ?ms = "[Battery (battery_measure 3413 1)]"
  let ?dev = "\<lparr>reg_addr = ?a, reg_name = [], reg_key_valid_from = 0, reg_cipher = cipher_new (DeviceKey (replicate 32 1)) ?a\<rparr>"
  obtain bs b' where b: "build_packet clear_aead working ?ms sample_builder blank_flash = (Inr bs, b', blank_flash)"
    using build_packet_Inr [OF clear_aead_ok _ sample_next, of ?ms] by auto
  have h: "handler_ok 2 handler_new" by (simp add: handler_ok_new)
  have new: "lru_lookup (seq_cache handler_new) ?a \<noteq> Some (5 :: u32)" by (simp add: handler_new_def)
  let ?sp = "last (channel (handle_payload 10 ?a (- 60) bs handler_new))"
  have "observation_ok (observation_of 20 ?sp)"
    using heard_packet_queued [OF clear_aead_ok sample_next battery_alone b h new, of 10 "- 60"]
    by (auto simp: observation_ok_def observation_of_def)
  then obtain usb where usb: "write_frame (\<lambda>_. 0) 64 20 ?sp = Inr usb"
    using write_frame_bytes [of 20 ?sp 64 "\<lambda>_. 0"] by auto
  have c: "pb_cipher sample_builder = cipher_new (DeviceKey (replicate 32 1)) ?a" by (simp add: sample_builder_def)
  have site: "site_ok (Site ''home'')" by code_simp
  have reg: "registry_get (sample_registry\<lparr>cache := [?a \<mapsto> ?dev]\<rparr>) ?a = Some ?dev" by (simp add: registry_get_def)
  obtain topic rcv db' where "gateway_publishes (\<lambda>_. 0) (\<lambda>_. Inr []) (Site ''home'') (\<lambda>_. 0) usb = [(topic, [])]"
    "rcv_site rcv = Site ''home''"
    "handle_envelope clear_aead 0 None rcv (sample_registry\<lparr>cache := [?a \<mapsto> ?dev]\<rparr>) unknown_none sample_db = (Stored, unknown_none, db')"
    "\<exists>r. r \<in> set (readings_table db')"
    using measurement_reaches_database [where stream_chunks = usb and to_json = "\<lambda>_. Inr []" and clock = "\<lambda>_. 0"
          and msg = "[]" and from_json = "\<lambda>_. Inr \<lparr>env_addr = ?a, env_rssi = Dbm (- 60),
            env_received_at = 0 - uint (age_ms_of 20 10) * 1000000, env_packet = drop 2 bs\<rparr>" and db = sample_db
          and now = 0 and unknown = unknown_none, OF clear_aead_ok c sample_next battery_alone b h new refl usb _ refl refl _ _ site reg _ _ refl]
    by (simp add: Bex_def) blast
  moreover from this have "readings_table db' \<noteq> []" by auto
  ultimately show ?thesis using usb b by auto
qed

section \<open>From the workbench to the service\<close>

text \<open>C3: Provisioning and the sensor meet: once \<open>provision\<close> or \<open>rotate\<close> has reported success, the
  board boots with the record it was given, and every packet it then builds decodes at the service,
  under the cipher the service holds for the board's own address, to the measurements taken.\<close>

theorem provisioned_board_is_heard:
  assumes "setup_ok su" "ranges_ok (pa_store args)" "service_ok (bench_net b)" "ficr_is a (core_mem (bench_core b))"
    and "provision su args name b = (Inr (addr, nm), b') \<or> rotate_key su args b = (Inr (addr, nm), b')"
    and "record_words mem = record_words (core_mem (bench_core b'))" "ficr_is a mem"
    and "aead_ok A" "seq_next env counter f = (Inr seq, c', f')"
    and "measure_sensors sample ratio sht pwr = (ms, pwr')"
  shows "\<exists>dev pb bs pb' body p. registry_get (svc_registry (net_service (bench_net b'))) a = Some dev
    \<and> sensor_boot mem (Inr counter) = Booted pb \<and> build_packet A env ms pb f = (Inr bs, pb', f')
    \<and> strip_air_magic bs = Inr body \<and> packet_parse body = Inr p
    \<and> packet_decode A (reg_cipher dev) p = Inr (metrics_of ms)"
proof -
  have bd: "board service_ok (core_script (bench_core b)) (ficr_is a) b" using assms(3,4) by (simp add: board_def)
  have "keyed a b'"
    using assms(5) holds_Inr [OF keying_commands(1) [OF assms(1,2)] bd] holds_Inr [OF keying_commands(2) [OF assms(1,2)] bd]
    by fastforce
  moreover have "chip_device_key mem = uicr_decode (record_words mem)"
    by (simp add: chip_device_key_def record_words_def words_at_def)
  ultimately obtain key where k: "chip_device_key mem = Provisioned key" "service_has (bench_net b') a key"
    using assms(6) by (auto simp: keyed_def)
  obtain dev where d: "registry_get (svc_registry (net_service (bench_net b'))) a = Some dev" "reg_cipher dev = cipher_new key a"
    using cipher_of_service [OF k(2)] .
  have "chip_device_addr mem = a" using assms(7) by (simp add: chip_device_addr_def ficr_is_def)
  then have boot: "sensor_boot mem (Inr counter) = Booted \<lparr>pb_counter = counter, pb_cipher = reg_cipher dev\<rparr>"
    using k(1) d(2) by (simp add: sensor_boot_def start_builder_def)
  show ?thesis
    using cycle_packet [of A env "\<lparr>pb_counter = counter, pb_cipher = reg_cipher dev\<rparr>", OF assms(8) _ assms(10)] assms(9) d(1) boot
    by fastforce
qed

text \<open>The sample board, provisioned on the bench and booted afterwards, measures its battery.\<close>

theorem provisioned_board_is_heard_witness:
  "\<exists>nm b' mem dev pb bs pb' body p. provision sample_setup sample_args ''kitchen'' sample_bench = (Inr (sample_addr, nm), b')
     \<and> record_words mem = record_words (core_mem (bench_core b'))
     \<and> registry_get (svc_registry (net_service (bench_net b'))) sample_addr = Some dev
     \<and> sensor_boot mem (Inr (pb_counter sample_builder)) = Booted pb
     \<and> build_packet clear_aead working [Battery (battery_measure 3413 1)] pb blank_flash = (Inr bs, pb', blank_flash)
     \<and> strip_air_magic bs = Inr body \<and> packet_parse body = Inr p
     \<and> packet_decode clear_aead (reg_cipher dev) p = Inr (metrics_of [Battery (battery_measure 3413 1)])"
proof -
  obtain nm b' where run: "provision sample_setup sample_args ''kitchen'' sample_bench = (Inr (sample_addr, nm), b')"
    using sample_run by blast
  define mem where "mem x = (if x < UICR_CUSTOMER then core_mem (bench_core sample_bench) x else core_mem (bench_core b') x)" for x
  have words: "record_words mem = record_words (core_mem (bench_core b'))"
    by (simp add: record_words_def words_at_def mem_def)
  have ficr: "ficr_is sample_addr mem"
    using sample_ready(4) by (simp add: ficr_is_def mem_def UICR_CUSTOMER_def FICR_DEVICE_ADDR_def)
  show ?thesis
    using provisioned_board_is_heard [OF sample_ready disjI1 [OF run] words ficr clear_aead_ok sample_next battery_alone] run words by blast
qed

section \<open>The image a board runs\<close>

text \<open>What a layout must be: every assertion of the script holds, the application and the counter's
  storage are not empty, do not overlap and end at the top of the flash, the RAM lies beyond the flash,
  and the storage holds exactly the slots the sequence counter uses.\<close>

definition layout_ok :: "layout \<Rightarrow> bool" where
  "layout_ok l =
     (case (ls_flash (layout_render l), ls_storage (layout_render l), ls_ram (layout_render l)) of
        ((app, app_len), (storage, storage_len), (ram, ram_len)) \<Rightarrow>
          list_all (\<lambda>a. a) (ls_asserts (layout_render l))
        \<and> 0 < app_len \<and> 0 < ram_len \<and> app + app_len \<le> storage \<and> storage + storage_len \<le> 0x100000 \<and> 0x100000 \<le> ram
        \<and> storage_len = 4 * TOTAL_SLOTS)"

lemma board_layout_ok:
  assumes "b \<in> set BOARDS"
  shows "\<exists>l. layout_derive b = Inr l \<and> layout_ok l"
proof -
  obtain l where l: "layout_derive b = Inr l"
    using boards_derive assms by (cases "layout_derive b") (auto simp: list_all_iff)
  have b: "bm_app_start b = 0" "bm_flash_top b = 0x100000" "bm_ram_start b = 0x20000000" "bm_ram_len b = 262144"
    using assms by (auto simp: BOARDS_def BARE_1MB_def)
  have "layout_ok l"
    using l layout_asserts_hold [OF l] b
    by (simp add: layout_ok_def layout_render_def Let_def layout_derive_Inr_iff STORAGE_LEN_def BUILD_PAGE_SIZE_def)
  then show ?thesis using l by blast
qed

text \<open>C34: The two places that look at the board features accept the same builds: the build script
  writes a linker script exactly for the sets of features for which the crate has one wiring and compiles,
  the script is the text of a well-formed layout of the selected board, and no shipped board makes
  the derivation of the layout panic.\<close>

theorem built_layout_well_formed:
  "case (build_script e,
         select_wiring (e ''CARGO_FEATURE_DB40'') (e ''CARGO_FEATURE_XIAO_EXPANSION'') (e ''CARGO_FEATURE_XIAO_BREADBOARD'')) of
     (Inr script, Some w) \<Rightarrow> \<exists>b l. b \<in> set BOARDS \<and> e (bm_feature_env b) \<and> layout_derive b = Inr l \<and> layout_ok l
                                   \<and> script = layout_text l
   | (Inl (Inl _), None) \<Rightarrow> True
   | _ \<Rightarrow> False"
proof -
  let ?sel = "filter (\<lambda>b. e (bm_feature_env b)) BOARDS"
  let ?w = "select_wiring (e ''CARGO_FEATURE_DB40'') (e ''CARGO_FEATURE_XIAO_EXPANSION'') (e ''CARGO_FEATURE_XIAO_BREADBOARD'')"
  have w: "(?w = None) = (length ?sel \<noteq> 1)"
    by (simp add: BOARDS_def BARE_1MB_def select_wiring_def)
  show ?thesis
  proof (cases "select_board e")
    case (Inl p)
    then have "\<not> is_ok (build_script e)" by (simp add: build_script_def)
    then have "?w = None" using w build_script_ok by simp
    then show ?thesis using Inl by (simp add: build_script_def)
  next
    case (Inr b)
    note b = select_board_Inr [OF Inr]
    obtain l where l: "layout_derive b = Inr l" "layout_ok l" using board_layout_ok b by blast
    then have s: "build_script e = Inr (layout_text l)" using Inr by (simp add: build_script_def)
    then obtain y where "?w = Some y" using w build_script_ok [of e] by auto
    then show ?thesis using s l b by simp blast
  qed
qed

end
